(* ===== verification/Prelude.thy ===== *)
theory Prelude
  imports
    Main
    "HOL-Library.Word"
    "HOL-Library.Char_ord"
    "HOL-Library.List_Lexorder"
    "HOL-Library.Product_Lexorder"
    "HOL-Library.AList"
begin

text \<open>
  Shared vocabulary of the development: the integer types of the code, exceptions as values
  of a sum type, and the pieces of the C++ standard library that several components use
  (decimal and hexadecimal printing, \<open>std::from_chars\<close>, \<open>std::stoll\<close>, C strings).

  A \<open>std::string\<close> is a \<^typ>\<open>string\<close>: a list of bytes. The order on strings is the
  lexicographic order on unsigned bytes, which is the order of \<open>std::string::compare\<close>, of
  \<open>std::map\<close> and of SQLite's BINARY collation.
\<close>

named_theorems res_simps \<open>elimination of the exception monad\<close>
named_theorems text_simps \<open>facts about printed numbers and C strings\<close>

section \<open>Types\<close>

type_synonym u64 = "64 word"
type_synonym u32 = "32 word"
type_synonym pid_t = int

lemma unat_u64_bound: "unat (w :: u64) < 2 ^ 64"
  using unsigned_less[of w, where ?'a = nat] by simp

text \<open>\<open>static_cast<int>\<close> of a wider integer keeps the low 32 bits as two's complement.\<close>

definition to_int32 :: "int \<Rightarrow> int" where
  "to_int32 x = signed_take_bit 31 x"

lemma to_int32_bounds: "- (2 ^ 31) \<le> to_int32 x \<and> to_int32 x < 2 ^ 31"
  using signed_take_bit_int_greater_eq_minus_exp[of 31 x] signed_take_bit_int_less_exp[of 31 x]
  by (simp add: to_int32_def)

lemma to_int32_id:
  assumes "- (2 ^ 31) \<le> x" "x < 2 ^ 31"
  shows "to_int32 x = x"
  using assms by (simp add: to_int32_def signed_take_bit_int_eq_self)

text \<open>Literals of several lines, and text in single quotes.\<close>

definition newline :: char where
  "newline = CHR 0x0A"

definition join_lines :: "string list \<Rightarrow> string" where
  "join_lines ls = tl (concat (map ((#) newline) ls))"

definition single_quoted :: "string \<Rightarrow> string" where
  "single_quoted s = CHR 0x27 # s @ [CHR 0x27]"

section \<open>Exceptions as values\<close>

datatype exn =
    Runtime_error string
  | Logic_error string
  | Invalid_argument string
  | Out_of_range string
  | System_error string

text \<open>\<open>std::exception::what\<close>.\<close>

fun what :: "exn \<Rightarrow> string" where
  "what (Runtime_error s) = s"
| "what (Logic_error s) = s"
| "what (Invalid_argument s) = s"
| "what (Out_of_range s) = s"
| "what (System_error s) = s"

type_synonym 'a res = "exn + 'a"

definition bind_res :: "'a res \<Rightarrow> ('a \<Rightarrow> 'b res) \<Rightarrow> 'b res" where
  "bind_res r f = (case r of Inl e \<Rightarrow> Inl e | Inr x \<Rightarrow> f x)"

lemma bind_res_simps [simp, code]:
  "bind_res (Inl e) f = Inl e"
  "bind_res (Inr x) f = f x"
  by (simp_all add: bind_res_def)

lemma bind_res_Inr_iff [res_simps]: "bind_res r f = Inr y \<longleftrightarrow> (\<exists>x. r = Inr x \<and> f x = Inr y)"
  by (cases r) auto

lemma bind_res_Inl_iff [res_simps]:
  "bind_res r f = Inl e \<longleftrightarrow> r = Inl e \<or> (\<exists>x. r = Inr x \<and> f x = Inl e)"
  by (cases r) auto

lemma bind_res_assoc: "bind_res (bind_res r f) g = bind_res r (\<lambda>x. bind_res (f x) g)"
  by (cases r) auto

text \<open>A loop over a list whose body may throw.\<close>

fun fold_res :: "('a \<Rightarrow> 's \<Rightarrow> 's res) \<Rightarrow> 'a list \<Rightarrow> 's \<Rightarrow> 's res" where
  "fold_res f [] s = Inr s"
| "fold_res f (x # xs) s = bind_res (f x s) (fold_res f xs)"

lemma fold_res_append:
  "fold_res f (xs @ ys) s = bind_res (fold_res f xs s) (fold_res f ys)"
proof (induction xs arbitrary: s)
  case Nil
  then show ?case by simp
next
  case (Cons x xs)
  have "fold_res f (xs @ ys) = (\<lambda>u. bind_res (fold_res f xs u) (fold_res f ys))"
    by (rule ext) (rule Cons.IH)
  then show ?case
    by (simp add: bind_res_assoc)
qed

lemma fold_res_invariant:
  assumes "fold_res f xs s = Inr t" "P s"
    and "\<And>x u v. x \<in> set xs \<Longrightarrow> f x u = Inr v \<Longrightarrow> P u \<Longrightarrow> P v"
  shows "P t"
  using assms
proof (induction xs arbitrary: s)
  case Nil
  then show ?case by simp
next
  case (Cons x xs)
  from Cons.prems(1) obtain u where u: "f x s = Inr u" "fold_res f xs u = Inr t"
    by (auto simp: res_simps)
  then have "P u"
    using Cons.prems(2,3) by auto
  with u(2) show ?case
    using Cons.IH Cons.prems(3) by auto
qed

section \<open>Printing numbers\<close>

definition digit_char :: "nat \<Rightarrow> char" where
  "digit_char d = char_of (48 + d)"

fun show_nat :: "nat \<Rightarrow> string" where
  "show_nat n =
     (if n < 10 then [digit_char n] else show_nat (n div 10) @ [digit_char (n mod 10)])"

declare show_nat.simps [simp del]

text \<open>\<open>std::to_string\<close> of a signed integer, and of an unsigned 64-bit one.\<close>

definition show_int :: "int \<Rightarrow> string" where
  "show_int i = (if i < 0 then CHR ''-'' # show_nat (nat (- i)) else show_nat (nat i))"

definition show_u64 :: "u64 \<Rightarrow> string" where
  "show_u64 w = show_nat (unat w)"

text \<open>\<open>std::hex\<close>: lower-case hexadecimal without leading zeros.\<close>

definition hex_char :: "nat \<Rightarrow> char" where
  "hex_char d = (if d < 10 then char_of (48 + d) else char_of (87 + d))"

fun show_hex :: "nat \<Rightarrow> string" where
  "show_hex n =
     (if n < 16 then [hex_char n] else show_hex (n div 16) @ [hex_char (n mod 16)])"

declare show_hex.simps [simp del]

text \<open>\<open>std::setw(w)\<close> with \<open>std::setfill('0')\<close>.\<close>

definition pad_zero :: "nat \<Rightarrow> string \<Rightarrow> string" where
  "pad_zero w s = replicate (w - length s) (CHR ''0'') @ s"

section \<open>Reading numbers\<close>

definition is_digit :: "char \<Rightarrow> bool" where
  "is_digit c \<longleftrightarrow> 48 \<le> (of_char c :: nat) \<and> (of_char c :: nat) \<le> 57"

definition digit_val :: "char \<Rightarrow> nat" where
  "digit_val c = of_char c - 48"

definition digits_val :: "string \<Rightarrow> nat" where
  "digits_val s = foldl (\<lambda>a c. 10 * a + digit_val c) 0 s"

lemma digit_char_digit [simp]: "d < 10 \<Longrightarrow> is_digit (digit_char d)"
  by (simp add: is_digit_def digit_char_def take_bit_eq_mod)

lemma digit_val_char [simp]: "d < 10 \<Longrightarrow> digit_val (digit_char d) = d"
  by (simp add: digit_val_def digit_char_def take_bit_eq_mod)

lemma digits_val_snoc: "digits_val (s @ [c]) = 10 * digits_val s + digit_val c"
  by (simp add: digits_val_def)

lemma show_nat_digits: "\<forall>c \<in> set (show_nat n). is_digit c"
  by (induction n rule: show_nat.induct) (subst show_nat.simps, auto)

lemma show_nat_not_empty [simp]: "show_nat n \<noteq> []"
  by (subst show_nat.simps) simp

lemma digits_val_show_nat [text_simps]: "digits_val (show_nat n) = n"
proof (induction n rule: show_nat.induct)
  case (1 n)
  show ?case
  proof (cases "n < 10")
    case True
    then show ?thesis
      by (subst show_nat.simps) (simp add: digits_val_def)
  next
    case False
    with 1 show ?thesis
      by (subst show_nat.simps) (simp add: digits_val_snoc)
  qed
qed

lemma show_nat_inject [simp]: "show_nat m = show_nat n \<longleftrightarrow> m = n"
  by (metis digits_val_show_nat)

lemma show_nat_takeWhile:
  assumes "rest = [] \<or> \<not> is_digit (hd rest)"
  shows "takeWhile is_digit (show_nat n @ rest) = show_nat n"
    and "dropWhile is_digit (show_nat n @ rest) = rest"
  using assms show_nat_digits[of n]
  by (cases rest; auto simp: takeWhile_append2 dropWhile_append2)+

lemma show_nat_span [simp]:
  "takeWhile is_digit (show_nat n) = show_nat n"
  "dropWhile is_digit (show_nat n) = []"
  using show_nat_takeWhile[of "[]" n] by simp_all

lemma hd_show_nat_digit: "is_digit (hd (show_nat n))"
  using show_nat_digits[of n] hd_in_set[OF show_nat_not_empty[of n]] by blast

lemma digit_not_minus [simp]: "is_digit c \<Longrightarrow> c \<noteq> CHR ''-''"
  by (auto simp: is_digit_def)

text \<open>
  \<open>std::from_chars\<close>: the longest digit prefix, no leading blanks or plus sign; a minus sign
  only for a signed type. The result is the error code, the value (0, its initial value in
  the code, where the call leaves it unchanged) and the rest of the input at \<open>ptr\<close>.
\<close>

datatype errc = Errc_ok | Errc_invalid_argument | Errc_out_of_range

definition from_chars_unsigned :: "nat \<Rightarrow> string \<Rightarrow> errc \<times> nat \<times> string" where
  "from_chars_unsigned hi s =
     (let ds = takeWhile is_digit s; rest = dropWhile is_digit s in
      if ds = [] then (Errc_invalid_argument, 0, s)
      else if digits_val ds \<le> hi then (Errc_ok, digits_val ds, rest)
      else (Errc_out_of_range, 0, rest))"

definition from_chars_signed :: "nat \<Rightarrow> string \<Rightarrow> errc \<times> int \<times> string" where
  "from_chars_signed width s =
     (let neg = (s \<noteq> [] \<and> hd s = CHR ''-'');
          t = (if neg then tl s else s);
          ds = takeWhile is_digit t; rest = dropWhile is_digit t;
          v = (if neg then - int (digits_val ds) else int (digits_val ds)) in
      if ds = [] then (Errc_invalid_argument, 0, s)
      else if - (2 ^ (width - 1)) \<le> v \<and> v < 2 ^ (width - 1) then (Errc_ok, v, rest)
      else (Errc_out_of_range, 0, rest))"

lemma from_chars_unsigned_show [text_simps]:
  "n \<le> hi \<Longrightarrow> from_chars_unsigned hi (show_nat n) = (Errc_ok, n, [])"
  by (simp add: from_chars_unsigned_def digits_val_show_nat Let_def)

lemma from_chars_signed_show [text_simps]:
  assumes "- (2 ^ (w - 1)) \<le> i" "i < 2 ^ (w - 1)"
  shows "from_chars_signed w (show_int i) = (Errc_ok, i, [])"
proof (cases "i < 0")
  case True
  with assms show ?thesis
    by (simp add: from_chars_signed_def show_int_def digits_val_show_nat Let_def)
next
  case False
  then have "hd (show_nat (nat i)) \<noteq> CHR ''-''"
    using digit_not_minus hd_show_nat_digit by blast
  with False assms show ?thesis
    by (simp add: from_chars_signed_def show_int_def digits_val_show_nat Let_def)
qed

text \<open>\<open>std::stoll\<close>: leading blanks and a sign are accepted, a trailing rest is ignored.\<close>

definition is_space :: "char \<Rightarrow> bool" where
  "is_space c \<longleftrightarrow> of_char c = (32::nat) \<or> (9 \<le> (of_char c :: nat) \<and> (of_char c :: nat) \<le> 13)"

definition stoll :: "string \<Rightarrow> int res" where
  "stoll s =
     (let t = dropWhile is_space s;
          neg = (t \<noteq> [] \<and> hd t = CHR ''-'');
          u = (if t \<noteq> [] \<and> (hd t = CHR ''-'' \<or> hd t = CHR ''+'') then tl t else t);
          ds = takeWhile is_digit u;
          v = (if neg then - int (digits_val ds) else int (digits_val ds)) in
      if ds = [] then Inl (Invalid_argument ''stoll'')
      else if - (2 ^ 63) \<le> v \<and> v < 2 ^ 63 then Inr v
      else Inl (Out_of_range ''stoll''))"

lemma digit_not_space [simp]: "is_digit c \<Longrightarrow> \<not> is_space c"
  by (auto simp: is_digit_def is_space_def)

lemma digit_not_plus [simp]: "is_digit c \<Longrightarrow> c \<noteq> CHR ''+''"
  by (auto simp: is_digit_def)

lemma show_nat_not_space: "dropWhile is_space (show_nat n) = show_nat n"
  using hd_show_nat_digit[of n] show_nat_not_empty[of n]
  by (cases "show_nat n") auto

lemma stoll_show_nat [text_simps]:
  "stoll (show_nat n) = (if n < 2 ^ 63 then Inr (int n) else Inl (Out_of_range ''stoll''))"
proof -
  have sign: "hd (show_nat n) \<noteq> CHR ''-''" "hd (show_nat n) \<noteq> CHR ''+''"
    using digit_not_minus digit_not_plus hd_show_nat_digit by blast+
  have "int n < 2 ^ 63 \<longleftrightarrow> n < 2 ^ 63"
    by (metis of_nat_less_iff of_nat_numeral of_nat_power)
  then show ?thesis
    using sign
    by (simp add: stoll_def Let_def show_nat_not_space digits_val_show_nat)
qed

lemma stoll_show_int [text_simps]:
  assumes "- (2 ^ 63) \<le> i" "i < 2 ^ 63"
  shows "stoll (show_int i) = Inr i"
proof (cases "i < 0")
  case True
  have "dropWhile is_space (CHR ''-'' # s) = CHR ''-'' # s" for s
    by (simp add: is_space_def)
  with True assms show ?thesis
    by (simp add: stoll_def show_int_def digits_val_show_nat Let_def)
next
  case False
  with assms show ?thesis
    using stoll_show_nat[of "nat i"] by (simp add: show_int_def)
qed

section \<open>C strings\<close>

text \<open>A \<open>std::string\<close> built from a \<open>char*\<close> ends at the first NUL byte.\<close>

definition c_str :: "string \<Rightarrow> string" where
  "c_str s = takeWhile (\<lambda>c. c \<noteq> CHR 0x00) s"

lemma c_str_id [text_simps]: "CHR 0x00 \<notin> set s \<Longrightarrow> c_str s = s"
  by (simp add: c_str_def takeWhile_eq_all_conv) (metis)

lemma c_str_no_nul [simp]: "CHR 0x00 \<notin> set (c_str s)"
  by (auto simp: c_str_def dest: set_takeWhileD)

lemma digit_not_nul: "is_digit c \<Longrightarrow> c \<noteq> CHR 0x00"
  by (auto simp: is_digit_def)

lemma show_nat_no_nul [simp]: "CHR 0x00 \<notin> set (show_nat n)"
  using show_nat_digits[of n] digit_not_nul by blast

lemma show_int_no_nul [simp]: "CHR 0x00 \<notin> set (show_int i)"
  by (simp add: show_int_def)

definition ends_with :: "string \<Rightarrow> string \<Rightarrow> bool" where
  "ends_with s t \<longleftrightarrow> length t \<le> length s \<and> drop (length s - length t) s = t"

end
