(* ===== verification/Event_Model.thy ===== *)
theory Event_Model
  imports Prelude
begin

text \<open>
  The semantic event (\<open>include/whyrun/event.hpp\<close>, \<open>src/event.cpp\<close>): the one record that the
  execution state produces and the capsule stores, and the \<open>EventSink\<close> interface between the
  two. A \<open>std::unordered_map<std::string, std::string>\<close> of metadata is an association list
  with distinct keys; \<open>m[k] = v\<close> is \<open>AList.update\<close>.
\<close>

section \<open>Event types and their names\<close>

datatype event_type =
    CommandStart
  | CommandEnd
  | ProcessExec
  | ProcessFork
  | ProcessExit
  | FileOpen
  | FileRead
  | FileWrite
  | NetworkConnect
  | LocalIpcConnect

fun event_type_name :: "event_type \<Rightarrow> string" where
  "event_type_name CommandStart = ''command_start''"
| "event_type_name CommandEnd = ''command_end''"
| "event_type_name ProcessExec = ''process_exec''"
| "event_type_name ProcessFork = ''process_fork''"
| "event_type_name ProcessExit = ''process_exit''"
| "event_type_name FileOpen = ''file_open''"
| "event_type_name FileRead = ''file_read''"
| "event_type_name FileWrite = ''file_write''"
| "event_type_name NetworkConnect = ''network_connect''"
| "event_type_name LocalIpcConnect = ''local_ipc_connect''"

lemma event_type_name_inject [simp]: "event_type_name a = event_type_name b \<longleftrightarrow> a = b"
  by (cases a; cases b; simp)

lemma event_type_name_not_empty [simp]: "event_type_name t \<noteq> []"
  by (cases t) simp_all

lemma event_type_name_no_nul [simp]: "CHR 0x00 \<notin> set (event_type_name t)"
  by (cases t) simp_all

text \<open>
  The types are ordered as the capsule's queries order them, by name (\<open>ORDER BY type\<close>), so
  that the library's sorting applies to them.
\<close>

instantiation event_type :: linorder
begin

definition less_eq_event_type :: "event_type \<Rightarrow> event_type \<Rightarrow> bool" where
  "less_eq_event_type a b \<longleftrightarrow> event_type_name a \<le> event_type_name b"

definition less_event_type :: "event_type \<Rightarrow> event_type \<Rightarrow> bool" where
  "less_event_type a b \<longleftrightarrow> event_type_name a < event_type_name b"

instance
  by standard (auto simp: less_eq_event_type_def less_event_type_def less_le)

end

section \<open>Events\<close>

record event =
  timestamp_ns :: u64
  ev_pid :: pid_t
  ev_tid :: pid_t
  ev_type :: event_type
  resource :: string
  ev_result :: int
  errno_value :: int
  metadata :: "(string \<times> string) list"
  ev_command_id :: "u64 option"

definition set_metadata :: "string \<Rightarrow> string \<Rightarrow> event \<Rightarrow> event" where
  "set_metadata k v e = e\<lparr>metadata := AList.update k v (metadata e)\<rparr>"

lemma set_metadata_simps [simp]:
  "timestamp_ns (set_metadata k v e) = timestamp_ns e"
  "ev_pid (set_metadata k v e) = ev_pid e"
  "ev_tid (set_metadata k v e) = ev_tid e"
  "ev_type (set_metadata k v e) = ev_type e"
  "resource (set_metadata k v e) = resource e"
  "ev_result (set_metadata k v e) = ev_result e"
  "errno_value (set_metadata k v e) = errno_value e"
  "ev_command_id (set_metadata k v e) = ev_command_id e"
  "metadata (set_metadata k v e) = AList.update k v (metadata e)"
  by (simp_all add: set_metadata_def)

text \<open>\<open>metadata_value\<close> of the store: the value of a key, or a fallback.\<close>

definition metadata_value :: "event \<Rightarrow> string \<Rightarrow> string \<Rightarrow> string" where
  "metadata_value e key fallback =
     (case map_of (metadata e) key of None \<Rightarrow> fallback | Some v \<Rightarrow> v)"

lemma metadata_value_update [simp]:
  "metadata_value (set_metadata k v e) key fallback =
     (if key = k then v else metadata_value e key fallback)"
  by (simp add: metadata_value_def update_conv')

section \<open>The sink interface\<close>

text \<open>
  \<open>EventSink::emit\<close> is the one operation the collector calls on the capsule; it may throw.
  A sink that keeps its promise records every accepted event, once and in order: \<open>view\<close> is
  what it has recorded and \<open>entry_of\<close> what it keeps of one event.
\<close>

definition emit_all :: "(event \<Rightarrow> 's \<Rightarrow> 's res) \<Rightarrow> event list \<Rightarrow> 's \<Rightarrow> 's res" where
  "emit_all emit evs s = fold_res emit evs s"

lemma emit_all_Nil [simp]: "emit_all emit [] s = Inr s"
  by (simp add: emit_all_def)

lemma emit_all_Cons [simp]: "emit_all emit (e # es) s = bind_res (emit e s) (emit_all emit es)"
  by (simp add: emit_all_def[abs_def])

lemma emit_all_append:
  "emit_all emit (xs @ ys) s = bind_res (emit_all emit xs s) (emit_all emit ys)"
  by (simp add: emit_all_def[abs_def] fold_res_append)

locale event_sink =
  fixes emit :: "event \<Rightarrow> 's \<Rightarrow> 's res"
    and sink_ok :: "'s \<Rightarrow> bool"
    and view :: "'s \<Rightarrow> 'r list"
    and entry_of :: "event \<Rightarrow> 'r"
  assumes emit_ok: "sink_ok s \<Longrightarrow> emit e s = Inr s' \<Longrightarrow> sink_ok s'"
    and emit_view: "sink_ok s \<Longrightarrow> emit e s = Inr s' \<Longrightarrow> view s' = view s @ [entry_of e]"
begin

lemma emit_all_ok:
  assumes "emit_all emit evs s = Inr s'" "sink_ok s"
  shows "sink_ok s'"
  using assms unfolding emit_all_def
  by (rule fold_res_invariant) (blast intro: emit_ok)

lemma emit_all_view:
  assumes "emit_all emit evs s = Inr s'" "sink_ok s"
  shows "view s' = view s @ map entry_of evs"
  using assms
proof (induction evs arbitrary: s)
  case Nil
  then show ?case by simp
next
  case (Cons e es)
  from Cons.prems(1) obtain u where u: "emit e s = Inr u" "emit_all emit es u = Inr s'"
    by (auto simp: res_simps)
  then have "sink_ok u" "view u = view s @ [entry_of e]"
    using Cons.prems(2) emit_ok emit_view by blast+
  with Cons.IH[OF u(2)] show ?case by simp
qed

end

end
