(* ===== verification/Sockets.thy ===== *)
theory Sockets
  imports Event_Model
begin

text \<open>
  Reading the tracee: the \<open>TraceeMemory\<close> interface, the address a \<open>connect\<close> names
  (\<open>socket_endpoint\<close> and \<open>render_unix_name\<close> of \<open>src/execution_state.cpp\<close>) and the small
  printing helpers beside them.

  What the kernel and the C library answer is a parameter: the record \<open>host\<close> holds the
  tracee's memory, \<open>readlink\<close> and \<open>inet_ntop\<close> at the moment of one callback. Socket
  addresses are read as the bytes of the x86_64 Linux structures (family in the first two
  bytes, little-endian; port in the next two, network order).
\<close>

section \<open>The host\<close>

record host =
  read_string_at :: "pid_t \<Rightarrow> u64 \<Rightarrow> nat \<Rightarrow> string"
  read_bytes_at :: "pid_t \<Rightarrow> u64 \<Rightarrow> nat \<Rightarrow> string option"
  read_symlink :: "string \<Rightarrow> string option"
  inet_ntop :: "nat \<Rightarrow> string \<Rightarrow> string option"

text \<open>The default \<open>max_length\<close> of \<open>read_string\<close>.\<close>

definition read_string :: "host \<Rightarrow> pid_t \<Rightarrow> u64 \<Rightarrow> string" where
  "read_string h tid address = read_string_at h tid address 4096"

definition read_proc_link :: "host \<Rightarrow> pid_t \<Rightarrow> string \<Rightarrow> string" where
  "read_proc_link h pid name =
     (case read_symlink h (''/proc/'' @ show_int pid @ ''/'' @ name) of
        None \<Rightarrow> [] | Some v \<Rightarrow> v)"

definition unreadable_address :: "u64 \<Rightarrow> string" where
  "unreadable_address address = ''<unreadable@0x'' @ show_hex (unat address) @ ''>''"

text \<open>
  The interface's promise: a string read has no NUL byte and fits the limit, and a block
  read has the size that was asked for.
\<close>

locale tracee_memory =
  fixes rd_string :: "pid_t \<Rightarrow> u64 \<Rightarrow> nat \<Rightarrow> string"
    and rd_bytes :: "pid_t \<Rightarrow> u64 \<Rightarrow> nat \<Rightarrow> string option"
  assumes rd_string_no_nul: "CHR 0x00 \<notin> set (rd_string tid address n)"
    and rd_string_length: "length (rd_string tid address n) \<le> n"
    and rd_bytes_length: "rd_bytes tid address n = Some bs \<Longrightarrow> length bs = n"

section \<open>Unix-domain names\<close>

definition is_print :: "char \<Rightarrow> bool" where
  "is_print c \<longleftrightarrow> 32 \<le> (of_char c :: nat) \<and> (of_char c :: nat) \<le> 126"

definition backslash :: char where
  "backslash = CHR 0x5C"

definition render_byte :: "char \<Rightarrow> string" where
  "render_byte c =
     (if is_print c \<and> c \<noteq> backslash then [c]
      else [backslash, CHR ''x''] @ pad_zero 2 (show_hex (of_char c)))"

text \<open>
  The bytes of the name (\<open>length\<close> of the code is the length of the list): none is an unnamed
  socket, a leading NUL an abstract name of the full length, else the name ends at the
  first NUL.
\<close>

definition render_unix_name :: "string \<Rightarrow> string" where
  "render_unix_name path =
     (if path = [] then ''unix:<unnamed>''
      else
        let abstract = (hd path = CHR 0x00);
            name = (if abstract then tl path else takeWhile (\<lambda>c. c \<noteq> CHR 0x00) path) in
        ''unix:'' @ (if abstract then ''@'' else []) @ concat (map render_byte name))"

section \<open>Socket endpoints\<close>

record socket_endpoint_t =
  ep_event_type :: event_type
  ep_resource :: string
  family_name :: string

definition mk_endpoint :: "event_type \<Rightarrow> string \<Rightarrow> string \<Rightarrow> socket_endpoint_t" where
  "mk_endpoint t r f = \<lparr>ep_event_type = t, ep_resource = r, family_name = f\<rparr>"

text \<open>Constants of x86_64 Linux.\<close>

definition AF_UNIX :: nat where "AF_UNIX = 1"
definition AF_INET :: nat where "AF_INET = 2"
definition AF_INET6 :: nat where "AF_INET6 = 10"
definition sizeof_sa_family :: nat where "sizeof_sa_family = 2"
definition sizeof_sockaddr_in :: nat where "sizeof_sockaddr_in = 16"
definition sizeof_sockaddr_in6 :: nat where "sizeof_sockaddr_in6 = 28"
definition sizeof_sockaddr_un :: nat where "sizeof_sockaddr_un = 110"
definition sun_path_offset :: nat where "sun_path_offset = 2"

lemmas sockaddr_consts =
  AF_UNIX_def AF_INET_def AF_INET6_def sizeof_sa_family_def sizeof_sockaddr_in_def
  sizeof_sockaddr_in6_def sizeof_sockaddr_un_def sun_path_offset_def

definition byte_at :: "string \<Rightarrow> nat \<Rightarrow> nat" where
  "byte_at bs i = (if i < length bs then of_char (bs ! i) else 0)"

definition u16_le :: "string \<Rightarrow> nat" where
  "u16_le bs = byte_at bs 0 + 256 * byte_at bs 1"

text \<open>\<open>ntohs\<close> of the two bytes at an offset.\<close>

definition u16_be :: "string \<Rightarrow> nat \<Rightarrow> nat" where
  "u16_be bs off = 256 * byte_at bs off + byte_at bs (off + 1)"

definition socket_endpoint :: "host \<Rightarrow> pid_t \<Rightarrow> u64 \<Rightarrow> u64 \<Rightarrow> socket_endpoint_t option" where
  "socket_endpoint h tid address len =
     (if address = 0 \<or> unat len < sizeof_sa_family then
        Some (mk_endpoint NetworkConnect ''<invalid-sockaddr>'' ''unknown'')
      else
        case read_bytes_at h tid address sizeof_sa_family of
          None \<Rightarrow> Some (mk_endpoint NetworkConnect (unreadable_address address) ''unreadable'')
        | Some fam \<Rightarrow>
            let family = u16_le fam in
            if family = AF_INET \<and> sizeof_sockaddr_in \<le> unat len then
              (case read_bytes_at h tid address sizeof_sockaddr_in of
                 None \<Rightarrow> Some (mk_endpoint NetworkConnect (unreadable_address address) ''inet'')
               | Some value \<Rightarrow>
                   (case inet_ntop h AF_INET (take 4 (drop 4 value)) of
                      None \<Rightarrow> Some (mk_endpoint NetworkConnect ''<invalid-ipv4>'' ''inet'')
                    | Some buffer \<Rightarrow>
                        Some (mk_endpoint NetworkConnect
                          (buffer @ '':'' @ show_nat (u16_be value 2)) ''inet'')))
            else if family = AF_INET6 \<and> sizeof_sockaddr_in6 \<le> unat len then
              (case read_bytes_at h tid address sizeof_sockaddr_in6 of
                 None \<Rightarrow> Some (mk_endpoint NetworkConnect (unreadable_address address) ''inet6'')
               | Some value \<Rightarrow>
                   (case inet_ntop h AF_INET6 (take 16 (drop 8 value)) of
                      None \<Rightarrow> Some (mk_endpoint NetworkConnect ''<invalid-ipv6>'' ''inet6'')
                    | Some buffer \<Rightarrow>
                        Some (mk_endpoint NetworkConnect
                          (''['' @ buffer @ '']:'' @ show_nat (u16_be value 2)) ''inet6'')))
            else if family = AF_UNIX then
              (let read_size = min (unat len) sizeof_sockaddr_un in
               case read_bytes_at h tid address read_size of
                 None \<Rightarrow>
                   Some (mk_endpoint LocalIpcConnect (unreadable_address address) ''unix'')
               | Some value \<Rightarrow>
                   (let path_length =
                          (if sun_path_offset < read_size then read_size - sun_path_offset
                           else 0) in
                    Some (mk_endpoint LocalIpcConnect
                      (render_unix_name (take path_length (drop sun_path_offset value)))
                      ''unix'')))
            else None)"

section \<open>Printable names\<close>

lemma hex_char_printable:
  assumes "d < 16"
  shows "is_print (hex_char d) \<and> hex_char d \<noteq> backslash"
proof -
  have code: "of_char (hex_char d) = (if d < 10 then 48 + d else 87 + d)"
    using assms by (simp add: hex_char_def take_bit_eq_mod)
  have "(of_char backslash :: nat) = 92"
    by (simp add: backslash_def)
  with code assms have "(of_char (hex_char d) :: nat) \<noteq> of_char backslash"
    by simp
  with code assms show ?thesis
    by (auto simp: is_print_def)
qed

lemma show_hex_printable: "\<forall>c \<in> set (show_hex n). is_print c \<and> c \<noteq> backslash"
  by (induction n rule: show_hex.induct) (subst show_hex.simps, auto simp: hex_char_printable)

lemma pad_zero_printable:
  "\<forall>c \<in> set (pad_zero w (show_hex n)). is_print c \<and> c \<noteq> backslash"
proof -
  have "is_print (CHR ''0'') \<and> CHR ''0'' \<noteq> backslash"
    by (simp add: is_print_def backslash_def)
  with show_hex_printable[of n] show ?thesis
    by (auto simp: pad_zero_def)
qed

lemma render_byte_printable: "\<forall>c \<in> set (render_byte b). is_print c"
proof -
  have "is_print backslash" "is_print (CHR ''x'')"
    by (simp_all add: is_print_def backslash_def)
  with pad_zero_printable[of 2 "of_char b"] show ?thesis
    by (auto simp: render_byte_def)
qed

lemma render_unix_name_printable: "\<forall>c \<in> set (render_unix_name path). is_print c"
proof -
  have "\<forall>c \<in> set (''unix:'' :: string). is_print c" "\<forall>c \<in> set ''unix:<unnamed>''. is_print c"
    "is_print (CHR ''@'')"
    by (simp_all add: is_print_def)
  then show ?thesis
    using render_byte_printable by (auto simp: render_unix_name_def Let_def)
qed

end
