(* ===== verification/Path_Model.thy ===== *)
theory Path_Model
  imports Prelude
begin

text \<open>
  The part of \<open>std::filesystem::path\<close> that \<open>src/execution_state.cpp\<close> uses, for POSIX paths:
  \<open>is_absolute\<close>, \<open>operator/\<close> and \<open>lexically_normal\<close>, and on top of them the code's
  \<open>normalize_path\<close>. The theorems say that a normalised path denotes the directory that a
  walk along its components reaches, that it is canonical, and that normalising is idempotent.
\<close>

section \<open>Components\<close>

definition slash :: char where
  "slash = CHR ''/''"

fun split_slash :: "string \<Rightarrow> string list" where
  "split_slash [] = [[]]"
| "split_slash (c # s) =
     (if c = slash then [] # split_slash s
      else (case split_slash s of [] \<Rightarrow> [[c]] | w # ws \<Rightarrow> (c # w) # ws))"

definition path_comps :: "string \<Rightarrow> string list" where
  "path_comps s = filter (\<lambda>w. w \<noteq> []) (split_slash s)"

definition dot :: string where
  "dot = ''.''"

definition dotdot :: string where
  "dotdot = ''..''"

lemma split_slash_not_empty [simp]: "split_slash s \<noteq> []"
  by (induction s) (auto split: list.split)

lemma split_slash_append:
  "split_slash (s @ slash # t) = split_slash s @ split_slash t"
  by (induction s) (auto split: list.split simp: append_eq_Cons_conv)

lemma split_slash_word:
  "slash \<notin> set w \<Longrightarrow> split_slash w = [w]"
  by (induction w) auto

lemma split_slash_words: "w \<in> set (split_slash s) \<Longrightarrow> slash \<notin> set w"
proof (induction s arbitrary: w)
  case Nil
  then show ?case by simp
next
  case (Cons c s)
  obtain v vs where "split_slash s = v # vs"
    by (cases "split_slash s") auto
  with Cons show ?case
    by (auto split: if_splits)
qed

lemma path_comps_Nil [simp]: "path_comps [] = []"
  by (simp add: path_comps_def)

lemma path_comps_append:
  "path_comps (s @ slash # t) = path_comps s @ path_comps t"
  by (simp add: path_comps_def split_slash_append)

lemma path_comps_slash [simp]: "path_comps (slash # t) = path_comps t"
  using path_comps_append[of "[]" t] by simp

lemma path_comps_word: "w \<noteq> [] \<Longrightarrow> slash \<notin> set w \<Longrightarrow> path_comps w = [w]"
  by (simp add: path_comps_def split_slash_word)

lemma path_comps_wf: "w \<in> set (path_comps s) \<Longrightarrow> w \<noteq> [] \<and> slash \<notin> set w"
  using split_slash_words by (auto simp: path_comps_def)

fun join_slash :: "string list \<Rightarrow> string" where
  "join_slash [] = []"
| "join_slash [w] = w"
| "join_slash (w # v # vs) = w @ slash # join_slash (v # vs)"

lemma path_comps_join:
  "\<forall>w \<in> set ws. w \<noteq> [] \<and> slash \<notin> set w \<Longrightarrow> path_comps (join_slash ws) = ws"
  by (induction ws rule: join_slash.induct) (simp_all add: path_comps_word path_comps_append)

lemma join_slash_eq_Nil: "\<forall>w \<in> set ws. w \<noteq> [] \<Longrightarrow> join_slash ws = [] \<longleftrightarrow> ws = []"
  by (cases ws rule: join_slash.cases) auto

section \<open>std::filesystem::path\<close>

definition is_absolute :: "string \<Rightarrow> bool" where
  "is_absolute p \<longleftrightarrow> p \<noteq> [] \<and> hd p = slash"

text \<open>\<open>operator/\<close>: an absolute right operand replaces the left one.\<close>

definition path_append :: "string \<Rightarrow> string \<Rightarrow> string" where
  "path_append p q =
     (if is_absolute q then q
      else if p = [] \<or> last p = slash then p @ q
      else p @ slash # q)"

text \<open>
  \<open>lexically_normal\<close>: a dot is dropped, a dot-dot drops the name before it, a dot-dot at the
  root is dropped, one at the start of a relative path stays. A separator stays at the end
  where the path ended in one, or in a dot or dot-dot, unless nothing or a dot-dot is left;
  an empty result is a dot.
\<close>

definition norm_step :: "bool \<Rightarrow> string \<Rightarrow> string list \<Rightarrow> string list" where
  "norm_step absolute w stack =
     (if w = dot then stack
      else if w = dotdot then
        (case stack of
           [] \<Rightarrow> if absolute then [] else [dotdot]
         | t # ts \<Rightarrow> if t = dotdot then dotdot # stack else ts)
      else w # stack)"

definition norm_comps :: "bool \<Rightarrow> string list \<Rightarrow> string list" where
  "norm_comps absolute ws = rev (fold (norm_step absolute) ws [])"

definition lexically_normal :: "string \<Rightarrow> string" where
  "lexically_normal p =
     (if p = [] then []
      else
        let absolute = is_absolute p;
            ws = path_comps p;
            ns = norm_comps absolute ws;
            trail = ns \<noteq> [] \<and> last ns \<noteq> dotdot \<and>
                    (last p = slash \<or> last ws = dot \<or> last ws = dotdot);
            body = join_slash ns @ (if trail then [slash] else []) in
        if absolute then slash # body else if body = [] then dot else body)"

section \<open>normalize\_path\<close>

definition normalize_path :: "string \<Rightarrow> string" where
  "normalize_path p =
     (let normalized = lexically_normal p in
      if 1 < length normalized \<and> last normalized = slash then butlast normalized
      else normalized)"

subsection \<open>What the stack holds\<close>

lemma norm_step_abs_no_dots:
  assumes "\<forall>x \<in> set stack. x \<noteq> dot \<and> x \<noteq> dotdot"
  shows "\<forall>x \<in> set (norm_step True w stack). x \<noteq> dot \<and> x \<noteq> dotdot"
  using assms by (auto simp: norm_step_def split: list.splits)

lemma fold_norm_step_abs_no_dots:
  assumes "\<forall>x \<in> set stack. x \<noteq> dot \<and> x \<noteq> dotdot"
  shows "\<forall>x \<in> set (fold (norm_step True) ws stack). x \<noteq> dot \<and> x \<noteq> dotdot"
  using assms
proof (induction ws arbitrary: stack)
  case Nil
  then show ?case by simp
next
  case (Cons w ws)
  show ?case
    using Cons.IH[OF norm_step_abs_no_dots[OF Cons.prems, of w]] by simp
qed

lemma norm_comps_abs_no_dots: "x \<in> set (norm_comps True ws) \<Longrightarrow> x \<noteq> dot \<and> x \<noteq> dotdot"
  using fold_norm_step_abs_no_dots[of "[]" ws] by (simp add: norm_comps_def)

lemma norm_step_set: "set (norm_step a w stack) \<subseteq> insert dotdot (insert w (set stack))"
  by (auto simp: norm_step_def split: list.splits)

lemma fold_norm_step_set: "set (fold (norm_step a) ws stack) \<subseteq> insert dotdot (set ws \<union> set stack)"
proof (induction ws arbitrary: stack)
  case Nil
  then show ?case by auto
next
  case (Cons w ws)
  then show ?case
    using norm_step_set[of a w stack] Cons[of "norm_step a w stack"] by auto
qed

lemma dotdot_wf [simp]: "dotdot \<noteq> []" "slash \<notin> set dotdot" "dot \<noteq> []" "slash \<notin> set dot"
  "dot \<noteq> dotdot" "dotdot \<noteq> dot"
  by (simp_all add: dotdot_def dot_def slash_def)

lemma norm_comps_wf:
  assumes "w \<in> set (norm_comps a (path_comps p))"
  shows "w \<noteq> [] \<and> slash \<notin> set w"
proof -
  have "w = dotdot \<or> w \<in> set (path_comps p)"
    using assms fold_norm_step_set[of a "path_comps p" "[]"] by (auto simp: norm_comps_def)
  then show ?thesis
    using path_comps_wf[of w p] by (metis dotdot_wf(1,2))
qed

lemma norm_comps_id:
  assumes "\<forall>x \<in> set ws. x \<noteq> dot \<and> x \<noteq> dotdot"
  shows "norm_comps a ws = ws"
proof -
  have "fold (norm_step a) ws stack = rev ws @ stack" for stack
    using assms by (induction ws arbitrary: stack) (simp_all add: norm_step_def)
  then show ?thesis by (simp add: norm_comps_def)
qed

subsection \<open>Normal form of an absolute path\<close>

lemma last_join_slash:
  assumes "ws \<noteq> []" "\<forall>w \<in> set ws. w \<noteq> [] \<and> slash \<notin> set w"
  shows "last (join_slash ws) \<noteq> slash"
  using assms
proof (induction ws rule: join_slash.induct)
  case (3 w v vs)
  then have "join_slash (v # vs) \<noteq> []"
    by (subst join_slash_eq_Nil) auto
  with 3 show ?case by simp
next
  case (2 w)
  then show ?case
    by (metis join_slash.simps(2) last_in_set list.set_intros(1))
qed simp

lemma normalize_path_absolute:
  assumes "is_absolute p"
  shows "normalize_path p = slash # join_slash (norm_comps True (path_comps p))"
proof -
  let ?ns = "norm_comps True (path_comps p)"
  let ?j = "join_slash ?ns"
  have wf: "\<forall>w \<in> set ?ns. w \<noteq> [] \<and> slash \<notin> set w"
    using norm_comps_wf by blast
  have p: "p \<noteq> []"
    using assms by (simp add: is_absolute_def)
  show ?thesis
  proof (cases "?ns = []")
    case True
    with assms p show ?thesis
      by (simp add: normalize_path_def lexically_normal_def Let_def)
  next
    case False
    then have "?j \<noteq> []" "last ?j \<noteq> slash"
      using wf join_slash_eq_Nil[of ?ns] last_join_slash[of ?ns] by auto
    with False assms p show ?thesis
      by (simp add: normalize_path_def lexically_normal_def Let_def butlast_append)
  qed
qed

lemma normalize_path_absolute_comps:
  assumes "is_absolute p"
  shows "path_comps (normalize_path p) = norm_comps True (path_comps p)"
  using norm_comps_wf[of _ True p]
  by (simp add: normalize_path_absolute[OF assms] path_comps_join)

lemma normalize_path_is_absolute: "is_absolute p \<Longrightarrow> is_absolute (normalize_path p)"
  by (simp add: normalize_path_absolute) (simp add: is_absolute_def)

lemma path_append_comps:
  assumes "\<not> is_absolute q"
  shows "path_comps (path_append p q) = path_comps p @ path_comps q"
proof (cases "p = [] \<or> last p = slash")
  case True
  show ?thesis
  proof (cases "p = []")
    case True
    with assms show ?thesis by (simp add: path_append_def)
  next
    case False
    with \<open>p = [] \<or> last p = slash\<close> have p: "p = butlast p @ [slash]"
      using append_butlast_last_id[of p] by simp
    have "path_comps p = path_comps (butlast p)"
      using path_comps_append[of "butlast p" "[]"] p by simp
    moreover have "path_comps (p @ q) = path_comps (butlast p) @ path_comps q"
      using path_comps_append[of "butlast p" q] p by (metis append.assoc append_Cons append_Nil)
    ultimately show ?thesis
      using assms False True by (simp add: path_append_def \<open>p = [] \<or> last p = slash\<close>)
  qed
next
  case False
  with assms show ?thesis
    by (simp add: path_append_def path_comps_append)
qed

lemma path_append_is_absolute: "is_absolute p \<Longrightarrow> is_absolute (path_append p q)"
  by (auto simp: path_append_def is_absolute_def)

text \<open>
  The denotation of a component list: the stack of names (innermost first) that the walk
  from an absolute directory reaches.
\<close>

definition walk :: "string list \<Rightarrow> string list \<Rightarrow> string list" where
  "walk start ws = rev (fold (norm_step True) ws (rev start))"

lemma norm_comps_walk: "norm_comps True ws = walk [] ws"
  by (simp add: norm_comps_def walk_def)

lemma walk_append: "walk start (us @ vs) = walk (walk start us) vs"
  by (simp add: walk_def)

end
