(* ===== verification/Marker_Protocol.thy ===== *)
theory Marker_Protocol
  imports Prelude
begin

text \<open>
  The command-marker protocol (\<open>include/whyrun/session.hpp\<close> and \<open>CommandProtocol\<close> in
  \<open>src/bash_session.cpp\<close>): a byte stream of NUL-terminated fields, four to a record, decoded
  incrementally into markers. The state is the field being read and the fields already
  complete; every exception of the code is an \<open>Inl\<close>.
\<close>

named_theorems protocol_simps \<open>evaluation of the decoder on encoded records\<close>

section \<open>Markers\<close>

datatype command_marker_type = Arm | Start | End

record command_marker =
  cm_type :: command_marker_type
  cm_id :: u64
  cm_text :: string
  cm_cwd :: string
  cm_exit_code :: int

definition kProtocolFields :: nat where
  "kProtocolFields = 4"

definition kMaximumFieldBytes :: nat where
  "kMaximumFieldBytes = 64 * 1024"

definition nul :: char where
  "nul = CHR 0x00"

definition file_separator :: char where
  "file_separator = CHR 0x1C"

lemma marker_chars [simp]: "nul \<noteq> file_separator" "nul \<noteq> newline" "file_separator \<noteq> newline"
  "file_separator \<noteq> nul" "newline \<noteq> nul" "newline \<noteq> file_separator"
  by (simp_all add: nul_def file_separator_def newline_def)

section \<open>Decoding one record\<close>

definition parse_id :: "string \<Rightarrow> u64 res" where
  "parse_id text =
     (let (ec, val, rest) = from_chars_unsigned (2 ^ 64 - 1) text in
      if val = 0 \<or> ec \<noteq> Errc_ok \<or> rest \<noteq> [] then
        Inl (Runtime_error ''invalid command marker id'')
      else Inr (word_of_nat val))"

text \<open>Naturals are unary in evaluations, so the large bounds are compared as integers there.\<close>

lemma parse_id_code [code]:
  "parse_id text =
     (let ds = takeWhile is_digit text; val = digits_val ds in
      if ds = [] \<or> dropWhile is_digit text \<noteq> [] \<or> val = 0 \<or> 2 ^ 64 \<le> int val
      then Inl (Runtime_error ''invalid command marker id'')
      else Inr (word_of_nat val))"
proof -
  have "digits_val ds \<le> 2 ^ 64 - 1 \<longleftrightarrow> \<not> 2 ^ 64 \<le> int (digits_val ds)" for ds
    by auto
  then show ?thesis
    by (auto simp: parse_id_def from_chars_unsigned_def Let_def)
qed

definition parse_status :: "string \<Rightarrow> int res" where
  "parse_status text =
     (let (ec, val, rest) = from_chars_signed 32 text in
      if ec \<noteq> Errc_ok \<or> rest \<noteq> [] then
        Inl (Runtime_error ''invalid command marker exit status'')
      else Inr val)"

text \<open>Everything up to the first separator is erased, and one newline at the end.\<close>

definition strip_history :: "string \<Rightarrow> string res" where
  "strip_history text =
     (if file_separator \<notin> set text then
        Inl (Runtime_error ''command marker is missing its history prefix'')
      else
        let t = tl (dropWhile (\<lambda>c. c \<noteq> file_separator) text) in
        Inr (if t \<noteq> [] \<and> last t = newline then butlast t else t))"

definition decode_record :: "string list \<Rightarrow> command_marker res" where
  "decode_record fs =
     bind_res (parse_id (fs ! 1)) (\<lambda>id.
       if fs ! 0 = ''A'' then
         (if fs ! 3 \<noteq> [] then
            Inl (Runtime_error ''command arm marker has unexpected data'')
          else Inr \<lparr>cm_type = Arm, cm_id = id, cm_text = [], cm_cwd = fs ! 2,
                    cm_exit_code = 0\<rparr>)
       else if fs ! 0 = ''S'' then
         bind_res (strip_history (fs ! 3)) (\<lambda>text.
           Inr \<lparr>cm_type = Start, cm_id = id, cm_text = text, cm_cwd = fs ! 2,
                cm_exit_code = 0\<rparr>)
       else if fs ! 0 = ''E'' then
         bind_res (parse_status (fs ! 2)) (\<lambda>status.
           Inr \<lparr>cm_type = End, cm_id = id, cm_text = [], cm_cwd = fs ! 3,
                cm_exit_code = status\<rparr>)
       else Inl (Runtime_error ''unknown command marker type''))"

section \<open>The incremental decoder\<close>

record command_protocol =
  pending_field :: string
  cp_fields :: "string list"

definition empty_protocol :: command_protocol where
  "empty_protocol = \<lparr>pending_field = [], cp_fields = []\<rparr>"

text \<open>The size check of a field.\<close>

definition field_full :: "string \<Rightarrow> bool" where
  "field_full field \<longleftrightarrow> length field = kMaximumFieldBytes"

declare field_full_def [simp]

lemma field_full_code [code]: "field_full field \<longleftrightarrow> int (length field) = 65536"
  by (simp add: kMaximumFieldBytes_def)

definition consume_byte ::
  "char \<Rightarrow> command_protocol \<times> command_marker list \<Rightarrow>
   (command_protocol \<times> command_marker list) res" where
  "consume_byte byte = (\<lambda>(p, markers).
     if byte \<noteq> nul then
       (if field_full (pending_field p) then
          Inl (Runtime_error ''command marker field exceeds 64 KiB'')
        else Inr (p\<lparr>pending_field := pending_field p @ [byte]\<rparr>, markers))
     else
       let fs = cp_fields p @ [pending_field p] in
       if length fs = kProtocolFields then
         bind_res (decode_record fs) (\<lambda>m. Inr (empty_protocol, markers @ [m]))
       else Inr (\<lparr>pending_field = [], cp_fields = fs\<rparr>, markers))"

definition consume ::
  "command_protocol \<Rightarrow> string \<Rightarrow> (command_protocol \<times> command_marker list) res" where
  "consume p bytes = fold_res consume_byte bytes (p, [])"

definition finish_protocol :: "command_protocol \<Rightarrow> unit res" where
  "finish_protocol p =
     (if pending_field p \<noteq> [] \<or> cp_fields p \<noteq> [] then
        Inl (Runtime_error ''incomplete command marker'')
      else Inr ())"

section \<open>Boundedness\<close>

definition protocol_ok :: "command_protocol \<Rightarrow> bool" where
  "protocol_ok p \<longleftrightarrow>
     length (pending_field p) \<le> kMaximumFieldBytes \<and> nul \<notin> set (pending_field p) \<and>
     length (cp_fields p) < kProtocolFields \<and>
     (\<forall>f \<in> set (cp_fields p). length f \<le> kMaximumFieldBytes \<and> nul \<notin> set f)"

lemma protocol_ok_empty [simp]: "protocol_ok empty_protocol"
  by (simp add: protocol_ok_def empty_protocol_def kProtocolFields_def)

lemma consume_byte_ok:
  assumes "consume_byte b (p, ms) = Inr (p', ms')" "protocol_ok p"
  shows "protocol_ok p'"
  using assms
  by (auto simp: consume_byte_def protocol_ok_def empty_protocol_def kProtocolFields_def Let_def
      res_simps split: if_splits)

lemma consume_ok:
  assumes "consume p bs = Inr (p', ms)" "protocol_ok p"
  shows "protocol_ok p'"
proof -
  have "(\<lambda>(q, _). protocol_ok q) (p', ms)"
    using assms(1) unfolding consume_def
    by (rule fold_res_invariant) (auto simp: assms(2) dest: consume_byte_ok)
  then show ?thesis by simp
qed

section \<open>Markers come out in order, however the bytes are cut\<close>

lemma consume_byte_prefix:
  "consume_byte b (p, ms @ ns) =
     bind_res (consume_byte b (p, ns)) (\<lambda>(q, ks). Inr (q, ms @ ks))"
  by (auto simp: consume_byte_def Let_def bind_res_def split: sum.split)

lemma fold_consume_prefix:
  "fold_res consume_byte bs (p, ms @ ns) =
     bind_res (fold_res consume_byte bs (p, ns)) (\<lambda>(q, ks). Inr (q, ms @ ks))"
proof (induction bs arbitrary: p ns)
  case Nil
  then show ?case by simp
next
  case (Cons b bs)
  show ?case
  proof (cases "consume_byte b (p, ns)")
    case (Inl e)
    then show ?thesis by (simp add: consume_byte_prefix)
  next
    case (Inr x)
    then show ?thesis
      using Cons by (cases x) (simp add: consume_byte_prefix)
  qed
qed

lemma consume_append_eq:
  "consume p (xs @ ys) =
     bind_res (consume p xs) (\<lambda>(q, ms).
       bind_res (consume q ys) (\<lambda>(r, ns). Inr (r, ms @ ns)))"
proof (cases "consume p xs")
  case (Inl e)
  then show ?thesis by (simp add: consume_def fold_res_append)
next
  case (Inr x)
  obtain q ms where x: "x = (q, ms)" by (cases x)
  have "fold_res consume_byte ys (q, ms) =
      bind_res (fold_res consume_byte ys (q, [])) (\<lambda>(r, ns). Inr (r, ms @ ns))"
    using fold_consume_prefix[of ys q ms "[]"] by simp
  with Inr x show ?thesis
    by (simp add: consume_def fold_res_append)
qed

section \<open>Encoded records\<close>

text \<open>What a well-behaved writer sends: each field and its NUL.\<close>

definition encode_fields :: "string list \<Rightarrow> string" where
  "encode_fields fs = concat (map (\<lambda>f. f @ [nul]) fs)"

definition field_ok :: "string \<Rightarrow> bool" where
  "field_ok f \<longleftrightarrow> length f \<le> kMaximumFieldBytes \<and> nul \<notin> set f"

lemma encode_fields_simps [simp]:
  "encode_fields [] = []"
  "encode_fields (f # fs) = f @ nul # encode_fields fs"
  by (simp_all add: encode_fields_def)

lemma consume_pending:
  assumes "nul \<notin> set f" "length (pending_field p) + length f \<le> kMaximumFieldBytes"
  shows "consume p f = Inr (p\<lparr>pending_field := pending_field p @ f\<rparr>, [])"
  using assms
proof (induction f arbitrary: p)
  case Nil
  then show ?case by (simp add: consume_def)
next
  case (Cons c f)
  let ?q = "p\<lparr>pending_field := pending_field p @ [c]\<rparr>"
  have "consume_byte c (p, []) = Inr (?q, [])"
    using Cons.prems by (auto simp: consume_byte_def)
  moreover have "consume ?q f = Inr (p\<lparr>pending_field := pending_field p @ c # f\<rparr>, [])"
    using Cons.prems Cons.IH[of ?q] by simp
  ultimately show ?case by (simp add: consume_def)
qed

lemma consume_nul:
  "consume p [nul] =
     (let fs = cp_fields p @ [pending_field p] in
      if length fs = kProtocolFields then
        bind_res (decode_record fs) (\<lambda>m. Inr (empty_protocol, [m]))
      else Inr (\<lparr>pending_field = [], cp_fields = fs\<rparr>, []))"
  by (simp add: consume_def consume_byte_def Let_def bind_res_def split: sum.split)

lemma consume_field:
  assumes "field_ok f"
  shows "consume \<lparr>pending_field = [], cp_fields = gs\<rparr> (f @ [nul]) =
     (if Suc (length gs) = kProtocolFields then
        bind_res (decode_record (gs @ [f])) (\<lambda>m. Inr (empty_protocol, [m]))
      else Inr (\<lparr>pending_field = [], cp_fields = gs @ [f]\<rparr>, []))"
proof -
  have "consume \<lparr>pending_field = [], cp_fields = gs\<rparr> f =
      Inr (\<lparr>pending_field = f, cp_fields = gs\<rparr>, [])"
    using assms consume_pending[of f "\<lparr>pending_field = [], cp_fields = gs\<rparr>"]
    by (simp add: field_ok_def)
  then show ?thesis
    by (simp add: consume_append_eq consume_nul Let_def bind_res_def split: sum.split)
qed

lemma consume_record:
  assumes "field_ok f0" "field_ok f1" "field_ok f2" "field_ok f3"
  shows "consume empty_protocol (encode_fields [f0, f1, f2, f3]) =
     bind_res (decode_record [f0, f1, f2, f3]) (\<lambda>m. Inr (empty_protocol, [m]))"
proof -
  have bytes: "encode_fields [f0, f1, f2, f3] =
      (f0 @ [nul]) @ (f1 @ [nul]) @ (f2 @ [nul]) @ (f3 @ [nul])"
    by simp
  show ?thesis
    unfolding bytes empty_protocol_def
    by (simp only: consume_append_eq[of _ "_ @ [nul]" "_ @ _"] consume_field assms)
      (simp add: kProtocolFields_def consume_field assms bind_res_def empty_protocol_def
        split: sum.split)
qed

lemma parse_id_show [protocol_simps]:
  assumes "cid \<noteq> 0"
  shows "parse_id (show_u64 cid) = Inr cid"
proof -
  have "unat cid \<le> 2 ^ 64 - 1"
    using unat_u64_bound[of cid] by simp
  with assms show ?thesis
    by (simp add: parse_id_def show_u64_def from_chars_unsigned_show unat_eq_zero)
qed

lemma parse_status_show [protocol_simps]:
  assumes "- (2 ^ 31) \<le> i" "i < 2 ^ 31"
  shows "parse_status (show_int i) = Inr i"
  using assms by (simp add: parse_status_def from_chars_signed_show)

lemma strip_history_prefix [protocol_simps]:
  assumes "file_separator \<notin> set pre"
  shows "strip_history (pre @ file_separator # text @ [newline]) = Inr text"
proof -
  have "dropWhile (\<lambda>c. c \<noteq> file_separator) (pre @ file_separator # text @ [newline]) =
      file_separator # text @ [newline]"
    using assms by (subst dropWhile_append2) auto
  then show ?thesis by (simp add: strip_history_def)
qed

lemma strip_history_no_prefix [protocol_simps]:
  "file_separator \<notin> set text \<Longrightarrow>
     strip_history text =
       Inl (Runtime_error ''command marker is missing its history prefix'')"
  by (simp add: strip_history_def)

lemma parse_id_nonzero: "parse_id text = Inr cid \<Longrightarrow> cid \<noteq> 0"
proof -
  assume a: "parse_id text = Inr cid"
  obtain ec v r where fc: "from_chars_unsigned (2 ^ 64 - 1) text = (ec, v, r)"
    by (metis prod_cases3)
  then have "v \<le> 2 ^ 64 - 1"
    by (auto simp: from_chars_unsigned_def Let_def split: if_splits)
  with a fc show "cid \<noteq> 0"
    by (auto simp: parse_id_def word_of_nat_eq_0_iff split: if_splits
        dest!: dvd_imp_le[of "2 ^ 64" v, simplified])
qed

lemma decode_record_id_nonzero: "decode_record fs = Inr m \<Longrightarrow> cm_id m \<noteq> 0"
  by (auto simp: decode_record_def res_simps split: if_splits dest: parse_id_nonzero)

section \<open>Properties\<close>

text \<open>
  C26. The markers a stream of bytes decodes to, the state that is left and the exception that
  stops it do not depend on how the stream is cut into reads: decoding the chunks one by one,
  collecting the markers, is decoding their concatenation.
\<close>

definition consume_chunks ::
  "command_protocol \<Rightarrow> string list \<Rightarrow> (command_protocol \<times> command_marker list) res" where
  "consume_chunks p chunks =
     fold_res (\<lambda>bytes (q, ms). bind_res (consume q bytes) (\<lambda>(r, ns). Inr (r, ms @ ns)))
       chunks (p, [])"

lemma consume_chunks_from:
  "fold_res (\<lambda>bytes (q, ms). bind_res (consume q bytes) (\<lambda>(r, ns). Inr (r, ms @ ns)))
       chunks (p, ks) =
     bind_res (consume p (concat chunks)) (\<lambda>(r, ns). Inr (r, ks @ ns))"
proof (induction chunks arbitrary: p ks)
  case Nil
  then show ?case by (simp add: consume_def)
next
  case (Cons c cs)
  then show ?case
    by (cases "consume p c")
      (auto simp: consume_append_eq bind_res_assoc bind_res_def split: sum.splits prod.splits)
qed

theorem decoder_chunks: "consume_chunks p chunks = consume p (concat chunks)"
  unfolding consume_chunks_def consume_chunks_from
  by (cases "consume p (concat chunks)") auto

text \<open>
  C37. Whatever bytes arrive, the decoder never holds more than three complete fields and a
  pending one, none longer than 64 KiB and none with a NUL byte, and every marker it delivers
  has a non-zero id.
\<close>

lemma consume_ids:
  assumes "consume p bs = Inr (q, ms)"
  shows "\<forall>m \<in> set ms. cm_id m \<noteq> 0"
proof -
  have "(\<lambda>(_, ms). \<forall>m \<in> set ms. cm_id m \<noteq> 0) (q, ms)"
    using assms unfolding consume_def
  proof (rule fold_res_invariant)
    show "(\<lambda>(_, ms). \<forall>m \<in> set ms. cm_id m \<noteq> 0) (p, [])" by simp
  next
    fix b u v
    assume "consume_byte b u = Inr v" "(\<lambda>(_, ms). \<forall>m \<in> set ms. cm_id m \<noteq> 0) u"
    then show "(\<lambda>(_, ms). \<forall>m \<in> set ms. cm_id m \<noteq> 0) v"
      by (cases u)
        (auto simp: consume_byte_def Let_def res_simps split: if_splits
          dest: decode_record_id_nonzero)
  qed
  then show ?thesis by simp
qed

theorem decoder_bounded:
  assumes "consume empty_protocol bs = Inr (p, ms)"
  shows "length (pending_field p) \<le> kMaximumFieldBytes \<and> length (cp_fields p) < kProtocolFields \<and>
    (\<forall>f \<in> set (pending_field p # cp_fields p). length f \<le> kMaximumFieldBytes \<and> nul \<notin> set f) \<and>
    (\<forall>m \<in> set ms. cm_id m \<noteq> 0)"
proof -
  have "protocol_ok p"
    using assms by (rule consume_ok) (rule protocol_ok_empty)
  then show ?thesis
    using consume_ids[OF assms] unfolding protocol_ok_def by auto
qed

theorem decoder_bounded_witness:
  "\<exists>p. consume empty_protocol ''A'' = Inr (p, []) \<and> length (cp_fields p) < kProtocolFields"
proof -
  have "consume empty_protocol ''A'' = Inr (\<lparr>pending_field = ''A'', cp_fields = []\<rparr>, [])"
    by (simp add: consume_def consume_byte_def empty_protocol_def kMaximumFieldBytes_def nul_def)
  with decoder_bounded[OF this] show ?thesis
    by (intro exI[of _ "\<lparr>pending_field = ''A'', cp_fields = []\<rparr>"]) simp
qed

end
