(* ===== verification/Exec_State.thy ===== *)
theory Exec_State
  imports Sockets Path_Model Marker_Protocol
begin

unbundle bit_operations_syntax

text \<open>
  \<open>ExecutionState\<close> (\<open>include/whyrun/execution_state.hpp\<close>, \<open>src/execution_state.cpp\<close>): the
  process table, the thread table and the active command, and one definition per callback.

  A callback returns the new state and the events it passes to the sink, in order. The sink
  is write-only for this class and every exception of a callback is thrown before its first
  event, so the collector may feed the returned list to the sink afterwards. What the
  tracee's memory and \<open>/proc\<close> answer during a callback is its \<^typ>\<open>host\<close> argument.
\<close>

named_theorems exec_simps \<open>projections of the small state updates\<close>

section \<open>State\<close>

datatype resource_type = File | Socket | Pipe | Unknown

record resource_t =
  res_type :: resource_type
  res_name :: string
  is_directory :: bool

record process_state =
  p_pid :: pid_t
  parent_pid :: pid_t
  executable :: string
  cwd :: string
  p_command_id :: "u64 option"
  fd_table :: "int \<rightharpoonup> resource_t"

record active_command_t =
  ac_id :: u64
  first_process_ns :: "u64 option"
  started :: bool

record execution_state =
  processes :: "pid_t \<rightharpoonup> process_state"
  thread_to_process :: "pid_t \<rightharpoonup> pid_t"
  active_command :: "active_command_t option"
  root_pid :: pid_t

record syscall_args =
  a0 :: u64
  a1 :: u64
  a2 :: u64
  a3 :: u64
  a4 :: u64
  a5 :: u64

record raw_syscall =
  sc_pid :: pid_t
  sc_tid :: pid_t
  sc_number :: int
  sc_args :: syscall_args
  sc_result :: int
  sc_timestamp_ns :: u64

definition empty_process :: process_state where
  "empty_process = \<lparr>p_pid = 0, parent_pid = 0, executable = [], cwd = [],
     p_command_id = None, fd_table = Map.empty\<rparr>"

definition empty_execution :: execution_state where
  "empty_execution = \<lparr>processes = Map.empty, thread_to_process = Map.empty,
     active_command = None, root_pid = 0\<rparr>"

section \<open>Constants of x86\_64 Linux\<close>

definition nr_read :: int where "nr_read = 0"
definition nr_write :: int where "nr_write = 1"
definition nr_open :: int where "nr_open = 2"
definition nr_close :: int where "nr_close = 3"
definition nr_dup :: int where "nr_dup = 32"
definition nr_dup2 :: int where "nr_dup2 = 33"
definition nr_socket :: int where "nr_socket = 41"
definition nr_connect :: int where "nr_connect = 42"
definition nr_fcntl :: int where "nr_fcntl = 72"
definition nr_chdir :: int where "nr_chdir = 80"
definition nr_fchdir :: int where "nr_fchdir = 81"
definition nr_openat :: int where "nr_openat = 257"
definition nr_dup3 :: int where "nr_dup3 = 292"
definition nr_openat2 :: int where "nr_openat2 = 437"

lemmas nr_defs =
  nr_read_def nr_write_def nr_open_def nr_close_def nr_dup_def nr_dup2_def nr_socket_def
  nr_connect_def nr_fcntl_def nr_chdir_def nr_fchdir_def nr_openat_def nr_dup3_def
  nr_openat2_def

definition AT_FDCWD :: int where "AT_FDCWD = - 100"
definition O_DIRECTORY :: int where "O_DIRECTORY = 0x10000"
definition CLONE_THREAD :: u64 where "CLONE_THREAD = 0x10000"
definition sizeof_open_how :: nat where "sizeof_open_how = 24"

definition PTRACE_EVENT_FORK :: nat where "PTRACE_EVENT_FORK = 1"
definition PTRACE_EVENT_VFORK :: nat where "PTRACE_EVENT_VFORK = 2"
definition PTRACE_EVENT_CLONE :: nat where "PTRACE_EVENT_CLONE = 3"
definition PTRACE_EVENT_EXEC :: nat where "PTRACE_EVENT_EXEC = 4"

lemmas ptrace_event_defs =
  PTRACE_EVENT_FORK_def PTRACE_EVENT_VFORK_def PTRACE_EVENT_CLONE_def PTRACE_EVENT_EXEC_def

section \<open>Helpers\<close>

definition kMaxErrno :: int where
  "kMaxErrno = 4095"

definition syscall_errno :: "int \<Rightarrow> int" where
  "syscall_errno r = (if r < 0 \<and> - kMaxErrno \<le> r then - r else 0)"

definition child_kind :: "nat \<Rightarrow> string" where
  "child_kind ptrace_event =
     (if ptrace_event = PTRACE_EVENT_FORK then ''fork''
      else if ptrace_event = PTRACE_EVENT_VFORK then ''vfork''
      else if ptrace_event = PTRACE_EVENT_CLONE then ''clone''
      else ''unknown'')"

text \<open>\<open>static_cast<int>\<close> of a syscall argument.\<close>

definition arg_int :: "u64 \<Rightarrow> int" where
  "arg_int w = to_int32 (uint w)"

fun le_nat :: "string \<Rightarrow> nat" where
  "le_nat [] = 0"
| "le_nat (c # cs) = of_char c + 256 * le_nat cs"

definition mk_event ::
  "u64 \<Rightarrow> pid_t \<Rightarrow> pid_t \<Rightarrow> event_type \<Rightarrow> string \<Rightarrow> int \<Rightarrow> int \<Rightarrow> event" where
  "mk_event ts pid tid t r res err =
     \<lparr>timestamp_ns = ts, ev_pid = pid, ev_tid = tid, ev_type = t, resource = r,
      ev_result = res, errno_value = err, metadata = [], ev_command_id = None\<rparr>"

definition process_for_thread :: "execution_state \<Rightarrow> pid_t \<Rightarrow> pid_t" where
  "process_for_thread st tid =
     (case thread_to_process st tid of None \<Rightarrow> tid | Some p \<Rightarrow> p)"

definition find_process_for_thread :: "execution_state \<Rightarrow> pid_t \<Rightarrow> process_state option" where
  "find_process_for_thread st tid = processes st (process_for_thread st tid)"

text \<open>Assignment through the pointer that \<open>find_process_for_thread\<close> returned.\<close>

definition put_process :: "execution_state \<Rightarrow> pid_t \<Rightarrow> process_state \<Rightarrow> execution_state" where
  "put_process st tid p = st\<lparr>processes := (processes st)(process_for_thread st tid \<mapsto> p)\<rparr>"

definition insert_process :: "execution_state \<Rightarrow> pid_t \<Rightarrow> process_state \<Rightarrow> execution_state" where
  "insert_process st pid p =
     st\<lparr>processes := (processes st)(pid \<mapsto> p),
        thread_to_process := (thread_to_process st)(pid \<mapsto> pid)\<rparr>"

definition forget_thread :: "execution_state \<Rightarrow> pid_t \<Rightarrow> execution_state" where
  "forget_thread st tid = st\<lparr>thread_to_process := (thread_to_process st)(tid := None)\<rparr>"

definition command_unstarted :: "execution_state \<Rightarrow> bool" where
  "command_unstarted st =
     (case active_command st of None \<Rightarrow> False | Some ac \<Rightarrow> \<not> started ac)"

definition command_started :: "execution_state \<Rightarrow> bool" where
  "command_started st = (case active_command st of None \<Rightarrow> False | Some ac \<Rightarrow> started ac)"

text \<open>
  \<open>ExecutionState::emit\<close>: an event without a command inherits its process's command, except
  those of the root shell while its command is armed but not started.
\<close>

definition emit_event :: "execution_state \<Rightarrow> event \<Rightarrow> event" where
  "emit_event st e =
     (if ev_command_id e = None then
        (case find_process_for_thread st (ev_tid e) of
           None \<Rightarrow> e
         | Some p \<Rightarrow>
             let root_is_armed = (p_pid p = root_pid st \<and> command_unstarted st) in
             if \<not> root_is_armed then e\<lparr>ev_command_id := p_command_id p\<rparr> else e)
      else e)"

section \<open>Process callbacks\<close>

definition add_initial_process ::
  "execution_state \<Rightarrow> pid_t \<Rightarrow> string \<Rightarrow> string option \<Rightarrow> u64 \<Rightarrow>
   execution_state \<times> event list" where
  "add_initial_process st pid dir root_command ts =
     (let p = empty_process\<lparr>p_pid := pid, cwd := dir,
                p_command_id := (if root_command = None then None else Some 1)\<rparr>;
          st1 = (if root_command = None then st
                 else st\<lparr>active_command :=
                        Some \<lparr>ac_id = 1, first_process_ns = Some ts, started = True\<rparr>\<rparr>);
          st2 = (insert_process st1 pid p)\<lparr>root_pid := pid\<rparr> in
      case root_command of
        None \<Rightarrow> (st2, [])
      | Some text \<Rightarrow>
          let e = (set_metadata ''sequence'' ''1'' (set_metadata ''cwd'' dir
                    (mk_event ts pid pid CommandStart text 0 0)))\<lparr>ev_command_id := Some 1\<rparr> in
          (st2, [emit_event st2 e]))"

definition on_command_marker ::
  "execution_state \<Rightarrow> pid_t \<Rightarrow> command_marker \<Rightarrow> u64 \<Rightarrow>
   (execution_state \<times> event list) res" where
  "on_command_marker st tid m ts =
     (case find_process_for_thread st tid of
        None \<Rightarrow> Inr (st, [])
      | Some p \<Rightarrow>
          if p_pid p \<noteq> root_pid st then Inr (st, [])
          else case cm_type m of
            Arm \<Rightarrow>
              (if active_command st \<noteq> None \<or> p_command_id p \<noteq> None then
                 Inl (Runtime_error ''command armed before the previous command ended'')
               else
                 Inr ((put_process st tid (p\<lparr>p_command_id := Some (cm_id m)\<rparr>))
                        \<lparr>active_command := Some \<lparr>ac_id = cm_id m, first_process_ns = None,
                                                started = False\<rparr>\<rparr>, []))
          | Start \<Rightarrow>
              (case active_command st of
                 None \<Rightarrow>
                   Inl (Runtime_error ''command start marker does not match the armed command'')
               | Some ac \<Rightarrow>
                   if ac_id ac \<noteq> cm_id m \<or> started ac \<or> p_command_id p \<noteq> Some (cm_id m) then
                     Inl (Runtime_error ''command start marker does not match the armed command'')
                   else
                     let st' = st\<lparr>active_command := Some (ac\<lparr>started := True\<rparr>)\<rparr>;
                         t = (case first_process_ns ac of None \<Rightarrow> ts | Some t \<Rightarrow> t);
                         e = (set_metadata ''sequence'' (show_u64 (cm_id m))
                               (set_metadata ''cwd'' (cm_cwd m)
                                 (mk_event t (p_pid p) tid CommandStart (cm_text m) 0 0)))
                               \<lparr>ev_command_id := Some (cm_id m)\<rparr> in
                     Inr (st', [emit_event st' e]))
          | End \<Rightarrow>
              (case active_command st of
                 None \<Rightarrow>
                   Inl (Runtime_error ''command end marker does not match the active command'')
               | Some ac \<Rightarrow>
                   if ac_id ac \<noteq> cm_id m \<or> \<not> started ac \<or> p_command_id p \<noteq> Some (cm_id m) then
                     Inl (Runtime_error ''command end marker does not match the active command'')
                   else
                     let e = (set_metadata ''cwd'' (cm_cwd m)
                               (mk_event ts (p_pid p) tid CommandEnd [] (cm_exit_code m) 0))
                               \<lparr>ev_command_id := Some (cm_id m)\<rparr> in
                     Inr ((put_process st tid (p\<lparr>p_command_id := None\<rparr>))
                            \<lparr>active_command := None\<rparr>, [emit_event st e])))"

definition on_process_exec ::
  "host \<Rightarrow> execution_state \<Rightarrow> pid_t \<Rightarrow> u64 \<Rightarrow> execution_state \<times> event list" where
  "on_process_exec h st tid ts =
     (let discovered = empty_process\<lparr>p_pid := tid, cwd := read_proc_link h tid ''cwd''\<rparr>;
          st1 = (if find_process_for_thread st tid = None then insert_process st tid discovered
                 else st);
          p = (case find_process_for_thread st1 tid of None \<Rightarrow> discovered | Some p \<Rightarrow> p);
          link = read_proc_link h tid ''exe'';
          exe = (if link = [] then ''<unknown>'' else link);
          p' = p\<lparr>executable := exe\<rparr>;
          st2 = put_process st1 tid p';
          e = set_metadata ''ppid'' (show_int (parent_pid p'))
                (mk_event ts (p_pid p') tid ProcessExec exe 0 0) in
      (st2, [emit_event st2 e]))"

definition on_process_created ::
  "execution_state \<Rightarrow> pid_t \<Rightarrow> pid_t \<Rightarrow> nat \<Rightarrow> u64 \<Rightarrow> u64 \<Rightarrow>
   execution_state \<times> event list" where
  "on_process_created st parent_tid child_tid ptrace_event clone_flags ts =
     (case find_process_for_thread st parent_tid of
        None \<Rightarrow> (st, [])
      | Some parent \<Rightarrow>
          let is_thread = (ptrace_event = PTRACE_EVENT_CLONE \<and>
                           clone_flags AND CLONE_THREAD \<noteq> 0) in
          if is_thread then
            (st\<lparr>thread_to_process := (thread_to_process st)(child_tid \<mapsto> p_pid parent)\<rparr>, [])
          else
            let child = parent\<lparr>p_pid := child_tid, parent_pid := p_pid parent\<rparr>;
                st1 = insert_process st child_tid child;
                st2 = (case active_command st1 of
                         Some ac \<Rightarrow>
                           if p_pid parent = root_pid st1 \<and> \<not> started ac \<and>
                              first_process_ns ac = None
                           then st1\<lparr>active_command := Some (ac\<lparr>first_process_ns := Some ts\<rparr>)\<rparr>
                           else st1
                       | None \<Rightarrow> st1);
                e = (set_metadata ''executable'' (executable parent)
                      (set_metadata ''kind'' (child_kind ptrace_event)
                        (set_metadata ''child_pid'' (show_int child_tid)
                          (mk_event ts (p_pid parent) parent_tid ProcessFork
                             (show_int child_tid) child_tid 0))))
                      \<lparr>ev_command_id := p_command_id parent\<rparr> in
            (st2, [emit_event st2 e]))"

definition exit_result :: "int \<Rightarrow> int \<Rightarrow> int" where
  "exit_result exit_code term_signal =
     (if term_signal = 0 then exit_code else 128 + term_signal)"

definition on_process_exit ::
  "execution_state \<Rightarrow> pid_t \<Rightarrow> int \<Rightarrow> int \<Rightarrow> u64 \<Rightarrow> execution_state \<times> event list" where
  "on_process_exit st tid exit_code term_signal ts =
     (let process_id = process_for_thread st tid in
      if tid \<noteq> process_id then (forget_thread st tid, [])
      else case find_process_for_thread st tid of
        None \<Rightarrow> (st, [])
      | Some p0 \<Rightarrow>
          let root_has_unstarted_command = (p_pid p0 = root_pid st \<and> command_unstarted st);
              p = (if root_has_unstarted_command then p0\<lparr>p_command_id := None\<rparr> else p0);
              st1 = put_process st tid p;
              result = exit_result exit_code term_signal;
              exit_event = set_metadata ''term_signal'' (show_int term_signal)
                       (set_metadata ''exit_code'' (show_int exit_code)
                         (mk_event ts (p_pid p) tid ProcessExit (executable p) result 0));
              ends = (p_pid p = root_pid st1 \<and> command_started st1 \<and> p_command_id p \<noteq> None);
              command_end = (set_metadata ''cwd'' (cwd p)
                         (mk_event ts (p_pid p) tid CommandEnd [] result 0))
                         \<lparr>ev_command_id := p_command_id p\<rparr>;
              st2 = (if ends then put_process st1 tid (p\<lparr>p_command_id := None\<rparr>) else st1);
              st3 = (if p_pid p = root_pid st2 then st2\<lparr>active_command := None\<rparr> else st2) in
          (forget_thread st3 tid,
           emit_event st1 exit_event # (if ends then [emit_event st1 command_end] else [])))"

section \<open>Path resolution\<close>

definition resolve_path :: "process_state \<Rightarrow> int \<Rightarrow> string \<Rightarrow> string" where
  "resolve_path p dirfd path =
     (if path = [] then path
      else if is_absolute path then normalize_path path
      else if dirfd = AT_FDCWD then normalize_path (path_append (cwd p) path)
      else
        let unresolved = ''<dirfd:'' @ show_int dirfd @ ''>/'' @ path in
        case fd_table p dirfd of
          None \<Rightarrow> unresolved
        | Some r \<Rightarrow>
            if res_type r = File \<and> is_directory r
            then normalize_path (path_append (res_name r) path)
            else unresolved)"

section \<open>Syscall exits\<close>

definition make_event ::
  "process_state \<Rightarrow> raw_syscall \<Rightarrow> event_type \<Rightarrow> string \<Rightarrow> int \<Rightarrow> event" where
  "make_event p sc t r result =
     mk_event (sc_timestamp_ns sc) (p_pid p) (sc_tid sc) t r result (syscall_errno result)"

definition set_fd :: "process_state \<Rightarrow> int \<Rightarrow> resource_t \<Rightarrow> process_state" where
  "set_fd p fd r = p\<lparr>fd_table := (fd_table p)(fd \<mapsto> r)\<rparr>"

definition erase_fd :: "process_state \<Rightarrow> int \<Rightarrow> process_state" where
  "erase_fd p fd = p\<lparr>fd_table := (fd_table p)(fd := None)\<rparr>"

definition raw_or_unreadable :: "host \<Rightarrow> pid_t \<Rightarrow> u64 \<Rightarrow> string" where
  "raw_or_unreadable h tid address =
     (let raw_path = read_string h tid address in
      if raw_path = [] then unreadable_address address else raw_path)"

text \<open>Each branch maps the process to the updated process and the events to emit.\<close>

definition sys_open ::
  "host \<Rightarrow> process_state \<Rightarrow> raw_syscall \<Rightarrow> process_state \<times> event list" where
  "sys_open h p sc =
     (let path = resolve_path p AT_FDCWD (raw_or_unreadable h (sc_tid sc) (a0 (sc_args sc)));
          flags = arg_int (a1 (sc_args sc));
          e = set_metadata ''flags'' (show_int flags)
                (set_metadata ''operation'' ''open''
                  (make_event p sc FileOpen path (sc_result sc)));
          r = \<lparr>res_type = File, res_name = path, is_directory = flags AND O_DIRECTORY \<noteq> 0\<rparr> in
      (if 0 \<le> sc_result sc then set_fd p (to_int32 (sc_result sc)) r else p, [e]))"

definition openat_flags :: "host \<Rightarrow> raw_syscall \<Rightarrow> u64" where
  "openat_flags h sc =
     (if sc_number sc = nr_openat2 then
        (case read_bytes_at h (sc_tid sc) (a2 (sc_args sc)) sizeof_open_how of
           Some how \<Rightarrow> word_of_nat (le_nat (take 8 how))
         | None \<Rightarrow> 0)
      else a2 (sc_args sc))"

definition sys_openat ::
  "host \<Rightarrow> process_state \<Rightarrow> raw_syscall \<Rightarrow> process_state \<times> event list" where
  "sys_openat h p sc =
     (let dirfd = arg_int (a0 (sc_args sc));
          path = resolve_path p dirfd (raw_or_unreadable h (sc_tid sc) (a1 (sc_args sc)));
          flags = openat_flags h sc;
          e = set_metadata ''dirfd'' (show_int dirfd)
                (set_metadata ''flags'' (show_u64 flags)
                  (set_metadata ''operation''
                     (if sc_number sc = nr_openat then ''openat'' else ''openat2'')
                    (make_event p sc FileOpen path (sc_result sc))));
          r = \<lparr>res_type = File, res_name = path,
               is_directory = flags AND word_of_int O_DIRECTORY \<noteq> 0\<rparr> in
      (if 0 \<le> sc_result sc then set_fd p (to_int32 (sc_result sc)) r else p, [e]))"

definition sys_read_write ::
  "process_state \<Rightarrow> raw_syscall \<Rightarrow> process_state \<times> event list" where
  "sys_read_write p sc =
     (let fd = arg_int (a0 (sc_args sc)) in
      case fd_table p fd of
        None \<Rightarrow> (p, [])
      | Some r \<Rightarrow>
          if res_type r \<noteq> File then (p, [])
          else
            let t = (if sc_number sc = nr_read then FileRead else FileWrite) in
            (p, [set_metadata ''requested_bytes'' (show_u64 (a2 (sc_args sc)))
                  (set_metadata ''fd'' (show_int fd)
                    (make_event p sc t (res_name r) (sc_result sc)))]))"

definition sys_close :: "process_state \<Rightarrow> raw_syscall \<Rightarrow> process_state \<times> event list" where
  "sys_close p sc =
     (if sc_result sc = 0 then erase_fd p (arg_int (a0 (sc_args sc))) else p, [])"

definition sys_dup :: "process_state \<Rightarrow> raw_syscall \<Rightarrow> process_state \<times> event list" where
  "sys_dup p sc =
     (if sc_result sc < 0 then (p, [])
      else
        let old_fd = arg_int (a0 (sc_args sc)); new_fd = to_int32 (sc_result sc) in
        (case fd_table p old_fd of
           None \<Rightarrow> erase_fd p new_fd
         | Some r \<Rightarrow> set_fd p new_fd r, []))"

definition sys_socket :: "process_state \<Rightarrow> raw_syscall \<Rightarrow> process_state \<times> event list" where
  "sys_socket p sc =
     (if 0 \<le> sc_result sc then
        set_fd p (to_int32 (sc_result sc))
          \<lparr>res_type = Socket, res_name = ''<socket>'', is_directory = False\<rparr>
      else p, [])"

definition sys_connect ::
  "host \<Rightarrow> process_state \<Rightarrow> raw_syscall \<Rightarrow> process_state \<times> event list" where
  "sys_connect h p sc =
     (let fd = arg_int (a0 (sc_args sc)) in
      case socket_endpoint h (sc_tid sc) (a1 (sc_args sc)) (a2 (sc_args sc)) of
        None \<Rightarrow> (p, [])
      | Some ep \<Rightarrow>
          let e = set_metadata ''family'' (family_name ep)
                    (set_metadata ''fd'' (show_int fd)
                      (set_metadata ''operation'' ''connect''
                        (make_event p sc (ep_event_type ep) (ep_resource ep) (sc_result sc)))) in
          (case fd_table p fd of
             None \<Rightarrow> p
           | Some r \<Rightarrow>
               if res_type r = Socket then set_fd p fd (r\<lparr>res_name := ep_resource ep\<rparr>) else p,
           [e]))"

definition sys_chdir ::
  "host \<Rightarrow> process_state \<Rightarrow> raw_syscall \<Rightarrow> process_state \<times> event list" where
  "sys_chdir h p sc =
     (let raw_path = read_string h (sc_tid sc) (a0 (sc_args sc)) in
      (if raw_path = [] then p else p\<lparr>cwd := resolve_path p AT_FDCWD raw_path\<rparr>, []))"

definition sys_fchdir :: "process_state \<Rightarrow> raw_syscall \<Rightarrow> process_state \<times> event list" where
  "sys_fchdir p sc =
     (case fd_table p (arg_int (a0 (sc_args sc))) of
        None \<Rightarrow> p
      | Some r \<Rightarrow> if res_type r = File then p\<lparr>cwd := res_name r\<rparr> else p, [])"

definition syscall_effect ::
  "host \<Rightarrow> process_state \<Rightarrow> raw_syscall \<Rightarrow> process_state \<times> event list" where
  "syscall_effect h p sc =
     (let nr = sc_number sc in
      if nr = nr_open then sys_open h p sc
      else if nr = nr_openat \<or> nr = nr_openat2 then sys_openat h p sc
      else if nr = nr_read \<or> nr = nr_write then sys_read_write p sc
      else if nr = nr_close then sys_close p sc
      else if nr = nr_dup \<or> nr = nr_dup2 \<or> nr = nr_dup3 then sys_dup p sc
      else if nr = nr_socket then sys_socket p sc
      else if nr = nr_connect then sys_connect h p sc
      else if nr = nr_chdir \<and> sc_result sc = 0 then sys_chdir h p sc
      else if nr = nr_fchdir \<and> sc_result sc = 0 then sys_fchdir p sc
      else (p, []))"

definition on_syscall_exit ::
  "host \<Rightarrow> execution_state \<Rightarrow> raw_syscall \<Rightarrow> execution_state \<times> event list" where
  "on_syscall_exit h st sc =
     (case find_process_for_thread st (sc_tid sc) of
        None \<Rightarrow> (st, [])
      | Some p \<Rightarrow>
          let (p', evs) = syscall_effect h p sc in
          (put_process st (sc_tid sc) p', map (emit_event st) evs))"

end
