(* ===== verification/Exec_Inv.thy ===== *)
theory Exec_Inv
  imports Exec_State
begin

text \<open>
  The execution state as a state machine: one step per callback, the invariant that ties the
  process table, the thread table and the active command together, and the abstract command
  machine (idle, armed, running) that the callbacks implement.
\<close>

section \<open>Projections of the state updates\<close>

lemma put_process_simps [simp]:
  "processes (put_process st tid p) = (processes st)(process_for_thread st tid \<mapsto> p)"
  "thread_to_process (put_process st tid p) = thread_to_process st"
  "active_command (put_process st tid p) = active_command st"
  "root_pid (put_process st tid p) = root_pid st"
  by (simp_all add: put_process_def)

lemma insert_process_simps [simp]:
  "processes (insert_process st k p) = (processes st)(k \<mapsto> p)"
  "thread_to_process (insert_process st k p) = (thread_to_process st)(k \<mapsto> k)"
  "active_command (insert_process st k p) = active_command st"
  "root_pid (insert_process st k p) = root_pid st"
  by (simp_all add: insert_process_def)

lemma forget_thread_simps [simp]:
  "processes (forget_thread st tid) = processes st"
  "thread_to_process (forget_thread st tid) = (thread_to_process st)(tid := None)"
  "active_command (forget_thread st tid) = active_command st"
  "root_pid (forget_thread st tid) = root_pid st"
  by (simp_all add: forget_thread_def)

lemma process_for_thread_cong:
  "thread_to_process st' = thread_to_process st \<Longrightarrow>
     process_for_thread st' tid = process_for_thread st tid"
  by (simp add: process_for_thread_def)

lemma process_for_thread_put [simp]:
  "process_for_thread (put_process st t p) tid = process_for_thread st tid"
  "process_for_thread (st\<lparr>active_command := a\<rparr>) tid = process_for_thread st tid"
  by (simp_all add: process_for_thread_def)

lemma command_flags_simps [simp]:
  "command_unstarted (put_process st t p) = command_unstarted st"
  "command_started (put_process st t p) = command_started st"
  by (simp_all add: command_unstarted_def command_started_def)

lemma mk_event_simps [simp]:
  "timestamp_ns (mk_event ts pid tid t r res err) = ts"
  "ev_pid (mk_event ts pid tid t r res err) = pid"
  "ev_tid (mk_event ts pid tid t r res err) = tid"
  "ev_type (mk_event ts pid tid t r res err) = t"
  "resource (mk_event ts pid tid t r res err) = r"
  "ev_result (mk_event ts pid tid t r res err) = res"
  "errno_value (mk_event ts pid tid t r res err) = err"
  "metadata (mk_event ts pid tid t r res err) = []"
  "ev_command_id (mk_event ts pid tid t r res err) = None"
  by (simp_all add: mk_event_def)

lemma make_event_simps [simp]:
  "timestamp_ns (make_event p sc t r res) = sc_timestamp_ns sc"
  "ev_pid (make_event p sc t r res) = p_pid p"
  "ev_tid (make_event p sc t r res) = sc_tid sc"
  "ev_type (make_event p sc t r res) = t"
  "resource (make_event p sc t r res) = r"
  "ev_result (make_event p sc t r res) = res"
  "errno_value (make_event p sc t r res) = syscall_errno res"
  "ev_command_id (make_event p sc t r res) = None"
  by (simp_all add: make_event_def)

text \<open>Emitting changes nothing of an event but its command.\<close>

lemma emit_event_simps [simp]:
  "timestamp_ns (emit_event st e) = timestamp_ns e"
  "ev_pid (emit_event st e) = ev_pid e"
  "ev_tid (emit_event st e) = ev_tid e"
  "ev_type (emit_event st e) = ev_type e"
  "resource (emit_event st e) = resource e"
  "ev_result (emit_event st e) = ev_result e"
  "errno_value (emit_event st e) = errno_value e"
  "metadata (emit_event st e) = metadata e"
  by (auto simp: emit_event_def Let_def split: option.splits)

lemma emit_event_keeps [simp]:
  "ev_command_id e = Some i \<Longrightarrow> emit_event st e = e"
  by (simp add: emit_event_def)

lemma set_fd_simps [simp]:
  "p_pid (set_fd p fd r) = p_pid p" "parent_pid (set_fd p fd r) = parent_pid p"
  "executable (set_fd p fd r) = executable p" "cwd (set_fd p fd r) = cwd p"
  "p_command_id (set_fd p fd r) = p_command_id p"
  "fd_table (set_fd p fd r) = (fd_table p)(fd \<mapsto> r)"
  by (simp_all add: set_fd_def)

lemma erase_fd_simps [simp]:
  "p_pid (erase_fd p fd) = p_pid p" "parent_pid (erase_fd p fd) = parent_pid p"
  "executable (erase_fd p fd) = executable p" "cwd (erase_fd p fd) = cwd p"
  "p_command_id (erase_fd p fd) = p_command_id p"
  "fd_table (erase_fd p fd) = (fd_table p)(fd := None)"
  by (simp_all add: erase_fd_def)

lemmas sys_defs =
  sys_open_def sys_openat_def sys_read_write_def sys_close_def sys_dup_def sys_socket_def
  sys_connect_def sys_chdir_def sys_fchdir_def

text \<open>A syscall changes only the descriptors and the working directory of its process.\<close>

lemma syscall_effect_frame:
  assumes "syscall_effect h p sc = (p', evs)"
  shows "p_pid p' = p_pid p \<and> parent_pid p' = parent_pid p \<and> executable p' = executable p \<and>
         p_command_id p' = p_command_id p"
  using assms
  by (auto simp: syscall_effect_def sys_defs Let_def split: if_splits option.splits)

definition activity_types :: "event_type set" where
  "activity_types = {FileOpen, FileRead, FileWrite, NetworkConnect, LocalIpcConnect}"

lemma socket_endpoint_type:
  "socket_endpoint h tid address n = Some ep \<Longrightarrow>
     ep_event_type ep = NetworkConnect \<or> ep_event_type ep = LocalIpcConnect"
  by (auto simp: socket_endpoint_def mk_endpoint_def Let_def split: if_splits option.splits)

lemma syscall_effect_events:
  assumes "syscall_effect h p sc = (p', evs)" "e \<in> set evs"
  shows "ev_type e \<in> activity_types \<and> ev_pid e = p_pid p \<and> ev_tid e = sc_tid sc \<and>
         ev_command_id e = None \<and> timestamp_ns e = sc_timestamp_ns sc \<and>
         ev_result e = sc_result sc \<and> errno_value e = syscall_errno (sc_result sc)"
  using assms
  by (auto simp: syscall_effect_def sys_defs Let_def activity_types_def
      split: if_splits option.splits dest: socket_endpoint_type)

section \<open>The invariant\<close>

definition exec_inv :: "execution_state \<Rightarrow> bool" where
  "exec_inv st \<longleftrightarrow>
     (\<forall>k p. processes st k = Some p \<longrightarrow> p_pid p = k) \<and>
     (\<forall>t k. thread_to_process st t = Some k \<longrightarrow> processes st k \<noteq> None) \<and>
     (\<exists>r. processes st (root_pid st) = Some r \<and>
          p_command_id r = map_option ac_id (active_command st))"

lemma exec_invD:
  assumes "exec_inv st"
  shows "processes st k = Some p \<Longrightarrow> p_pid p = k"
    and "thread_to_process st t = Some k \<Longrightarrow> \<exists>p. processes st k = Some p"
    and "processes st (root_pid st) = Some r \<Longrightarrow>
           p_command_id r = map_option ac_id (active_command st)"
    and "\<exists>r. processes st (root_pid st) = Some r"
  using assms by (auto simp: exec_inv_def)

lemma find_process_pid:
  assumes "exec_inv st" "find_process_for_thread st tid = Some p"
  shows "p_pid p = process_for_thread st tid"
  using assms by (auto simp: exec_inv_def find_process_for_thread_def)

lemma find_process_None:
  assumes "exec_inv st" "find_process_for_thread st tid = None"
  shows "process_for_thread st tid = tid" "processes st tid = None" "tid \<noteq> root_pid st"
proof -
  show eq: "process_for_thread st tid = tid"
  proof (cases "thread_to_process st tid")
    case (Some k)
    then show ?thesis
      using assms exec_invD(2)[OF assms(1) Some]
      by (auto simp: find_process_for_thread_def process_for_thread_def)
  qed (simp add: process_for_thread_def)
  then show none: "processes st tid = None"
    using assms(2) by (simp add: find_process_for_thread_def)
  then show "tid \<noteq> root_pid st"
    using exec_invD(4)[OF assms(1)] by auto
qed

lemma exec_inv_put:
  assumes "exec_inv st" "find_process_for_thread st tid = Some p"
    and "p_pid q = p_pid p" "p_command_id q = p_command_id p"
  shows "exec_inv (put_process st tid q)"
  using assms by (auto simp: exec_inv_def find_process_for_thread_def)

lemma exec_inv_forget: "exec_inv st \<Longrightarrow> exec_inv (forget_thread st tid)"
  by (auto simp: exec_inv_def)

lemma exec_inv_add_initial:
  "exec_inv (fst (add_initial_process empty_execution pid dir root_command ts))"
  by (auto simp: add_initial_process_def exec_inv_def empty_execution_def empty_process_def
      Let_def split: option.splits)

lemma exec_inv_marker:
  assumes "exec_inv st" "on_command_marker st tid m ts = Inr (st', evs)"
  shows "exec_inv st'"
  using assms
  by (auto simp: on_command_marker_def exec_inv_def find_process_for_thread_def Let_def
      split: option.splits if_splits command_marker_type.splits)

lemma exec_inv_exec:
  assumes "exec_inv st"
  shows "exec_inv (fst (on_process_exec h st tid ts))"
proof (cases "find_process_for_thread st tid")
  case None
  note n = find_process_None[OF assms None]
  show ?thesis
    using assms n None
    by (auto simp: on_process_exec_def Let_def exec_inv_def find_process_for_thread_def
        process_for_thread_def empty_process_def)
next
  case (Some p)
  with assms exec_inv_put[OF assms Some] show ?thesis
    by (simp add: on_process_exec_def Let_def)
qed

lemma exec_inv_insert:
  assumes "exec_inv st" "k \<noteq> root_pid st" "p_pid p = k"
  shows "exec_inv (insert_process st k p)"
  using assms by (auto simp: exec_inv_def)

lemma exec_inv_thread:
  assumes "exec_inv st" "processes st k = Some p"
  shows "exec_inv (st\<lparr>thread_to_process := (thread_to_process st)(t \<mapsto> k)\<rparr>)"
  using assms by (auto simp: exec_inv_def)

lemma exec_inv_active:
  assumes "exec_inv st" "active_command st = Some ac" "ac_id bc = ac_id ac"
  shows "exec_inv (st\<lparr>active_command := Some bc\<rparr>)"
  using assms by (auto simp: exec_inv_def)

text \<open>The state after a process was created: the child, then the time of a first process.\<close>

definition mark_first_process :: "execution_state \<Rightarrow> pid_t \<Rightarrow> u64 \<Rightarrow> execution_state" where
  "mark_first_process st pid ts =
     (case active_command st of
        Some ac \<Rightarrow>
          if pid = root_pid st \<and> \<not> started ac \<and> first_process_ns ac = None
          then st\<lparr>active_command := Some (ac\<lparr>first_process_ns := Some ts\<rparr>)\<rparr> else st
      | None \<Rightarrow> st)"

lemma exec_inv_mark: "exec_inv st \<Longrightarrow> exec_inv (mark_first_process st pid ts)"
  by (auto simp: mark_first_process_def intro: exec_inv_active split: option.splits)

lemma mark_first_process_simps [simp]:
  "processes (mark_first_process st pid ts) = processes st"
  "thread_to_process (mark_first_process st pid ts) = thread_to_process st"
  "root_pid (mark_first_process st pid ts) = root_pid st"
  by (auto simp: mark_first_process_def split: option.splits)

definition is_thread_creation :: "nat \<Rightarrow> u64 \<Rightarrow> bool" where
  "is_thread_creation ev flags \<longleftrightarrow> ev = PTRACE_EVENT_CLONE \<and> flags AND CLONE_THREAD \<noteq> 0"

lemma on_process_created_state:
  "fst (on_process_created st parent_tid child_tid ev flags ts) =
     (case find_process_for_thread st parent_tid of
        None \<Rightarrow> st
      | Some p \<Rightarrow>
          if is_thread_creation ev flags then
            st\<lparr>thread_to_process := (thread_to_process st)(child_tid \<mapsto> p_pid p)\<rparr>
          else
            mark_first_process
              (insert_process st child_tid (p\<lparr>p_pid := child_tid, parent_pid := p_pid p\<rparr>))
              (p_pid p) ts)"
  by (simp add: on_process_created_def Let_def is_thread_creation_def mark_first_process_def
      split: option.split)

definition fork_event :: "process_state \<Rightarrow> pid_t \<Rightarrow> pid_t \<Rightarrow> nat \<Rightarrow> u64 \<Rightarrow> event" where
  "fork_event p parent_tid child_tid ev ts =
     (set_metadata ''executable'' (executable p)
       (set_metadata ''kind'' (child_kind ev)
         (set_metadata ''child_pid'' (show_int child_tid)
           (mk_event ts (p_pid p) parent_tid ProcessFork (show_int child_tid) child_tid 0))))
       \<lparr>ev_command_id := p_command_id p\<rparr>"

lemma fork_event_simps [simp]:
  "timestamp_ns (fork_event p pt ct ev ts) = ts"
  "ev_pid (fork_event p pt ct ev ts) = p_pid p"
  "ev_tid (fork_event p pt ct ev ts) = pt"
  "ev_type (fork_event p pt ct ev ts) = ProcessFork"
  "ev_result (fork_event p pt ct ev ts) = ct"
  "ev_command_id (fork_event p pt ct ev ts) = p_command_id p"
  by (simp_all add: fork_event_def)

lemma on_process_created_events:
  "snd (on_process_created st parent_tid child_tid ev flags ts) =
     (case find_process_for_thread st parent_tid of
        None \<Rightarrow> []
      | Some p \<Rightarrow>
          if is_thread_creation ev flags then []
          else
            [emit_event
              (mark_first_process
                (insert_process st child_tid (p\<lparr>p_pid := child_tid, parent_pid := p_pid p\<rparr>))
                (p_pid p) ts)
              (fork_event p parent_tid child_tid ev ts)])"
  by (auto simp: on_process_created_def Let_def is_thread_creation_def mark_first_process_def
      fork_event_def split: option.split)

lemma exec_inv_created:
  assumes "exec_inv st" "child_tid \<noteq> root_pid st"
  shows "exec_inv (fst (on_process_created st parent_tid child_tid ev flags ts))"
proof (cases "find_process_for_thread st parent_tid")
  case None
  with assms show ?thesis by (simp add: on_process_created_state)
next
  case (Some p)
  then have "processes st (p_pid p) = Some p"
    using find_process_pid[OF assms(1) Some] by (simp add: find_process_for_thread_def)
  with assms Some show ?thesis
    by (simp add: on_process_created_state exec_inv_thread exec_inv_mark exec_inv_insert)
qed

text \<open>
  Whatever the state of the command, the exit of the root leaves no active command and no
  command on the root; the exit of another process changes only the thread table.
\<close>

definition after_exit :: "execution_state \<Rightarrow> pid_t \<Rightarrow> process_state \<Rightarrow> execution_state" where
  "after_exit st tid p =
     forget_thread
       (if p_pid p = root_pid st
        then (put_process st tid (p\<lparr>p_command_id := None\<rparr>))\<lparr>active_command := None\<rparr>
        else put_process st tid p) tid"

lemma put_process_twice [simp]:
  "put_process (put_process st tid p) tid q = put_process st tid q"
  by (simp add: put_process_def process_for_thread_def)

lemma drop_command_id [simp]: "p_command_id p = None \<Longrightarrow> p\<lparr>p_command_id := None\<rparr> = p"
  by simp

lemma on_process_exit_state:
  assumes "exec_inv st" "tid = process_for_thread st tid"
    and p: "find_process_for_thread st tid = Some p"
  shows "fst (on_process_exit st tid ec sg ts) = after_exit st tid p"
proof (cases "p_pid p = root_pid st")
  case False
  then show ?thesis
    using assms(2) p by (simp add: on_process_exit_def Let_def after_exit_def)
next
  case True
  then have "p_command_id p = map_option ac_id (active_command st)"
    using assms find_process_pid[OF assms(1) p] exec_invD(3)[OF assms(1)]
    by (simp add: find_process_for_thread_def)
  with True show ?thesis
    using assms(2) p
    by (cases "active_command st")
      (simp_all add: on_process_exit_def Let_def after_exit_def command_unstarted_def
        command_started_def)
qed

definition exit_event :: "process_state \<Rightarrow> pid_t \<Rightarrow> int \<Rightarrow> int \<Rightarrow> u64 \<Rightarrow> event" where
  "exit_event p tid ec sg ts =
     set_metadata ''term_signal'' (show_int sg)
       (set_metadata ''exit_code'' (show_int ec)
         (mk_event ts (p_pid p) tid ProcessExit (executable p) (exit_result ec sg) 0))"

definition command_end_event :: "process_state \<Rightarrow> pid_t \<Rightarrow> int \<Rightarrow> int \<Rightarrow> u64 \<Rightarrow> event" where
  "command_end_event p tid ec sg ts =
     (set_metadata ''cwd'' (cwd p)
       (mk_event ts (p_pid p) tid CommandEnd [] (exit_result ec sg) 0))
       \<lparr>ev_command_id := p_command_id p\<rparr>"

lemma exit_event_simps [simp]:
  "timestamp_ns (exit_event p tid ec sg ts) = ts"
  "ev_pid (exit_event p tid ec sg ts) = p_pid p"
  "ev_tid (exit_event p tid ec sg ts) = tid"
  "ev_type (exit_event p tid ec sg ts) = ProcessExit"
  "ev_result (exit_event p tid ec sg ts) = exit_result ec sg"
  "ev_command_id (exit_event p tid ec sg ts) = None"
  "timestamp_ns (command_end_event p tid ec sg ts) = ts"
  "ev_pid (command_end_event p tid ec sg ts) = p_pid p"
  "ev_tid (command_end_event p tid ec sg ts) = tid"
  "ev_type (command_end_event p tid ec sg ts) = CommandEnd"
  "ev_result (command_end_event p tid ec sg ts) = exit_result ec sg"
  "ev_command_id (command_end_event p tid ec sg ts) = p_command_id p"
  by (simp_all add: exit_event_def command_end_event_def)

lemma on_process_exit_other_events:
  assumes "tid = process_for_thread st tid" "find_process_for_thread st tid = Some p"
    and "p_pid p \<noteq> root_pid st"
  shows "snd (on_process_exit st tid ec sg ts) =
    [emit_event (put_process st tid p) (exit_event p tid ec sg ts)]"
  using assms by (simp add: on_process_exit_def Let_def exit_event_def)

lemma on_process_exit_root_events:
  assumes "exec_inv st" "tid = process_for_thread st tid"
    and p: "find_process_for_thread st tid = Some p" and root: "p_pid p = root_pid st"
  shows "snd (on_process_exit st tid ec sg ts) =
    (if command_started st then
       [emit_event (put_process st tid p) (exit_event p tid ec sg ts),
        command_end_event p tid ec sg ts]
     else
       [emit_event (put_process st tid (p\<lparr>p_command_id := None\<rparr>))
          (exit_event p tid ec sg ts)])"
proof -
  have "p_command_id p = map_option ac_id (active_command st)"
    using root p find_process_pid[OF assms(1) p] exec_invD(3)[OF assms(1)]
    by (simp add: find_process_for_thread_def)
  then show ?thesis
    using root assms(2) p
    by (cases "active_command st")
      (auto simp: on_process_exit_def Let_def exit_event_def command_end_event_def
        command_unstarted_def command_started_def)
qed

lemma on_process_exit_no_process:
  assumes "tid \<noteq> process_for_thread st tid \<or> find_process_for_thread st tid = None"
  shows "on_process_exit st tid ec sg ts =
    (if tid \<noteq> process_for_thread st tid then forget_thread st tid else st, [])"
  using assms by (auto simp: on_process_exit_def)

lemma exec_inv_after_exit:
  assumes "exec_inv st" and p: "find_process_for_thread st tid = Some p"
  shows "exec_inv (after_exit st tid p)"
proof (cases "p_pid p = root_pid st")
  case True
  then show ?thesis
    using assms by (auto simp: after_exit_def exec_inv_def find_process_for_thread_def)
next
  case False
  then show ?thesis
    using exec_inv_put[OF assms] exec_inv_forget by (simp add: after_exit_def)
qed

lemma exec_inv_exit:
  assumes "exec_inv st"
  shows "exec_inv (fst (on_process_exit st tid ec sg ts))"
proof (cases "tid = process_for_thread st tid")
  case False
  with assms show ?thesis
    by (simp add: on_process_exit_def exec_inv_forget)
next
  case True
  show ?thesis
  proof (cases "find_process_for_thread st tid")
    case None
    with True assms show ?thesis by (simp add: on_process_exit_def)
  next
    case (Some p)
    then show ?thesis
      using exec_inv_after_exit[OF assms Some] on_process_exit_state[OF assms True Some]
      by simp
  qed
qed

lemma exec_inv_syscall:
  assumes "exec_inv st"
  shows "exec_inv (fst (on_syscall_exit h st sc))"
proof (cases "find_process_for_thread st (sc_tid sc)")
  case None
  with assms show ?thesis by (simp add: on_syscall_exit_def)
next
  case (Some p)
  obtain p' evs where e: "syscall_effect h p sc = (p', evs)"
    by fastforce
  then show ?thesis
    using assms Some syscall_effect_frame[OF e]
    by (simp add: on_syscall_exit_def exec_inv_put)
qed

end
