(* ===== verification/Exec_Machine.thy ===== *)
theory Exec_Machine
  imports Exec_Inv
begin

text \<open>
  Runs of the execution state: the labelled step relation, the command brackets that the
  callbacks emit, their refinement of the abstract command machine, and the attribution of
  events to commands.
\<close>

section \<open>Steps and traces\<close>

datatype exec_op =
    Marker pid_t command_marker u64
  | Exec host pid_t u64
  | Created pid_t pid_t nat u64 u64
  | Exited pid_t int int u64
  | Syscall host raw_syscall

text \<open>
  One rule per callback. The kernel's part of the contract is the guard of \<open>created\<close>: a new
  process never has the pid of the recorded root.
\<close>

inductive exec_step ::
  "execution_state \<Rightarrow> exec_op \<Rightarrow> event list \<Rightarrow> execution_state \<Rightarrow> bool" where
  marker: "on_command_marker st tid m ts = Inr (st', evs) \<Longrightarrow>
     exec_step st (Marker tid m ts) evs st'"
| exec: "on_process_exec h st tid ts = (st', evs) \<Longrightarrow> exec_step st (Exec h tid ts) evs st'"
| created: "child_tid \<noteq> root_pid st \<Longrightarrow>
     on_process_created st parent_tid child_tid ev flags ts = (st', evs) \<Longrightarrow>
     exec_step st (Created parent_tid child_tid ev flags ts) evs st'"
| exited: "on_process_exit st tid ec sg ts = (st', evs) \<Longrightarrow>
     exec_step st (Exited tid ec sg ts) evs st'"
| syscall: "on_syscall_exit h st sc = (st', evs) \<Longrightarrow> exec_step st (Syscall h sc) evs st'"

inductive_cases exec_step_MarkerE: "exec_step st (Marker tid m ts) evs st'"
inductive_cases exec_step_ExecE: "exec_step st (Exec h tid ts) evs st'"
inductive_cases exec_step_CreatedE: "exec_step st (Created pt ct ev fl ts) evs st'"
inductive_cases exec_step_ExitedE: "exec_step st (Exited tid ec sg ts) evs st'"
inductive_cases exec_step_SyscallE: "exec_step st (Syscall h sc) evs st'"

inductive exec_trace ::
  "execution_state \<Rightarrow> (exec_op \<times> event list) list \<Rightarrow> execution_state \<Rightarrow> bool" where
  none: "exec_trace st [] st"
| step: "exec_step st op evs st1 \<Longrightarrow> exec_trace st1 tr st' \<Longrightarrow> exec_trace st ((op, evs) # tr) st'"

inductive_simps exec_trace_Nil [simp]: "exec_trace st [] st'"
inductive_simps exec_trace_Cons [simp]: "exec_trace st (x # tr) st'"

definition trace_events :: "(exec_op \<times> event list) list \<Rightarrow> event list" where
  "trace_events tr = concat (map snd tr)"

lemma trace_events_simps [simp]:
  "trace_events [] = []"
  "trace_events ((op, evs) # tr) = evs @ trace_events tr"
  by (simp_all add: trace_events_def)

lemma exec_step_inv:
  assumes "exec_step st op evs st'" "exec_inv st"
  shows "exec_inv st'"
  using assms
proof cases
  case marker
  then show ?thesis using exec_inv_marker assms(2) by blast
next
  case (exec h tid ts)
  then show ?thesis using exec_inv_exec[OF assms(2), of h tid ts] by simp
next
  case (created child_tid parent_tid ev flags ts)
  then show ?thesis
    using exec_inv_created[OF assms(2), of child_tid parent_tid ev flags ts] by simp
next
  case (exited tid ec sg ts)
  then show ?thesis using exec_inv_exit[OF assms(2), of tid ec sg ts] by simp
next
  case (syscall h sc)
  then show ?thesis using exec_inv_syscall[OF assms(2), of h sc] by simp
qed

lemma exec_trace_inv:
  assumes "exec_trace st tr st'" "exec_inv st"
  shows "exec_inv st'"
  using assms by (induction rule: exec_trace.induct) (auto dest: exec_step_inv)

lemma syscall_state:
  assumes "on_syscall_exit h st sc = (st', evs)"
  shows "active_command st' = active_command st" "root_pid st' = root_pid st"
    "thread_to_process st' = thread_to_process st"
  using assms by (auto simp: on_syscall_exit_def split: option.splits prod.splits)

lemma exec_state_fields:
  assumes "on_process_exec h st tid ts = (st', evs)"
  shows "active_command st' = active_command st" "root_pid st' = root_pid st"
  using assms by (auto simp: on_process_exec_def Let_def)

lemma exec_step_root:
  assumes "exec_step st op evs st'"
  shows "root_pid st' = root_pid st"
  using assms
proof cases
  case (marker tid m ts)
  then show ?thesis
    by (auto simp: on_command_marker_def Let_def split: option.splits if_splits
        command_marker_type.splits)
next
  case (exec h tid ts)
  then show ?thesis by (auto dest: exec_state_fields)
next
  case (created child_tid parent_tid ev flags ts)
  then show ?thesis
    using on_process_created_state[of st parent_tid child_tid ev flags ts]
    by (auto split: option.splits if_splits)
next
  case (exited tid ec sg ts)
  then show ?thesis
    by (auto simp: on_process_exit_def Let_def split: option.splits if_splits)
next
  case (syscall h sc)
  then show ?thesis by (auto dest: syscall_state)
qed

section \<open>The abstract command machine\<close>

datatype phase = Idle | Armed u64 | Running u64

definition phase_of :: "execution_state \<Rightarrow> phase" where
  "phase_of st =
     (case active_command st of
        None \<Rightarrow> Idle
      | Some ac \<Rightarrow> if started ac then Running (ac_id ac) else Armed (ac_id ac))"

datatype bracket = Opens "u64 option" | Closes "u64 option"

fun bracket_of :: "event \<Rightarrow> bracket list" where
  "bracket_of e =
     (case ev_type e of
        CommandStart \<Rightarrow> [Opens (ev_command_id e)]
      | CommandEnd \<Rightarrow> [Closes (ev_command_id e)]
      | _ \<Rightarrow> [])"

declare bracket_of.simps [simp del]

definition brackets :: "event list \<Rightarrow> bracket list" where
  "brackets evs = concat (map bracket_of evs)"

lemma brackets_simps [simp]:
  "brackets [] = []"
  "brackets (e # es) = bracket_of e @ brackets es"
  "brackets (xs @ ys) = brackets xs @ brackets ys"
  by (simp_all add: brackets_def)

lemma bracket_of_simps [simp]:
  "ev_type e = CommandStart \<Longrightarrow> bracket_of e = [Opens (ev_command_id e)]"
  "ev_type e = CommandEnd \<Longrightarrow> bracket_of e = [Closes (ev_command_id e)]"
  "ev_type e \<noteq> CommandStart \<Longrightarrow> ev_type e \<noteq> CommandEnd \<Longrightarrow> bracket_of e = []"
  by (simp_all add: bracket_of.simps split: event_type.split)

inductive phase_step :: "phase \<Rightarrow> bracket list \<Rightarrow> phase \<Rightarrow> bool" where
  stay: "phase_step ph [] ph"
| arm: "phase_step Idle [] (Armed i)"
| start: "phase_step (Armed i) [Opens (Some i)] (Running i)"
| finish: "phase_step (Running i) [Closes (Some i)] Idle"
| abandon: "phase_step (Armed i) [] Idle"

lemma phase_of_cong: "active_command st' = active_command st \<Longrightarrow> phase_of st' = phase_of st"
  by (simp add: phase_of_def)

lemma phase_of_mark [simp]: "phase_of (mark_first_process st pid ts) = phase_of st"
  by (auto simp: phase_of_def mark_first_process_def split: option.splits)

lemma phase_of_simps [simp]:
  "phase_of (put_process st tid p) = phase_of st"
  "phase_of (insert_process st k p) = phase_of st"
  "phase_of (forget_thread st tid) = phase_of st"
  "phase_of (st\<lparr>thread_to_process := m\<rparr>) = phase_of st"
  by (simp_all add: phase_of_def)

lemma marker_phase_step:
  assumes "on_command_marker st tid m ts = Inr (st', evs)"
  shows "phase_step (phase_of st) (brackets evs) (phase_of st')"
  using assms
  by (auto simp: on_command_marker_def phase_of_def Let_def phase_step.intros
      split: option.splits if_splits command_marker_type.splits)

lemma exec_brackets:
  assumes "on_process_exec h st tid ts = (st', evs)"
  shows "brackets evs = []"
  using assms by (auto simp: on_process_exec_def Let_def)

lemma created_brackets:
  assumes "on_process_created st pt ct ev fl ts = (st', evs)"
  shows "brackets evs = []" "phase_of st' = phase_of st"
  using assms on_process_created_state[of st pt ct ev fl ts]
  by (auto simp: on_process_created_def Let_def split: option.splits if_splits)

lemma syscall_brackets:
  assumes "on_syscall_exit h st sc = (st', evs)"
  shows "brackets evs = []"
proof -
  have "bracket_of e = []" if e: "e \<in> set evs" for e
  proof -
    obtain p p' fs f where "syscall_effect h p sc = (p', fs)" "f \<in> set fs" "e = emit_event st f"
      using assms e by (auto simp: on_syscall_exit_def split: option.splits prod.splits)
    then have "ev_type e \<in> activity_types"
      by (auto dest: syscall_effect_events)
    then show ?thesis by (auto simp: activity_types_def)
  qed
  then show ?thesis by (simp add: brackets_def)
qed

text \<open>The exit of a process, event by event.\<close>

lemma on_process_exit_brackets:
  assumes "exec_inv st" "on_process_exit st tid ec sg ts = (st', evs)"
  shows "phase_step (phase_of st) (brackets evs) (phase_of st')"
proof (cases "tid = process_for_thread st tid")
  case False
  with assms(2) show ?thesis
    by (auto simp: on_process_exit_def intro: phase_step.intros)
next
  case True
  show ?thesis
  proof (cases "find_process_for_thread st tid")
    case None
    with True assms(2) show ?thesis
      by (auto simp: on_process_exit_def intro: phase_step.intros)
  next
    case (Some p)
    have st': "st' = after_exit st tid p"
      using on_process_exit_state[OF assms(1) True Some, of ec sg ts] assms(2) by simp
    show ?thesis
    proof (cases "p_pid p = root_pid st")
      case False
      then have "phase_of st' = phase_of st"
        by (simp add: st' after_exit_def)
      with False True Some assms(2) show ?thesis
        by (auto simp: on_process_exit_def Let_def intro: phase_step.intros)
    next
      case root: True
      have "p_command_id p = map_option ac_id (active_command st)"
        using root Some find_process_pid[OF assms(1) Some] exec_invD(3)[OF assms(1)]
        by (simp add: find_process_for_thread_def)
      moreover have "phase_of st' = Idle"
        by (simp add: st' after_exit_def root phase_of_def)
      ultimately show ?thesis
        using root True Some assms(2)
        by (cases "active_command st")
          (auto simp: on_process_exit_def Let_def phase_of_def command_unstarted_def
            command_started_def intro: phase_step.intros split: if_splits)
    qed
  qed
qed

lemma exec_step_phase:
  assumes "exec_step st op evs st'" "exec_inv st"
  shows "phase_step (phase_of st) (brackets evs) (phase_of st')"
  using assms(1)
proof cases
  case (marker tid m ts)
  then show ?thesis by (auto dest: marker_phase_step)
next
  case exec
  then show ?thesis
    using exec_brackets exec_state_fields phase_of_cong phase_step.stay by metis
next
  case created
  then show ?thesis
    using created_brackets phase_step.stay by metis
next
  case exited
  then show ?thesis using on_process_exit_brackets[OF assms(2)] by blast
next
  case syscall
  then show ?thesis
    using syscall_brackets syscall_state phase_of_cong phase_step.stay by metis
qed

section \<open>Bracket sequences\<close>

text \<open>
  The bracket language of a recording: commands never overlap and every end names the
  command that is open. The state is the open command; \<open>None\<close> is an ill-formed sequence.
\<close>

fun bracket_run :: "u64 option \<Rightarrow> bracket list \<Rightarrow> u64 option option" where
  "bracket_run s [] = Some s"
| "bracket_run None (Opens (Some i) # bs) = bracket_run (Some i) bs"
| "bracket_run (Some i) (Closes (Some j) # bs) = (if i = j then bracket_run None bs else None)"
| "bracket_run s (b # bs) = None"

fun open_of :: "phase \<Rightarrow> u64 option" where
  "open_of (Running i) = Some i"
| "open_of ph = None"

lemma bracket_run_append:
  "bracket_run s (bs @ cs) = Option.bind (bracket_run s bs) (\<lambda>t. bracket_run t cs)"
  by (induction s bs rule: bracket_run.induct) simp_all

lemma phase_step_run:
  "phase_step ph bs ph' \<Longrightarrow> bracket_run (open_of ph) bs = Some (open_of ph')"
  by (induction rule: phase_step.induct) simp_all

lemma exec_trace_brackets:
  assumes "exec_trace st tr st'" "exec_inv st"
  shows "bracket_run (open_of (phase_of st)) (brackets (trace_events tr)) =
    Some (open_of (phase_of st'))"
  using assms
proof (induction rule: exec_trace.induct)
  case none
  then show ?case by simp
next
  case (step st op evs st1 tr st')
  then show ?case
    using phase_step_run[OF exec_step_phase[OF step.hyps(1) step.prems]]
      exec_step_inv[OF step.hyps(1) step.prems]
    by (simp add: bracket_run_append)
qed

section \<open>Attribution\<close>

lemma emit_event_command:
  assumes "find_process_for_thread st (ev_tid e) = Some p" "p_pid p \<noteq> root_pid st"
    and "ev_command_id e = None"
  shows "ev_command_id (emit_event st e) = p_command_id p"
  using assms by (simp add: emit_event_def)

definition recreates :: "exec_op \<Rightarrow> pid_t \<Rightarrow> bool" where
  "recreates op k =
     (case op of
        Created _ child_tid ev flags _ \<Rightarrow> child_tid = k \<and> \<not> is_thread_creation ev flags
      | _ \<Rightarrow> False)"

lemma exec_step_command_kept:
  assumes "exec_step st op evs st'" "exec_inv st" "k \<noteq> root_pid st" "\<not> recreates op k"
    and k: "processes st k = Some p"
  shows "\<exists>p'. processes st' k = Some p' \<and> p_command_id p' = p_command_id p"
  using assms(1)
proof cases
  case (marker tid m ts)
  have "k = process_for_thread st tid \<Longrightarrow>
      \<exists>q. find_process_for_thread st tid = Some q \<and> p_pid q \<noteq> root_pid st"
    using exec_invD(1)[OF assms(2) k] assms(3) k by (auto simp: find_process_for_thread_def)
  with marker k show ?thesis
    by (auto simp: on_command_marker_def Let_def split: option.splits if_splits
        command_marker_type.splits)
next
  case (exec h tid ts)
  show ?thesis
  proof (cases "find_process_for_thread st tid")
    case None
    note n = find_process_None[OF assms(2) None]
    with k have "k \<noteq> tid" by auto
    with exec None k show ?thesis
      by (auto simp: on_process_exec_def Let_def process_for_thread_def)
  next
    case (Some q)
    with exec k show ?thesis
      by (auto simp: on_process_exec_def Let_def find_process_for_thread_def)
  qed
next
  case (created child_tid parent_tid ev flags ts)
  then show ?thesis
    using on_process_created_state[of st parent_tid child_tid ev flags ts] k assms(4)
    by (auto simp: recreates_def split: option.splits if_splits)
next
  case (exited tid ec sg ts)
  show ?thesis
  proof (cases "tid = process_for_thread st tid \<and> find_process_for_thread st tid \<noteq> None")
    case False
    with exited k show ?thesis
      by (auto simp: on_process_exit_def split: if_splits)
  next
    case True
    then obtain q where q: "find_process_for_thread st tid = Some q" by auto
    then have "st' = after_exit st tid q"
      using on_process_exit_state[OF assms(2) _ q, of ec sg ts] exited(2) True by simp
    then show ?thesis
      using k q True assms(3) find_process_pid[OF assms(2) q]
      by (auto simp: after_exit_def find_process_for_thread_def)
  qed
next
  case (syscall h sc)
  then show ?thesis
    using k syscall_effect_frame
    by (fastforce simp: on_syscall_exit_def find_process_for_thread_def
        split: option.splits prod.splits)
qed

text \<open>What an event of a step is charged with: the command of its process.\<close>

lemma set_emit_event:
  "e \<in> set (map (emit_event st) fs) \<Longrightarrow> \<exists>f \<in> set fs. e = emit_event st f"
  by auto

lemma exec_step_event_command:
  assumes "exec_step st op evs st'" "exec_inv st" "e \<in> set evs"
    and k: "ev_pid e \<noteq> root_pid st" "processes st (ev_pid e) = Some p"
  shows "ev_command_id e = p_command_id p"
  using assms(1)
proof cases
  case (marker tid m ts)
  with assms(3) k show ?thesis
    by (auto simp: on_command_marker_def Let_def split: option.splits if_splits
        command_marker_type.splits)
next
  case (exec h tid ts)
  show ?thesis
  proof (cases "find_process_for_thread st tid")
    case None
    note n = find_process_None[OF assms(2) None]
    with exec None assms(3) k show ?thesis
      by (auto simp: on_process_exec_def Let_def empty_process_def process_for_thread_def
          find_process_for_thread_def)
  next
    case (Some q)
    have q: "processes st (p_pid q) = Some q" "p_pid q = process_for_thread st tid"
      using Some find_process_pid[OF assms(2) Some] by (simp_all add: find_process_for_thread_def)
    let ?q = "q\<lparr>executable := if read_proc_link h tid ''exe'' = [] then ''<unknown>''
                else read_proc_link h tid ''exe''\<rparr>"
    have "find_process_for_thread (put_process st tid ?q) tid = Some ?q"
      by (simp add: find_process_for_thread_def)
    with exec Some assms(3) k q show ?thesis
      by (auto simp: on_process_exec_def Let_def emit_event_command)
  qed
next
  case (created child_tid parent_tid ev flags ts)
  have evs: "evs = snd (on_process_created st parent_tid child_tid ev flags ts)"
    using created by simp
  then obtain q where q: "find_process_for_thread st parent_tid = Some q"
    using assms(3) by (auto simp: on_process_created_events split: option.splits)
  let ?c = "q\<lparr>p_pid := child_tid, parent_pid := p_pid q\<rparr>"
  let ?s = "mark_first_process (insert_process st child_tid ?c) (p_pid q) ts"
  have e: "e = emit_event ?s (fork_event q parent_tid child_tid ev ts)"
    using evs assms(3) q by (auto simp: on_process_created_events split: if_splits)
  have pq: "p = q"
    using q k e find_process_pid[OF assms(2) q] by (simp add: find_process_for_thread_def)
  show ?thesis
  proof (cases "p_command_id q")
    case (Some i)
    with e pq show ?thesis by simp
  next
    case None
    then have "\<exists>r. find_process_for_thread ?s parent_tid = Some r \<and> p_command_id r = None"
      using q by (auto simp: find_process_for_thread_def process_for_thread_def
          split: option.splits)
    with None e pq show ?thesis
      by (auto simp: emit_event_def Let_def)
  qed
next
  case (exited tid ec sg ts)
  show ?thesis
  proof (cases "tid = process_for_thread st tid \<and> find_process_for_thread st tid \<noteq> None")
    case False
    with exited assms(3) show ?thesis
      by (auto simp: on_process_exit_def split: if_splits)
  next
    case True
    then obtain q where q: "find_process_for_thread st tid = Some q" by auto
    have pq: "processes st (p_pid q) = Some q" "p_pid q = process_for_thread st tid"
      using q find_process_pid[OF assms(2) q] by (simp_all add: find_process_for_thread_def)
    have evs: "evs = snd (on_process_exit st tid ec sg ts)"
      using exited by simp
    have tid: "tid = process_for_thread st tid"
      using True by simp
    show ?thesis
    proof (cases "p_pid q = root_pid st")
      case True
      then show ?thesis
        using assms(3) k(1) evs on_process_exit_root_events[OF assms(2) tid q True, of ec sg ts]
        by (auto split: if_splits)
    next
      case False
      then have e: "e = emit_event (put_process st tid q) (exit_event q tid ec sg ts)"
        using assms(3) evs on_process_exit_other_events[OF tid q False] by simp
      have "find_process_for_thread (put_process st tid q) tid = Some q"
        by (simp add: find_process_for_thread_def)
      then show ?thesis
        using e False k pq by (simp add: emit_event_command)
    qed
  qed
next
  case (syscall h sc)
  obtain q q' fs f where q: "find_process_for_thread st (sc_tid sc) = Some q"
      "syscall_effect h q sc = (q', fs)" "f \<in> set fs" "e = emit_event st f"
    using syscall assms(3) by (auto simp: on_syscall_exit_def split: option.splits prod.splits)
  then have f: "ev_pid f = p_pid q" "ev_tid f = sc_tid sc" "ev_command_id f = None"
    using syscall_effect_events by blast+
  then have "p = q"
    using q k find_process_pid[OF assms(2) q(1)] by (simp add: find_process_for_thread_def)
  with q f k show ?thesis
    by (simp add: emit_event_command)
qed

lemma exec_trace_event_command:
  assumes "exec_trace st tr st'" "exec_inv st" "k \<noteq> root_pid st"
    and "processes st k = Some p" "\<forall>op \<in> fst ` set tr. \<not> recreates op k"
    and "e \<in> set (trace_events tr)" "ev_pid e = k"
  shows "ev_command_id e = p_command_id p"
  using assms
proof (induction arbitrary: p rule: exec_trace.induct)
  case none
  then show ?case by simp
next
  case (step st op evs st1 tr st')
  show ?case
  proof (cases "e \<in> set evs")
    case True
    then show ?thesis
      using exec_step_event_command[OF step.hyps(1) step.prems(1)] step.prems by auto
  next
    case False
    obtain p1 where p1: "processes st1 k = Some p1" "p_command_id p1 = p_command_id p"
      using exec_step_command_kept[OF step.hyps(1) step.prems(1,2)] step.prems by fastforce
    then show ?thesis
      using step.IH[of p1] exec_step_inv[OF step.hyps(1) step.prems(1)]
        exec_step_root[OF step.hyps(1)] step.prems False by auto
  qed
qed

section \<open>Runs as a function\<close>

text \<open>The callbacks behind the labels, and the run of a list of them.\<close>

fun exec_apply :: "exec_op \<Rightarrow> execution_state \<Rightarrow> (execution_state \<times> event list) res" where
  "exec_apply (Marker tid m ts) st = on_command_marker st tid m ts"
| "exec_apply (Exec h tid ts) st = Inr (on_process_exec h st tid ts)"
| "exec_apply (Created pt ct ev fl ts) st = Inr (on_process_created st pt ct ev fl ts)"
| "exec_apply (Exited tid ec sg ts) st = Inr (on_process_exit st tid ec sg ts)"
| "exec_apply (Syscall h sc) st = Inr (on_syscall_exit h st sc)"

fun exec_run ::
  "exec_op list \<Rightarrow> execution_state \<Rightarrow> (execution_state \<times> (exec_op \<times> event list) list) res" where
  "exec_run [] st = Inr (st, [])"
| "exec_run (op # ops) st =
     bind_res (exec_apply op st) (\<lambda>(st1, evs).
     bind_res (exec_run ops st1) (\<lambda>(st', tr). Inr (st', (op, evs) # tr)))"

text \<open>The kernel's promise for a list of callbacks: the root's pid is not given out again.\<close>

fun fresh_pid :: "pid_t \<Rightarrow> exec_op \<Rightarrow> bool" where
  "fresh_pid root (Created pt ct ev fl ts) = (ct \<noteq> root)"
| "fresh_pid root op = True"

lemma exec_apply_step:
  assumes "exec_apply op st = Inr (st', evs)" "fresh_pid (root_pid st) op"
  shows "exec_step st op evs st'"
  using assms by (cases op) (auto intro: exec_step.intros)

lemma exec_run_trace:
  assumes "exec_run ops st = Inr (st', tr)" "\<forall>op \<in> set ops. fresh_pid (root_pid st) op"
  shows "exec_trace st tr st'"
  using assms
proof (induction ops arbitrary: st tr)
  case Nil
  then show ?case by simp
next
  case (Cons op ops)
  obtain st1 evs tr' where s: "exec_apply op st = Inr (st1, evs)"
      "exec_run ops st1 = Inr (st', tr')" "tr = (op, evs) # tr'"
    using Cons.prems(1) by (auto simp: res_simps split: prod.splits)
  have e: "exec_step st op evs st1"
    using s(1) Cons.prems(2) by (auto intro: exec_apply_step)
  then have "exec_trace st1 tr' st'"
    using Cons.IH[OF s(2)] Cons.prems(2) exec_step_root[OF e] by auto
  with e s(3) show ?case by auto
qed

text \<open>A small session: a command that starts a process, and the shell's exit.\<close>

definition plain_host :: host where
  "plain_host = \<lparr>read_string_at = (\<lambda>_ _ _. ''/etc/hosts''), read_bytes_at = (\<lambda>_ _ _. None),
     read_symlink = (\<lambda>_. Some ''/bin/true''), inet_ntop = (\<lambda>_ _. None)\<rparr>"

definition sample_marker :: "command_marker_type \<Rightarrow> command_marker" where
  "sample_marker t = \<lparr>cm_type = t, cm_id = 1, cm_text = ''true'', cm_cwd = ''/'',
     cm_exit_code = 0\<rparr>"

definition sample_start :: execution_state where
  "sample_start = fst (add_initial_process empty_execution 100 ''/'' None 1)"

definition sample_ops :: "exec_op list" where
  "sample_ops =
     [Marker 100 (sample_marker Arm) 2, Created 100 101 1 0 3,
      Marker 100 (sample_marker Start) 4, Exec plain_host 101 5, Exited 101 0 0 6,
      Marker 100 (sample_marker End) 7]"

definition sample_end :: execution_state where
  "sample_end = fst (projr (exec_run sample_ops sample_start))"

definition sample_trace :: "(exec_op \<times> event list) list" where
  "sample_trace = snd (projr (exec_run sample_ops sample_start))"

lemma sample_root: "root_pid sample_start = 100"
  by (simp add: sample_start_def add_initial_process_def Let_def)

lemma exec_run_trace_projr:
  assumes "\<not> isl (exec_run ops st)" "\<forall>op \<in> set ops. fresh_pid (root_pid st) op"
  shows "exec_trace st (snd (projr (exec_run ops st))) (fst (projr (exec_run ops st)))"
  using assms by (cases "exec_run ops st") (auto intro: exec_run_trace)

lemma sample_runs: "exec_trace sample_start sample_trace sample_end"
proof -
  have "\<not> isl (exec_run sample_ops sample_start)"
    by code_simp
  then show ?thesis
    unfolding sample_trace_def sample_end_def
    by (rule exec_run_trace_projr) (simp add: sample_ops_def sample_root)
qed

lemma metadata_value_command [simp]:
  "metadata_value (e\<lparr>ev_command_id := c\<rparr>) k d = metadata_value e k d"
  by (simp add: metadata_value_def)

lemma metadata_value_emit [simp]: "metadata_value (emit_event st e) k d = metadata_value e k d"
  by (simp add: metadata_value_def)

lemma fork_event_data [simp]:
  "resource (fork_event p pt ct ev ts) = show_int ct"
  "metadata_value (fork_event p pt ct ev ts) ''kind'' d = child_kind ev"
  "metadata_value (fork_event p pt ct ev ts) ''child_pid'' d = show_int ct"
  "metadata_value (fork_event p pt ct ev ts) ''executable'' d = executable p"
  by (simp_all add: fork_event_def)

lemma recording_bracket_run:
  assumes "add_initial_process empty_execution pid dir root_command ts = (st0, evs0)"
    and "exec_trace st0 tr st"
  shows "bracket_run None (brackets (evs0 @ trace_events tr)) = Some (open_of (phase_of st))"
proof -
  have inv: "exec_inv st0"
    using exec_inv_add_initial[of pid dir root_command ts] assms(1) by simp
  have "bracket_run None (brackets evs0) = Some (open_of (phase_of st0))"
    using assms(1)
    by (auto simp: add_initial_process_def phase_of_def empty_execution_def Let_def
        split: option.splits)
  with exec_trace_brackets[OF assms(2) inv] show ?thesis
    by (simp add: bracket_run_append)
qed

section \<open>Properties\<close>

text \<open>
  C1. In every recording, from the first callback on, the command_start and
  command_end events form well-nested brackets: two commands never overlap, and a command_end
  carries the id of the command that is open. What is left open at the end is the command
  that the state says is running.
\<close>

theorem recording_brackets:
  assumes "add_initial_process empty_execution pid dir root_command ts = (st0, evs0)"
    and "exec_trace st0 tr st"
  shows "bracket_run None (brackets (evs0 @ trace_events tr)) = Some (open_of (phase_of st))"
  using assms by (rule recording_bracket_run)

theorem recording_brackets_witness:
  "bracket_run None (brackets (trace_events sample_trace)) =
     Some (open_of (phase_of sample_end))"
proof -
  have "add_initial_process empty_execution 100 ''/'' None 1 = (sample_start, [])"
    by (simp add: sample_start_def add_initial_process_def Let_def)
  from recording_brackets[OF this sample_runs] show ?thesis by simp
qed

text \<open>
  C2. Every callback of the collector is a step of the abstract
  command machine (idle, armed, running): the brackets that the callback emits and the phases
  before and after it are those of one rule of that machine.
\<close>

theorem callbacks_refine_commands:
  assumes "exec_step st op evs st'" "exec_inv st"
  shows "phase_step (phase_of st) (brackets evs) (phase_of st')"
  using assms by (rule exec_step_phase)

theorem callbacks_refine_commands_witness:
  "phase_step (phase_of sample_start) [] (Armed 1)"
proof -
  let ?m = "sample_marker Arm"
  let ?r = "on_command_marker sample_start 100 ?m 2"
  have r: "\<not> isl ?r" "phase_of (fst (projr ?r)) = Armed 1" "brackets (snd (projr ?r)) = []"
    by code_simp+
  then have "exec_step sample_start (Marker 100 ?m 2) (snd (projr ?r)) (fst (projr ?r))"
    by (intro exec_step.marker) (cases ?r; simp)
  moreover have "exec_inv sample_start"
    unfolding sample_start_def by (rule exec_inv_add_initial)
  ultimately have "phase_step (phase_of sample_start) (brackets (snd (projr ?r)))
      (phase_of (fst (projr ?r)))"
    by (rule callbacks_refine_commands)
  with r show ?thesis by simp
qed

text \<open>
  C18. A marker of the root shell is accepted exactly in the phase it belongs
  to: arm when no command is, start when this id is armed, end when this id is running. In
  every other phase the callback throws, with the message of the marker's kind.
\<close>

theorem markers_accepted:
  assumes "exec_inv st" "process_for_thread st tid = root_pid st"
  shows "(\<exists>st' evs. on_command_marker st tid m ts = Inr (st', evs)) \<longleftrightarrow>
     (case cm_type m of
        Arm \<Rightarrow> phase_of st = Idle
      | Start \<Rightarrow> phase_of st = Armed (cm_id m)
      | End \<Rightarrow> phase_of st = Running (cm_id m))"
proof -
  obtain r where r: "processes st (root_pid st) = Some r"
      "p_command_id r = map_option ac_id (active_command st)"
    using assms(1) by (auto simp: exec_inv_def)
  then have "find_process_for_thread st tid = Some r" "p_pid r = root_pid st"
    using assms by (auto simp: find_process_for_thread_def exec_inv_def)
  with r(2) show ?thesis
    by (cases "active_command st"; cases "cm_type m")
      (auto simp: on_command_marker_def phase_of_def Let_def)
qed

theorem markers_accepted_witness:
  "(\<exists>st' evs. on_command_marker sample_start 100 (sample_marker Arm) 2 = Inr (st', evs)) \<and>
   \<not> (\<exists>st' evs. on_command_marker sample_start 100 (sample_marker Start) 2 = Inr (st', evs))"
proof -
  have inv: "exec_inv sample_start"
    unfolding sample_start_def by (rule exec_inv_add_initial)
  have "process_for_thread sample_start 100 = root_pid sample_start"
    "phase_of sample_start = Idle" "cm_type (sample_marker t) = t" for t
    by (simp_all add: sample_start_def add_initial_process_def Let_def process_for_thread_def
        phase_of_def empty_execution_def sample_marker_def)
  with markers_accepted[OF inv, of 100] show ?thesis by simp
qed



text \<open>
  A created process (a fork, a vfork or a clone without CLONE_THREAD) starts
  with its parent's working directory, executable, descriptors and command, is its own main
  thread, and no other process of the table changes; the fork event names the child, its
  kind and the parent's command.
\<close>

theorem fork_inherits:
  assumes "find_process_for_thread st parent_tid = Some p"
    and "\<not> is_thread_creation ev flags"
    and "on_process_created st parent_tid child_tid ev flags ts = (st', evs)"
  shows "processes st' =
      (processes st)(child_tid \<mapsto> p\<lparr>p_pid := child_tid, parent_pid := p_pid p\<rparr>) \<and>
    process_for_thread st' child_tid = child_tid \<and>
    (\<exists>e. evs = [e] \<and> ev_type e = ProcessFork \<and> ev_pid e = p_pid p \<and>
       ev_result e = child_tid \<and> resource e = show_int child_tid \<and>
       metadata_value e ''kind'' [] = child_kind ev \<and>
       metadata_value e ''child_pid'' [] = show_int child_tid \<and>
       (p_command_id p \<noteq> None \<longrightarrow> ev_command_id e = p_command_id p))"
proof -
  have st': "st' = mark_first_process
      (insert_process st child_tid (p\<lparr>p_pid := child_tid, parent_pid := p_pid p\<rparr>)) (p_pid p) ts"
    using on_process_created_state[of st parent_tid child_tid ev flags ts] assms by simp
  moreover have "\<exists>s. evs = [emit_event s (fork_event p parent_tid child_tid ev ts)]"
    using on_process_created_events[of st parent_tid child_tid ev flags ts] assms by auto
  ultimately show ?thesis
    by (auto simp: process_for_thread_def)
qed

theorem fork_inherits_witness:
  "map_option cwd (processes (fst (on_process_created sample_start 100 101 1 0 3)) 101) =
     Some ''/''"
proof -
  obtain p where p: "find_process_for_thread sample_start 100 = Some p" "cwd p = ''/''"
    by (simp add: sample_start_def add_initial_process_def Let_def find_process_for_thread_def
        process_for_thread_def)
  have "\<not> is_thread_creation 1 0"
    by (simp add: is_thread_creation_def)
  from fork_inherits[OF p(1) this, of 101 3] p(2) show ?thesis
    by (cases "on_process_created sample_start 100 101 1 0 3") simp
qed

text \<open>
  When the root shell itself exits, a running command is closed: its
  command_end carries the command's id and the shell's result (the exit code, or 128 plus the
  signal that killed it); an armed command that never started leaves no bracket and no event
  is charged to it. Afterwards no command is active.
\<close>

theorem shell_exit_ends_command:
  assumes "exec_inv st" "process_for_thread st tid = tid" "tid = root_pid st"
    and "on_process_exit st tid ec sg ts = (st', evs)"
  shows "phase_of st' = Idle \<and>
    brackets evs = (case phase_of st of Running i \<Rightarrow> [Closes (Some i)] | _ \<Rightarrow> []) \<and>
    (\<forall>e \<in> set evs. ev_result e = exit_result ec sg \<and> timestamp_ns e = ts) \<and>
    ((\<exists>i. phase_of st = Armed i) \<longrightarrow> (\<forall>e \<in> set evs. ev_command_id e = None))"
proof -
  obtain r where r: "processes st (root_pid st) = Some r"
      "p_command_id r = map_option ac_id (active_command st)"
    using assms(1) by (auto simp: exec_inv_def)
  then have p: "find_process_for_thread st tid = Some r" "p_pid r = root_pid st"
    using assms by (auto simp: find_process_for_thread_def exec_inv_def)
  have "st' = after_exit st tid r"
    using on_process_exit_state[OF assms(1) assms(2)[symmetric] p(1), of ec sg ts] assms(4)
    by simp
  then have idle: "phase_of st' = Idle"
    using p(2) by (simp add: after_exit_def phase_of_def)
  define s where "s = put_process st tid (r\<lparr>p_command_id := None\<rparr>)"
  have s: "ev_command_id (emit_event s (exit_event r tid ec sg ts)) = None"
    using assms(2) by (simp add: s_def emit_event_def find_process_for_thread_def)
  have evs: "evs = (if command_started st then
       [emit_event (put_process st tid r) (exit_event r tid ec sg ts),
        command_end_event r tid ec sg ts]
     else [emit_event s (exit_event r tid ec sg ts)])"
    using on_process_exit_root_events[OF assms(1) assms(2)[symmetric] p, of ec sg ts] assms(4)
    by (simp add: s_def)
  show ?thesis
    using idle s r(2)
    by (cases "active_command st") (auto simp: evs phase_of_def command_started_def)
qed

theorem shell_exit_ends_command_witness:
  "brackets (snd (on_process_exit (fst (add_initial_process empty_execution 100 ''/''
       (Some ''ls'') 1)) 100 0 9 5)) = [Closes (Some 1)]"
proof -
  let ?st = "fst (add_initial_process empty_execution 100 ''/'' (Some ''ls'') 1)"
  have "process_for_thread ?st 100 = 100" "100 = root_pid ?st" "phase_of ?st = Running 1"
    by (simp_all add: add_initial_process_def Let_def process_for_thread_def phase_of_def)
  moreover obtain st' evs where "on_process_exit ?st 100 0 9 5 = (st', evs)"
    by fastforce
  ultimately show ?thesis
    using shell_exit_ends_command[of ?st 100 0 9 5 st' evs] exec_inv_add_initial
    by (simp del: fst_conv)
qed

end
