(* ===== verification/Exec_Files.thy ===== *)
theory Exec_Files
  imports Exec_Machine
begin

text \<open>
  What the execution state knows about files: which path a descriptor stands for, where a
  relative path leads, and that a syscall of one process touches no other process.
\<close>

section \<open>Descriptors\<close>

definition returns_descriptor :: "raw_syscall \<Rightarrow> bool" where
  "returns_descriptor sc \<longleftrightarrow>
     0 \<le> sc_result sc \<and>
     sc_number sc \<in> {nr_open, nr_openat, nr_openat2, nr_dup, nr_dup2, nr_dup3, nr_socket}"

definition touches_fd :: "raw_syscall \<Rightarrow> int \<Rightarrow> bool" where
  "touches_fd sc fd \<longleftrightarrow>
     (returns_descriptor sc \<and> to_int32 (sc_result sc) = fd) \<or>
     (sc_number sc = nr_close \<and> sc_result sc = 0 \<and> arg_int (a0 (sc_args sc)) = fd)"

lemma syscall_effect_keeps_file:
  assumes "syscall_effect h p sc = (p', evs)" "\<not> touches_fd sc fd"
    and "fd_table p fd = Some r" "res_type r = File"
  shows "fd_table p' fd = Some r"
  using assms
  by (auto simp: syscall_effect_def sys_defs Let_def touches_fd_def returns_descriptor_def
      split: if_splits option.splits)

text \<open>The syscalls of one process, in order.\<close>

fun syscalls_run ::
  "(host \<times> raw_syscall) list \<Rightarrow> process_state \<Rightarrow> process_state \<times> event list" where
  "syscalls_run [] p = (p, [])"
| "syscalls_run ((h, sc) # rest) p =
     (let (p', evs) = syscall_effect h p sc; (q, evs') = syscalls_run rest p' in
      (q, evs @ evs'))"

lemma syscalls_run_keeps_file:
  assumes "syscalls_run scs p = (q, evs)" "\<forall>(h, sc) \<in> set scs. \<not> touches_fd sc fd"
    and "fd_table p fd = Some r" "res_type r = File"
  shows "fd_table q fd = Some r"
  using assms
proof (induction scs arbitrary: p evs)
  case Nil
  then show ?case by simp
next
  case (Cons x scs)
  obtain h sc where x: "x = (h, sc)" by (cases x)
  obtain p' es where e: "syscall_effect h p sc = (p', es)" by fastforce
  obtain es' where r: "syscalls_run scs p' = (q, es')"
    using Cons.prems(1) x e by (auto split: prod.splits)
  have "fd_table p' fd = Some r"
    using syscall_effect_keeps_file[OF e _ Cons.prems(3,4)] Cons.prems(2) x by auto
  then show ?case
    using Cons.IH[OF r] Cons.prems by auto
qed

lemma syscall_effect_open:
  assumes "syscall_effect h p sc = (p', evs)" "0 \<le> sc_result sc"
    and "sc_number sc = nr_open \<or> sc_number sc = nr_openat \<or> sc_number sc = nr_openat2"
  shows "\<exists>e r. evs = [e] \<and> ev_type e = FileOpen \<and> res_type r = File \<and>
           res_name r = resource e \<and> fd_table p' (to_int32 (sc_result sc)) = Some r"
  using assms
  by (auto simp: syscall_effect_def sys_open_def sys_openat_def Let_def nr_defs split: if_splits)

lemma syscall_effect_read_write:
  assumes "sc_number sc = nr_read \<or> sc_number sc = nr_write"
    and "fd_table p (arg_int (a0 (sc_args sc))) = Some r" "res_type r = File"
  shows "\<exists>e. syscall_effect h p sc = (p, [e]) \<and> resource e = res_name r \<and>
           ev_type e = (if sc_number sc = nr_read then FileRead else FileWrite) \<and>
           ev_result e = sc_result sc"
  using assms
  by (auto simp: syscall_effect_def sys_read_write_def Let_def nr_defs)

lemma syscall_effect_untracked:
  assumes "sc_number sc = nr_read \<or> sc_number sc = nr_write"
    and "\<And>r. fd_table p (arg_int (a0 (sc_args sc))) = Some r \<Longrightarrow> res_type r \<noteq> File"
  shows "syscall_effect h p sc = (p, [])"
  using assms
  by (auto simp: syscall_effect_def sys_read_write_def Let_def nr_defs split: option.splits)

section \<open>Isolation\<close>

lemma on_syscall_exit_other_process:
  assumes "on_syscall_exit h st sc = (st', evs)" "k \<noteq> process_for_thread st (sc_tid sc)"
  shows "processes st' k = processes st k"
  using assms by (auto simp: on_syscall_exit_def split: option.splits prod.splits)

section \<open>Where a path leads\<close>

definition canonical_path :: "string \<Rightarrow> bool" where
  "canonical_path p \<longleftrightarrow>
     is_absolute p \<and> p = slash # join_slash (path_comps p) \<and>
     (\<forall>w \<in> set (path_comps p). w \<noteq> dot \<and> w \<noteq> dotdot)"

lemma canonical_normalize:
  assumes "is_absolute p"
  shows "canonical_path (normalize_path p)"
  unfolding canonical_path_def normalize_path_absolute_comps[OF assms]
  using normalize_path_is_absolute[OF assms] normalize_path_absolute[OF assms]
    norm_comps_abs_no_dots[of _ "path_comps p"]
  by blast

lemma normalize_canonical: "canonical_path p \<Longrightarrow> normalize_path p = p"
  using norm_comps_id[of "path_comps p" True]
  by (simp add: canonical_path_def normalize_path_absolute)

lemma walk_canonical: "canonical_path p \<Longrightarrow> walk [] (path_comps p) = path_comps p"
  using norm_comps_id[of "path_comps p" True]
  by (simp add: canonical_path_def norm_comps_walk)

definition start_of :: "string \<Rightarrow> string \<Rightarrow> string list" where
  "start_of dir path = (if is_absolute path then [] else path_comps dir)"

lemma normalize_append_walk:
  assumes "canonical_path dir" "path \<noteq> []" "\<not> is_absolute path"
  shows "canonical_path (normalize_path (path_append dir path))"
    and "path_comps (normalize_path (path_append dir path)) =
           walk (path_comps dir) (path_comps path)"
proof -
  have abs: "is_absolute (path_append dir path)"
    using assms(1) path_append_is_absolute by (simp add: canonical_path_def)
  then show "canonical_path (normalize_path (path_append dir path))"
    by (rule canonical_normalize)
  show "path_comps (normalize_path (path_append dir path)) =
      walk (path_comps dir) (path_comps path)"
    using abs assms
    by (simp add: normalize_path_absolute_comps path_append_comps norm_comps_walk walk_append
        walk_canonical)
qed

lemma normalize_absolute_walk:
  assumes "is_absolute path"
  shows "canonical_path (normalize_path path)"
    and "path_comps (normalize_path path) = walk [] (path_comps path)"
  using assms canonical_normalize
  by (simp_all add: normalize_path_absolute_comps norm_comps_walk)

lemma resolve_path_cwd:
  assumes "canonical_path (cwd p)" "path \<noteq> []"
  shows "canonical_path (resolve_path p AT_FDCWD path) \<and>
         path_comps (resolve_path p AT_FDCWD path) =
           walk (start_of (cwd p) path) (path_comps path)"
  using assms normalize_append_walk normalize_absolute_walk
  by (simp add: resolve_path_def start_of_def)

lemma resolve_path_dirfd:
  assumes "fd_table p dirfd = Some r" "res_type r = File" "is_directory r"
    and "canonical_path (res_name r)" "path \<noteq> []" "dirfd \<noteq> AT_FDCWD"
  shows "canonical_path (resolve_path p dirfd path) \<and>
         path_comps (resolve_path p dirfd path) =
           walk (start_of (res_name r) path) (path_comps path)"
  using assms normalize_append_walk normalize_absolute_walk
  by (simp add: resolve_path_def start_of_def)

text \<open>A run of successful \<open>chdir\<close> calls walks the tree.\<close>

definition is_chdir :: "raw_syscall \<Rightarrow> bool" where
  "is_chdir sc \<longleftrightarrow> sc_number sc = nr_chdir \<and> sc_result sc = 0"

definition chdir_target :: "host \<Rightarrow> raw_syscall \<Rightarrow> string" where
  "chdir_target h sc = read_string h (sc_tid sc) (a0 (sc_args sc))"

lemma chdir_effect:
  assumes "is_chdir sc" "chdir_target h sc \<noteq> []"
  shows "syscall_effect h p sc =
     (p\<lparr>cwd := resolve_path p AT_FDCWD (chdir_target h sc)\<rparr>, [])"
  using assms
  by (simp add: is_chdir_def chdir_target_def syscall_effect_def sys_chdir_def nr_defs Let_def)

definition walk_to :: "string list \<Rightarrow> string \<Rightarrow> string list" where
  "walk_to names path = walk (if is_absolute path then [] else names) (path_comps path)"

lemma chdir_run:
  assumes "canonical_path (cwd p)"
    and "\<forall>(h, sc) \<in> set scs. is_chdir sc \<and> chdir_target h sc \<noteq> []"
    and "syscalls_run scs p = (q, evs)"
  shows "canonical_path (cwd q) \<and>
     path_comps (cwd q) =
       foldl walk_to (path_comps (cwd p)) (map (\<lambda>(h, sc). chdir_target h sc) scs)"
  using assms
proof (induction scs arbitrary: p evs)
  case Nil
  then show ?case by simp
next
  case (Cons x scs)
  obtain h sc where x: "x = (h, sc)" by (cases x)
  let ?t = "chdir_target h sc"
  let ?p = "p\<lparr>cwd := resolve_path p AT_FDCWD ?t\<rparr>"
  have e: "syscall_effect h p sc = (?p, [])" and t: "?t \<noteq> []"
    using chdir_effect Cons.prems(2) x by auto
  obtain es where r: "syscalls_run scs ?p = (q, es)"
    using Cons.prems(3) x e by (auto split: prod.splits)
  have "canonical_path (cwd ?p)" "path_comps (cwd ?p) = walk_to (path_comps (cwd p)) ?t"
    using resolve_path_cwd[OF Cons.prems(1) t] by (simp_all add: walk_to_def start_of_def)
  then show ?case
    using Cons.IH[OF _ _ r] Cons.prems(2) x by simp
qed

section \<open>Properties\<close>

lemma canonical_eq: "canonical_path p \<Longrightarrow> path_comps p = ws \<Longrightarrow> p = slash # join_slash ws"
  by (metis canonical_path_def)

text \<open>
  C20. After an open, openat or openat2 that returned a descriptor, every read or
  write through that descriptor is recorded under the path the open was recorded under, after
  any further syscalls of the process, as long as none of them returns or closes the same
  descriptor.
\<close>

theorem reads_name_opened_file:
  assumes "syscall_effect h p opened = (p1, oevs)" "0 \<le> sc_result opened"
    and "sc_number opened \<in> {nr_open, nr_openat, nr_openat2}"
    and "syscalls_run scs p1 = (p2, evs)"
    and "\<forall>(h, sc) \<in> set scs. \<not> touches_fd sc (to_int32 (sc_result opened))"
    and "sc_number sc \<in> {nr_read, nr_write}"
    and "arg_int (a0 (sc_args sc)) = to_int32 (sc_result opened)"
  shows "\<exists>oe e. oevs = [oe] \<and> ev_type oe = FileOpen \<and> snd (syscall_effect h' p2 sc) = [e] \<and>
     resource e = resource oe \<and> ev_result e = sc_result sc \<and>
     ev_type e = (if sc_number sc = nr_read then FileRead else FileWrite)"
proof -
  obtain oe r where o: "oevs = [oe]" "ev_type oe = FileOpen" "res_type r = File"
      "res_name r = resource oe" "fd_table p1 (to_int32 (sc_result opened)) = Some r"
    using syscall_effect_open[OF assms(1,2)] assms(3) by auto
  then have "fd_table p2 (arg_int (a0 (sc_args sc))) = Some r"
    using syscalls_run_keeps_file[OF assms(4,5)] assms(7) by simp
  with o show ?thesis
    using syscall_effect_read_write[of sc p2 r h'] assms(6) by auto
qed

definition sample_syscall :: "int \<Rightarrow> u64 \<Rightarrow> int \<Rightarrow> raw_syscall" where
  "sample_syscall nr arg result =
     \<lparr>sc_pid = 100, sc_tid = 100, sc_number = nr,
      sc_args = \<lparr>a0 = arg, a1 = 0, a2 = 0, a3 = 0, a4 = 0, a5 = 0\<rparr>, sc_result = result,
      sc_timestamp_ns = 1\<rparr>"

theorem reads_name_opened_file_witness:
  "map resource (snd (syscalls_run
     [(plain_host, sample_syscall nr_open 4096 3), (plain_host, sample_syscall nr_socket 2 4),
      (plain_host, sample_syscall nr_read 3 10)] empty_process)) =
   [''/etc/hosts'', ''/etc/hosts'']"
proof -
  define o1 where "o1 = sample_syscall nr_open 4096 3"
  define o2 where "o2 = sample_syscall nr_socket 2 4"
  define o3 where "o3 = sample_syscall nr_read 3 10"
  obtain p1 oevs where s1: "syscall_effect plain_host empty_process o1 = (p1, oevs)" by fastforce
  obtain p2 evs where s2: "syscalls_run [(plain_host, o2)] p1 = (p2, evs)" by fastforce
  have k: "sc_number o1 = nr_open" "sc_result o1 = 3" "sc_number o2 = nr_socket"
    "sc_result o2 = 4" "sc_number o3 = nr_read" "a0 (sc_args o3) = 3"
    by (simp_all add: o1_def o2_def o3_def sample_syscall_def)
  have fd: "to_int32 3 = 3" "to_int32 4 = 4" "arg_int 3 = 3"
    by code_simp+
  have r1: "map resource oevs = [''/etc/hosts'']"
  proof -
    have "map resource (snd (syscall_effect plain_host empty_process o1)) = [''/etc/hosts'']"
      unfolding o1_def by code_simp
    with s1 show ?thesis by simp
  qed
  have "evs = []"
    using s2 k by (auto simp: syscall_effect_def sys_socket_def nr_defs Let_def)
  moreover have "\<forall>(h, sc) \<in> set [(plain_host, o2)]. \<not> touches_fd sc (to_int32 (sc_result o1))"
    using k fd by (simp add: touches_fd_def nr_defs)
  ultimately show ?thesis
    using reads_name_opened_file[OF s1 _ _ s2, of o3 plain_host] k fd r1 s1 s2
    unfolding o1_def[symmetric] o2_def[symmetric] o3_def[symmetric]
    by (auto split: prod.splits)
qed

text \<open>
  A syscall of one process changes neither the working directory nor the descriptors
  nor anything else of another process, nor the thread table, the active command or the root;
  every event it emits is the process's own.
\<close>

theorem processes_isolated:
  assumes "on_syscall_exit h st sc = (st', evs)" "exec_inv st"
  shows "(\<forall>k. k \<noteq> process_for_thread st (sc_tid sc) \<longrightarrow> processes st' k = processes st k) \<and>
    thread_to_process st' = thread_to_process st \<and> active_command st' = active_command st \<and>
    root_pid st' = root_pid st \<and>
    (\<forall>e \<in> set evs. ev_pid e = process_for_thread st (sc_tid sc) \<and> ev_tid e = sc_tid sc)"
proof -
  have "ev_pid e = process_for_thread st (sc_tid sc) \<and> ev_tid e = sc_tid sc"
    if e: "e \<in> set evs" for e
  proof -
    obtain p p' fs f where p: "find_process_for_thread st (sc_tid sc) = Some p"
        "syscall_effect h p sc = (p', fs)" "f \<in> set fs" "e = emit_event st f"
      using assms(1) e by (auto simp: on_syscall_exit_def split: option.splits prod.splits)
    then show ?thesis
      using syscall_effect_events[OF p(2,3)] find_process_pid[OF assms(2) p(1)] by simp
  qed
  then show ?thesis
    using on_syscall_exit_other_process[OF assms(1)] syscall_state[OF assms(1)] by blast
qed

theorem processes_isolated_witness:
  "processes (fst (on_syscall_exit plain_host sample_start (sample_syscall nr_open 4096 3))) 7 =
     processes sample_start 7"
proof -
  have inv: "exec_inv sample_start"
    unfolding sample_start_def by (rule exec_inv_add_initial)
  have "process_for_thread sample_start (sc_tid (sample_syscall nr_open 4096 3)) = 100"
    by code_simp
  with processes_isolated[OF prod.collapse[symmetric] inv] show ?thesis by simp
qed


definition sample_dir_host :: "string \<Rightarrow> host" where
  "sample_dir_host dir = plain_host\<lparr>read_string_at := (\<lambda>_ _ _. dir)\<rparr>"


text \<open>
  A path argument that is resolved against the working directory, or against a
  descriptor that is a directory, becomes the canonical path that the walk along its
  components reaches from there (from the root, if it is absolute).
\<close>

theorem resolve_path_walks:
  assumes "path \<noteq> []" "canonical_path base"
    and "(dirfd = AT_FDCWD \<and> cwd p = base) \<or>
      (\<exists>r. dirfd \<noteq> AT_FDCWD \<and> fd_table p dirfd = Some r \<and> res_type r = File \<and>
        is_directory r \<and> res_name r = base)"
  shows "canonical_path (resolve_path p dirfd path) \<and>
    path_comps (resolve_path p dirfd path) = walk (start_of base path) (path_comps path)"
  using assms resolve_path_cwd[of p path] resolve_path_dirfd[of p dirfd _ path] by auto

theorem resolve_path_walks_witness:
  "resolve_path (empty_process\<lparr>cwd := ''/a/b''\<rparr>) AT_FDCWD ''../c//d/.'' = ''/a/c/d''"
proof -
  let ?p = "empty_process\<lparr>cwd := ''/a/b''\<rparr>"
  have c: "canonical_path ''/a/b''"
    by code_simp
  have "walk (start_of ''/a/b'' ''../c//d/.'') (path_comps ''../c//d/.'') =
      [''a'', ''c'', ''d'']"
    by code_simp
  with resolve_path_walks[OF _ c, of "''../c//d/.''" AT_FDCWD ?p]
  have "canonical_path (resolve_path ?p AT_FDCWD ''../c//d/.'')"
    "path_comps (resolve_path ?p AT_FDCWD ''../c//d/.'') = [''a'', ''c'', ''d'']"
    by simp_all
  then have "resolve_path ?p AT_FDCWD ''../c//d/.'' = slash # join_slash [''a'', ''c'', ''d'']"
    by (rule canonical_eq)
  then show ?thesis by (simp add: slash_def)
qed

end
