(* ===== verification/Collector_Types.thy ===== *)
theory Collector_Types
  imports Prelude
begin

text \<open>
  The data that the collector, the session and the store exchange
  (\<open>include/whyrun/collector.hpp\<close>, \<open>include/whyrun/store.hpp\<close>).
\<close>

record collection_result =
  collector_ok :: bool
  exit_code :: int
  term_signal :: int
  end_ns :: u64
  collect_error :: string

definition initial_result :: collection_result where
  "initial_result = \<lparr>collector_ok = False, exit_code = - 1, term_signal = 0, end_ns = 0,
     collect_error = []\<rparr>"

record collection_request =
  command :: "string list"
  environment :: "(string \<times> string) list"
  root_command :: "string option"
  command_channel_fd :: "int option"

datatype run_mode = Command | Session

fun run_mode_name :: "run_mode \<Rightarrow> string" where
  "run_mode_name Command = ''command''"
| "run_mode_name Session = ''session''"

lemma run_mode_name_inject [simp]: "run_mode_name a = run_mode_name b \<longleftrightarrow> a = b"
  by (cases a; cases b; simp)

record run_metadata =
  rm_id :: string
  rm_mode :: run_mode
  rm_command :: "string list"
  rm_cwd :: string
  rm_start_ns :: u64

end
