(* ===== verification/Bash_Hooks.thy ===== *)
theory Bash_Hooks
  imports Marker_Protocol Collector_Types
begin

text \<open>
  The writer's side of the marker protocol: the two shell functions that \<open>BashSession\<close> puts
  into the environment of the recorded Bash (\<open>kStartFunction\<close>, run by the DEBUG trap, and
  \<open>kPromptFunction\<close>, run by PROMPT\_COMMAND; \<open>src/bash_session.cpp\<close>), and the request that
  starts the shell. The shell variables are a record, what \<open>printf\<close> and \<open>history 1\<close> write to
  the context descriptor is the output. What \<open>history 1\<close> prints is Bash's and a parameter.
\<close>

section \<open>The shell functions\<close>

record hook_state =
  skip_debug :: nat
  at_prompt :: bool
  sequence :: nat
  active_id :: nat

text \<open>The values the request's environment starts the shell with.\<close>

definition initial_hooks :: hook_state where
  "initial_hooks = \<lparr>skip_debug = 0, at_prompt = False, sequence = 0, active_id = 0\<rparr>"

definition start_function :: "string \<Rightarrow> string \<Rightarrow> hook_state \<Rightarrow> hook_state \<times> string" where
  "start_function pwd history s =
     (if 0 < skip_debug s then (s\<lparr>skip_debug := skip_debug s - 1\<rparr>, [])
      else if at_prompt s then
        (s\<lparr>at_prompt := False\<rparr>,
         encode_fields [''S'', show_nat (active_id s), pwd] @ history @ [nul])
      else (s, []))"

definition prompt_function :: "int \<Rightarrow> string \<Rightarrow> hook_state \<Rightarrow> hook_state \<times> string" where
  "prompt_function command_status pwd s =
     (let ended = (if 0 < active_id s then
                     encode_fields [''E'', show_nat (active_id s), show_int command_status, pwd]
                   else []);
          n = sequence s + 1 in
      (s\<lparr>sequence := n, active_id := n, at_prompt := True, skip_debug := 1\<rparr>,
       ended @ encode_fields [''A'', show_nat n, pwd, []]))"

datatype hook_call =
    Prompt_hook int string
  | Debug_hook string string

fun hook_step :: "hook_call \<Rightarrow> hook_state \<Rightarrow> hook_state \<times> string" where
  "hook_step (Prompt_hook command_status pwd) s = prompt_function command_status pwd s"
| "hook_step (Debug_hook pwd history) s = start_function pwd history s"

fun hook_run :: "hook_call list \<Rightarrow> hook_state \<Rightarrow> hook_state \<times> string" where
  "hook_run [] s = (s, [])"
| "hook_run (c # cs) s =
     (let (s', out) = hook_step c s; (s'', out') = hook_run cs s' in (s'', out @ out'))"

lemma hook_run_append:
  "hook_run (cs @ ds) s =
     (let (s', out) = hook_run cs s; (s'', out') = hook_run ds s' in (s'', out @ out'))"
  by (induction cs arbitrary: s) (simp_all add: Let_def split: prod.splits)

section \<open>The collection request of a session\<close>

text \<open>
  The texts of the two functions, which the environment passes to Bash, and \<open>BashSession()\<close>:
  the results of \<open>open\<close> and \<open>fcntl(F_DUPFD)\<close> are arguments (an errno or a descriptor).
\<close>

definition kStartFunction :: string where
  "kStartFunction = join_lines
     [''() {'',
      ''    local command_status='' @ [CHR 0x22] @ ''$1'' @ [CHR 0x22],
      ''    if (( __whyrun_skip_debug > 0 )); then'',
      ''        __whyrun_skip_debug=$((__whyrun_skip_debug - 1))'',
      ''        return '' @ [CHR 0x22] @ ''$command_status'' @ [CHR 0x22],
      ''    fi'',
      ''    if (( __whyrun_at_prompt )); then'',
      ''        __whyrun_at_prompt=0'',
      ''        builtin printf '' @ [CHR 0x27] @ ''S'' @ [CHR 0x5C] @ ''0%s''
         @ [CHR 0x5C] @ ''0%s'' @ [CHR 0x5C] @ ''0'' @ [CHR 0x27] @ '' '' @ [CHR 0x5C],
      ''            '' @ [CHR 0x22] @ ''$__whyrun_active_command'' @ [CHR 0x22] @ '' ''
         @ [CHR 0x22] @ ''$PWD'' @ [CHR 0x22] @ '' >&'' @ [CHR 0x22]
         @ ''$WHYRUN_CONTEXT_FD'' @ [CHR 0x22],
      ''        HISTTIMEFORMAT=$'' @ [CHR 0x27, CHR 0x5C] @ ''034'' @ [CHR 0x27]
         @ '' builtin history 1 >&'' @ [CHR 0x22] @ ''$WHYRUN_CONTEXT_FD'' @ [CHR 0x22],
      ''        builtin printf '' @ [CHR 0x27, CHR 0x5C] @ ''0'' @ [CHR 0x27] @ '' >&''
         @ [CHR 0x22] @ ''$WHYRUN_CONTEXT_FD'' @ [CHR 0x22],
      ''    fi'',
      ''    return '' @ [CHR 0x22] @ ''$command_status'' @ [CHR 0x22],
      ''}'']"

definition kPromptFunction :: string where
  "kPromptFunction = join_lines
     [''() {'',
      ''    local command_status='' @ [CHR 0x22] @ ''$1'' @ [CHR 0x22],
      ''    builtin trap - DEBUG'',
      ''    if (( __whyrun_active_command > 0 )); then'',
      ''        builtin printf '' @ [CHR 0x27] @ ''E'' @ [CHR 0x5C] @ ''0%s''
         @ [CHR 0x5C] @ ''0%s'' @ [CHR 0x5C] @ ''0%s'' @ [CHR 0x5C] @ ''0'' @ [CHR 0x27]
         @ '' '' @ [CHR 0x5C],
      ''            '' @ [CHR 0x22] @ ''$__whyrun_active_command'' @ [CHR 0x22] @ '' ''
         @ [CHR 0x22] @ ''$command_status'' @ [CHR 0x22] @ '' '' @ [CHR 0x22] @ ''$PWD''
         @ [CHR 0x22] @ '' '' @ [CHR 0x5C],
      ''            >&'' @ [CHR 0x22] @ ''$WHYRUN_CONTEXT_FD'' @ [CHR 0x22],
      ''        __whyrun_active_command=0'',
      ''    fi'',
      ''    __whyrun_sequence=$((__whyrun_sequence + 1))'',
      ''    __whyrun_active_command=$__whyrun_sequence'',
      ''    builtin printf '' @ [CHR 0x27] @ ''A'' @ [CHR 0x5C] @ ''0%s'' @ [CHR 0x5C]
         @ ''0%s'' @ [CHR 0x5C] @ ''0'' @ [CHR 0x5C] @ ''0'' @ [CHR 0x27] @ '' ''
         @ [CHR 0x5C],
      ''        '' @ [CHR 0x22] @ ''$__whyrun_active_command'' @ [CHR 0x22] @ '' ''
         @ [CHR 0x22] @ ''$PWD'' @ [CHR 0x22] @ '' >&'' @ [CHR 0x22]
         @ ''$WHYRUN_CONTEXT_FD'' @ [CHR 0x22],
      ''    __whyrun_at_prompt=1'',
      ''    __whyrun_skip_debug=1'',
      ''    builtin trap '' @ [CHR 0x27] @ ''__whyrun_start '' @ [CHR 0x22] @ ''$?''
         @ [CHR 0x22, CHR 0x27] @ '' DEBUG'',
      ''    return '' @ [CHR 0x22] @ ''$command_status'' @ [CHR 0x22],
      ''}'']"

definition session_environment :: "int \<Rightarrow> (string \<times> string) list" where
  "session_environment context_fd =
     [(''BASH_FUNC___whyrun_start%%'', kStartFunction),
      (''BASH_FUNC___whyrun_prompt%%'', kPromptFunction),
      (''PROMPT_COMMAND'', ''__whyrun_prompt '' @ [CHR 0x22] @ ''$?'' @ [CHR 0x22]),
      (''WHYRUN_CONTEXT_FD'', show_int context_fd),
      (''__whyrun_at_prompt'', ''0''),
      (''__whyrun_skip_debug'', ''0''),
      (''__whyrun_sequence'', ''0''),
      (''__whyrun_active_command'', ''0''),
      (''HISTFILE'', []),
      (''HISTCONTROL'', []),
      (''HISTIGNORE'', []),
      (''PS1'', ''[whyrun] '' @ [CHR 0x5C] @ ''w '' @ [CHR 0x5C] @ ''$ ''),
      (''PS2'', ''[whyrun] > '')]"

definition bash_session ::
  "(int \<Rightarrow> string) \<Rightarrow> int + int \<Rightarrow> int + int \<Rightarrow> collection_request res" where
  "bash_session strerror null_fd dup_fd =
     (case null_fd of
        Inl e \<Rightarrow> Inl (System_error (''open command context sink: '' @ strerror e))
      | Inr _ \<Rightarrow>
          (case dup_fd of
             Inl e \<Rightarrow>
               Inl (System_error (''duplicate command context descriptor: '' @ strerror e))
           | Inr context_fd \<Rightarrow>
               Inr \<lparr>command = [''/bin/bash'', ''--noprofile'', ''--norc'', ''-i''],
                    environment = session_environment context_fd,
                    root_command = None, command_channel_fd = Some context_fd\<rparr>))"

text \<open>The shell variables that the hooks read, as the environment sets them.\<close>

definition hooks_of_environment :: "(string \<times> string) list \<Rightarrow> hook_state option" where
  "hooks_of_environment env =
     (case (map_of env ''__whyrun_skip_debug'', map_of env ''__whyrun_at_prompt'',
            map_of env ''__whyrun_sequence'', map_of env ''__whyrun_active_command'') of
        (Some a, Some b, Some c, Some d) \<Rightarrow>
          Some \<lparr>skip_debug = digits_val a, at_prompt = (b \<noteq> ''0''), sequence = digits_val c,
                active_id = digits_val d\<rparr>
      | _ \<Rightarrow> None)"

section \<open>An interactive session\<close>

text \<open>
  Bash runs the prompt hook before it reads a line, and the DEBUG trap once more for the
  hook's own \<open>return\<close>; for each line the trap runs before its first simple command, before
  further ones, and before PROMPT\_COMMAND itself. A line is what the hooks see of it.
\<close>

record shell_line =
  line_number :: string
  line_text :: string
  line_pwd :: string
  more_traps :: "(string \<times> string) list"
  line_status :: int
  next_pwd :: string

definition history_output :: "shell_line \<Rightarrow> string" where
  "history_output l = line_number l @ file_separator # line_text l @ [newline]"

definition prompt_calls :: "int \<Rightarrow> string \<Rightarrow> hook_call list" where
  "prompt_calls command_status pwd = [Prompt_hook command_status pwd, Debug_hook pwd []]"

definition line_calls :: "shell_line \<Rightarrow> hook_call list" where
  "line_calls l =
     Debug_hook (line_pwd l) (history_output l) #
       map (\<lambda>(pwd, h). Debug_hook pwd h) (more_traps l) @
       prompt_calls (line_status l) (next_pwd l)"

definition session_calls :: "string \<Rightarrow> shell_line list \<Rightarrow> hook_call list" where
  "session_calls pwd ls = prompt_calls 0 pwd @ concat (map line_calls ls)"

definition line_ok :: "shell_line \<Rightarrow> bool" where
  "line_ok l \<longleftrightarrow>
     file_separator \<notin> set (line_number l) \<and> field_ok (history_output l) \<and>
     field_ok (line_pwd l) \<and> field_ok (next_pwd l) \<and>
     - (2 ^ 31) \<le> line_status l \<and> line_status l < 2 ^ 31"

definition arm_marker :: "nat \<Rightarrow> string \<Rightarrow> command_marker" where
  "arm_marker n pwd =
     \<lparr>cm_type = Arm, cm_id = word_of_nat n, cm_text = [], cm_cwd = pwd, cm_exit_code = 0\<rparr>"

definition start_marker :: "nat \<Rightarrow> shell_line \<Rightarrow> command_marker" where
  "start_marker n l =
     \<lparr>cm_type = Start, cm_id = word_of_nat n, cm_text = line_text l, cm_cwd = line_pwd l,
      cm_exit_code = 0\<rparr>"

definition end_marker :: "nat \<Rightarrow> shell_line \<Rightarrow> command_marker" where
  "end_marker n l =
     \<lparr>cm_type = End, cm_id = word_of_nat n, cm_text = [], cm_cwd = next_pwd l,
      cm_exit_code = line_status l\<rparr>"

fun line_markers :: "nat \<Rightarrow> shell_line list \<Rightarrow> command_marker list" where
  "line_markers n [] = []"
| "line_markers n (l # ls) =
     [start_marker n l, end_marker n l, arm_marker (Suc n) (next_pwd l)] @
       line_markers (Suc n) ls"

definition session_markers :: "string \<Rightarrow> shell_line list \<Rightarrow> command_marker list" where
  "session_markers pwd ls = arm_marker 1 pwd # line_markers 1 ls"

subsection \<open>The hooks write what the decoder reads\<close>

definition waiting :: "nat \<Rightarrow> hook_state" where
  "waiting n = \<lparr>skip_debug = 0, at_prompt = True, sequence = n, active_id = n\<rparr>"

lemma prompt_calls_run:
  "skip_debug s = 0 \<Longrightarrow> hook_run (prompt_calls st pwd) s =
     (waiting (Suc (sequence s)),
      (if 0 < active_id s then
         encode_fields [''E'', show_nat (active_id s), show_int st, pwd] else []) @
      encode_fields [''A'', show_nat (Suc (sequence s)), pwd, []])"
  by (simp add: prompt_calls_def prompt_function_def start_function_def waiting_def Let_def)

lemma idle_traps:
  "skip_debug s = 0 \<Longrightarrow> \<not> at_prompt s \<Longrightarrow>
     hook_run (map (\<lambda>(pwd, h). Debug_hook pwd h) ts) s = (s, [])"
  by (induction ts) (auto simp: start_function_def)

lemma line_calls_run:
  assumes "0 < n"
  shows "hook_run (line_calls l) (waiting n) =
     (waiting (Suc n),
      encode_fields [''S'', show_nat n, line_pwd l, history_output l] @
      encode_fields [''E'', show_nat n, show_int (line_status l), next_pwd l] @
      encode_fields [''A'', show_nat (Suc n), next_pwd l, []])"
proof -
  let ?s = "(waiting n)\<lparr>at_prompt := False\<rparr>"
  have "hook_step (Debug_hook (line_pwd l) (history_output l)) (waiting n) =
      (?s, encode_fields [''S'', show_nat n, line_pwd l, history_output l])"
    by (simp add: start_function_def waiting_def)
  moreover have "hook_run (map (\<lambda>(pwd, h). Debug_hook pwd h) (more_traps l)) ?s = (?s, [])"
    by (rule idle_traps) (simp_all add: waiting_def)
  moreover have "hook_run (prompt_calls (line_status l) (next_pwd l)) ?s =
      (waiting (Suc n),
       encode_fields [''E'', show_nat n, show_int (line_status l), next_pwd l] @
       encode_fields [''A'', show_nat (Suc n), next_pwd l, []])"
    using assms prompt_calls_run[of ?s] by (simp add: waiting_def)
  ultimately show ?thesis
    by (simp add: line_calls_def hook_run_append del: encode_fields_simps)
qed

lemma field_ok_short:
  "length f \<le> 20 \<Longrightarrow> nul \<notin> set f \<Longrightarrow> field_ok f"
  by (simp add: field_ok_def kMaximumFieldBytes_def)

lemma length_show_nat: "n < 10 ^ k \<Longrightarrow> 0 < k \<Longrightarrow> length (show_nat n) \<le> k"
proof (induction k arbitrary: n)
  case 0
  then show ?case by simp
next
  case (Suc k)
  show ?case
  proof (cases "n < 10")
    case True
    then show ?thesis by (subst show_nat.simps) simp
  next
    case False
    then have "n div 10 < 10 ^ k" "0 < k"
      using Suc.prems by (auto simp: div_less_iff_less_mult mult.commute intro: gr0I)
    then show ?thesis
      using Suc.IH[of "n div 10"] False by (subst show_nat.simps) simp
  qed
qed

lemma field_ok_show_nat: "n < 2 ^ 64 \<Longrightarrow> field_ok (show_nat n)"
proof -
  assume "n < 2 ^ 64"
  then have "n < 10 ^ 20" by simp
  then have "length (show_nat n) \<le> 20" by (rule length_show_nat) simp
  then show ?thesis by (intro field_ok_short) (simp_all add: nul_def)
qed

lemma field_ok_show_int: "- (2 ^ 31) \<le> i \<Longrightarrow> i < 2 ^ 31 \<Longrightarrow> field_ok (show_int i)"
proof -
  assume "- (2 ^ 31) \<le> i" "i < 2 ^ 31"
  then have "nat (- i) < 10 ^ 19" "nat i < 10 ^ 19" by simp_all
  then have "length (show_nat (nat (- i))) \<le> 19" "length (show_nat (nat i)) \<le> 19"
    by (intro length_show_nat; simp)+
  then show ?thesis
    by (intro field_ok_short) (simp_all add: show_int_def nul_def)
qed

lemma field_ok_literals [simp]:
  "field_ok ''A''" "field_ok ''S''" "field_ok ''E''" "field_ok []"
  by (simp_all add: field_ok_def kMaximumFieldBytes_def nul_def)

lemma parse_id_show_nat:
  assumes "0 < n" "n < 2 ^ 64"
  shows "parse_id (show_nat n) = Inr (word_of_nat n)"
  using assms parse_id_show[of "word_of_nat n"]
  by (simp add: show_u64_def unat_of_nat word_of_nat_eq_0_iff nat_dvd_not_less)

lemma consume_arm:
  assumes "0 < n" "n < 2 ^ 64" "field_ok pwd"
  shows "consume empty_protocol (encode_fields [''A'', show_nat n, pwd, []]) =
    Inr (empty_protocol, [arm_marker n pwd])"
  using assms
  by (simp add: consume_record field_ok_show_nat decode_record_def parse_id_show_nat
      arm_marker_def del: encode_fields_simps)

lemma consume_start:
  assumes "0 < n" "n < 2 ^ 64" "line_ok l"
  shows "consume empty_protocol
      (encode_fields [''S'', show_nat n, line_pwd l, history_output l]) =
    Inr (empty_protocol, [start_marker n l])"
  using assms
  by (simp add: line_ok_def consume_record field_ok_show_nat decode_record_def
      parse_id_show_nat history_output_def strip_history_prefix start_marker_def
      del: encode_fields_simps)

lemma consume_end:
  assumes "0 < n" "n < 2 ^ 64" "line_ok l"
  shows "consume empty_protocol
      (encode_fields [''E'', show_nat n, show_int (line_status l), next_pwd l]) =
    Inr (empty_protocol, [end_marker n l])"
  using assms
  by (simp add: line_ok_def consume_record field_ok_show_nat field_ok_show_int
      decode_record_def parse_id_show_nat parse_status_show end_marker_def
      del: encode_fields_simps)

lemma consume_lines:
  assumes "0 < n" "n + length ls < 2 ^ 64" "\<forall>l \<in> set ls. line_ok l"
  shows "fst (hook_run (concat (map line_calls ls)) (waiting n)) = waiting (n + length ls) \<and>
    consume empty_protocol (snd (hook_run (concat (map line_calls ls)) (waiting n))) =
      Inr (empty_protocol, line_markers n ls)"
  using assms
proof (induction ls arbitrary: n)
  case Nil
  then show ?case by (simp add: consume_def)
next
  case (Cons l ls)
  have bounds: "n < 2 ^ 64" "Suc n < 2 ^ 64" "line_ok l" "field_ok (next_pwd l)"
    using Cons.prems by (auto simp: line_ok_def)
  obtain s out where r: "hook_run (concat (map line_calls ls)) (waiting (Suc n)) = (s, out)"
    by fastforce
  have "s = waiting (Suc n + length ls)"
    "consume empty_protocol out = Inr (empty_protocol, line_markers (Suc n) ls)"
    using Cons.IH[of "Suc n"] Cons.prems r by auto
  then show ?case
    using Cons.prems(1) bounds r
    by (simp add: hook_run_append line_calls_run consume_append_eq consume_start consume_end
        consume_arm del: encode_fields_simps)
qed

lemma consume_session:
  assumes "Suc (length ls) < 2 ^ 64" "\<forall>l \<in> set ls. line_ok l" "field_ok pwd"
  shows "consume empty_protocol (snd (hook_run (session_calls pwd ls) initial_hooks)) =
    Inr (empty_protocol, session_markers pwd ls)"
proof -
  have "hook_run (prompt_calls 0 pwd) initial_hooks =
      (waiting 1, encode_fields [''A'', show_nat 1, pwd, []])"
    using prompt_calls_run[of initial_hooks 0 pwd] by (simp add: initial_hooks_def)
  then show ?thesis
    using consume_lines[of 1 ls] assms
    by (auto simp: session_calls_def hook_run_append consume_append_eq consume_arm
        session_markers_def split: prod.splits simp del: encode_fields_simps)
qed

text \<open>
  A blank line at the first prompt: the trap before PROMPT\_COMMAND still finds the shell at
  its prompt and asks for a history entry that does not exist.
\<close>

lemma blank_first_line:
  assumes "field_ok pwd"
  shows "consume empty_protocol
      (snd (hook_run (prompt_calls 0 pwd @ [Debug_hook pwd []]) initial_hooks)) =
    Inl (Runtime_error ''command marker is missing its history prefix'')"
proof -
  have run: "snd (hook_run (prompt_calls 0 pwd @ [Debug_hook pwd []]) initial_hooks) =
      encode_fields [''A'', show_nat 1, pwd, []] @ encode_fields [''S'', show_nat 1, pwd, []]"
    using prompt_calls_run[of initial_hooks 0 pwd]
    by (simp add: hook_run_append initial_hooks_def waiting_def start_function_def)
  have "consume empty_protocol (encode_fields [''S'', show_nat 1, pwd, []]) =
      Inl (Runtime_error ''command marker is missing its history prefix'')"
    using assms
    by (simp add: consume_record field_ok_show_nat decode_record_def parse_id_show_nat
        strip_history_no_prefix del: encode_fields_simps)
  with assms show ?thesis
    unfolding run
    by (simp add: consume_append_eq consume_arm del: encode_fields_simps)
qed

section \<open>Properties\<close>

text \<open>
  C13. What the shell functions of a session write to the context descriptor, for any list
  of command lines, decodes to exactly the markers of that session: one arm before each
  prompt, and for each line its start (with the text that history printed and the directory)
  and its end (with the exit status), numbered from 1 in order; and no byte is left over.
\<close>

theorem session_round_trip:
  assumes "Suc (length ls) < 2 ^ 64" "\<forall>l \<in> set ls. line_ok l" "field_ok pwd"
  shows "consume empty_protocol (snd (hook_run (session_calls pwd ls) initial_hooks)) =
      Inr (empty_protocol, session_markers pwd ls) \<and> finish_protocol empty_protocol = Inr ()"
  using consume_session[OF assms]
  by (simp add: finish_protocol_def empty_protocol_def)

definition sample_line :: shell_line where
  "sample_line = \<lparr>line_number = ''    1  '', line_text = ''make all'', line_pwd = ''/w'',
     more_traps = [], line_status = 2, next_pwd = ''/w''\<rparr>"

theorem session_round_trip_witness:
  "consume empty_protocol (snd (hook_run (session_calls ''/w'' [sample_line]) initial_hooks)) =
     Inr (empty_protocol, session_markers ''/w'' [sample_line])"
proof -
  have "line_ok sample_line"
    by (simp add: line_ok_def sample_line_def history_output_def field_ok_def
        kMaximumFieldBytes_def nul_def file_separator_def newline_def)
  moreover have "field_ok ''/w''"
    by (simp add: field_ok_def kMaximumFieldBytes_def nul_def)
  ultimately show ?thesis
    using session_round_trip[of "[sample_line]" "''/w''"] by simp
qed

text \<open>
  The environment of the collection request starts the shell functions in the state
  in which the session's protocol begins, the request asks for the context descriptor that
  was duplicated, and it starts no command of its own.
\<close>

theorem session_starts_hooks:
  assumes "bash_session strerror null_fd (Inr fd) = Inr req"
  shows "hooks_of_environment (environment req) = Some initial_hooks \<and>
    command_channel_fd req = Some fd \<and> root_command req = None \<and>
    map_of (environment req) ''WHYRUN_CONTEXT_FD'' = Some (show_int fd)"
proof -
  have "digits_val ''0'' = 0"
    by code_simp
  with assms show ?thesis
    by (auto simp: bash_session_def hooks_of_environment_def session_environment_def
        initial_hooks_def split: sum.splits)
qed

theorem session_starts_hooks_witness:
  "\<exists>req. bash_session (\<lambda>_. []) (Inr 3) (Inr 10) = Inr req \<and>
     hooks_of_environment (environment req) = Some initial_hooks"
proof -
  obtain req where r: "bash_session (\<lambda>_. []) (Inr 3) (Inr 10) = Inr req"
    by (simp add: bash_session_def)
  from session_starts_hooks[OF this] r show ?thesis by blast
qed

text \<open>
  C40. An empty line at the first prompt of a session breaks it: the DEBUG trap that runs
  for PROMPT_COMMAND still finds the shell at its prompt and sends a start marker without any
  history, which the decoder rejects.
\<close>

theorem first_blank_line_aborts:
  assumes "field_ok pwd"
  shows "consume empty_protocol
      (snd (hook_run (prompt_calls 0 pwd @ [Debug_hook pwd []]) initial_hooks)) =
    Inl (Runtime_error ''command marker is missing its history prefix'')"
  using assms by (rule blank_first_line)

theorem first_blank_line_aborts_witness:
  "consume empty_protocol
      (snd (hook_run (prompt_calls 0 ''/w'' @ [Debug_hook ''/w'' []]) initial_hooks)) =
    Inl (Runtime_error ''command marker is missing its history prefix'')"
  by (rule first_blank_line_aborts)
    (simp add: field_ok_def kMaximumFieldBytes_def nul_def)

end
