(* ===== verification/Text_Encoding.thy ===== *)
theory Text_Encoding
  imports Sockets
begin

text \<open>
  The text encodings of \<open>src/sqlite_store.cpp\<close>: the JSON of an event's metadata and the
  shell-quoted form of a command. Each comes with a small reader, written from the target
  grammar and not from the encoder, and the theorem that reading gives the input back.
\<close>

named_theorems encoding_simps \<open>evaluation of the readers on encoded text\<close>

section \<open>JSON\<close>

definition quote :: char where
  "quote = CHR 0x22"

definition json_escape_char :: "char \<Rightarrow> string" where
  "json_escape_char c =
     (if c = quote then [backslash, quote]
      else if c = backslash then [backslash, backslash]
      else if c = CHR 0x08 then [backslash, CHR ''b'']
      else if c = CHR 0x0C then [backslash, CHR ''f'']
      else if c = CHR 0x0A then [backslash, CHR ''n'']
      else if c = CHR 0x0D then [backslash, CHR ''r'']
      else if c = CHR 0x09 then [backslash, CHR ''t'']
      else if (of_char c :: nat) < 32 then
        [backslash, CHR ''u''] @ pad_zero 4 (show_hex (of_char c))
      else [c])"

definition json_escape :: "string \<Rightarrow> string" where
  "json_escape input = concat (map json_escape_char input)"

definition json_member :: "string \<times> string \<Rightarrow> string" where
  "json_member kv =
     [quote] @ json_escape (fst kv) @ [quote, CHR '':'', quote] @ json_escape (snd kv) @ [quote]"

fun join_comma :: "string list \<Rightarrow> string" where
  "join_comma [] = []"
| "join_comma [w] = w"
| "join_comma (w # v # vs) = w @ CHR '','' # join_comma (v # vs)"

definition metadata_json :: "(string \<times> string) list \<Rightarrow> string" where
  "metadata_json m = CHR ''{'' # join_comma (map json_member (sort m)) @ ''}''"

subsection \<open>A reader of JSON strings and flat objects\<close>

definition hex_val :: "char \<Rightarrow> nat" where
  "hex_val c = (if of_char c < (58::nat) then of_char c - 48 else of_char c - 87)"

definition json_unescape_char :: "char \<Rightarrow> char option" where
  "json_unescape_char c =
     (if c = quote then Some quote
      else if c = backslash then Some backslash
      else if c = CHR ''b'' then Some (CHR 0x08)
      else if c = CHR ''f'' then Some (CHR 0x0C)
      else if c = CHR ''n'' then Some (CHR 0x0A)
      else if c = CHR ''r'' then Some (CHR 0x0D)
      else if c = CHR ''t'' then Some (CHR 0x09)
      else None)"

definition cons_fst :: "char \<Rightarrow> (string \<times> string) option \<Rightarrow> (string \<times> string) option" where
  "cons_fst c r = map_option (apfst (Cons c)) r"

text \<open>The body of a string up to its closing quote: the value and the rest of the input.\<close>

fun json_read :: "string \<Rightarrow> (string \<times> string) option" where
  "json_read [] = None"
| "json_read (c # s) =
     (if c = quote then Some ([], s)
      else if c = backslash then
        (case s of
           [] \<Rightarrow> None
         | e # s' \<Rightarrow>
             if e = CHR ''u'' then
               (case s' of
                  h1 # h2 # h3 # h4 # r \<Rightarrow>
                    cons_fst (char_of (((hex_val h1 * 16 + hex_val h2) * 16 + hex_val h3) * 16 +
                                       hex_val h4)) (json_read r)
                | _ \<Rightarrow> None)
             else
               (case json_unescape_char e of
                  None \<Rightarrow> None
                | Some d \<Rightarrow> cons_fst d (json_read s')))
      else if (of_char c :: nat) < 32 then None
      else cons_fst c (json_read s))"

text \<open>The members of a flat object, after its opening brace, with fuel for their number.\<close>

definition expect :: "char \<Rightarrow> string \<Rightarrow> string option" where
  "expect c s = (case s of [] \<Rightarrow> None | d # r \<Rightarrow> if d = c then Some r else None)"

definition json_read_member :: "string \<Rightarrow> ((string \<times> string) \<times> string) option" where
  "json_read_member s =
     Option.bind (expect quote s) (\<lambda>s1.
     Option.bind (json_read s1) (\<lambda>(k, s2).
     Option.bind (expect (CHR '':'') s2) (\<lambda>s3.
     Option.bind (expect quote s3) (\<lambda>s4.
     Option.bind (json_read s4) (\<lambda>(v, s5). Some ((k, v), s5))))))"

fun json_read_members :: "nat \<Rightarrow> string \<Rightarrow> (string \<times> string) list option" where
  "json_read_members 0 s = None"
| "json_read_members (Suc n) s =
     (case json_read_member s of
        None \<Rightarrow> None
      | Some (kv, rest) \<Rightarrow>
          (case rest of
             [] \<Rightarrow> None
           | c # r \<Rightarrow>
               if c = CHR ''}'' then (if r = [] then Some [kv] else None)
               else if c = CHR '','' then map_option (Cons kv) (json_read_members n r)
               else None))"

definition json_read_object :: "string \<Rightarrow> (string \<times> string) list option" where
  "json_read_object s =
     (if s = ''{}'' then Some []
      else Option.bind (expect (CHR ''{'') s) (json_read_members (length s)))"

subsection \<open>Reading gives the metadata back\<close>

declare json_read.simps [simp del]

lemma quote_backslash [simp]: "quote \<noteq> backslash" "backslash \<noteq> quote"
  by (simp_all add: quote_def backslash_def)

lemma hex_val_char [simp]: "d < 16 \<Longrightarrow> hex_val (hex_char d) = d"
  by (simp add: hex_val_def hex_char_def take_bit_eq_mod)

lemma hex_char_zero: "hex_char 0 = CHR ''0''"
  by code_simp

lemma pad_zero_4:
  "pad_zero 4 [x] = [CHR ''0'', CHR ''0'', CHR ''0'', x]"
  "pad_zero 4 [x, y] = [CHR ''0'', CHR ''0'', x, y]"
proof -
  have "4 - length [x] = Suc (Suc (Suc 0))" "4 - length [x, y] = Suc (Suc 0)"
    by simp_all
  then show "pad_zero 4 [x] = [CHR ''0'', CHR ''0'', CHR ''0'', x]"
    "pad_zero 4 [x, y] = [CHR ''0'', CHR ''0'', x, y]"
    by (simp_all only: pad_zero_def replicate.simps append.simps)
qed

lemma show_hex_small:
  "n < 16 \<Longrightarrow> show_hex n = [hex_char n]"
  "16 \<le> n \<Longrightarrow> n < 256 \<Longrightarrow> show_hex n = [hex_char (n div 16), hex_char (n mod 16)]"
proof -
  have one: "show_hex n = [hex_char n]" if "n < 16" for n
    using that show_hex.simps[of n] by simp
  then show "n < 16 \<Longrightarrow> show_hex n = [hex_char n]" .
  assume "16 \<le> n" "n < 256"
  then have "n div 16 < 16" "\<not> n < 16" by auto
  then show "show_hex n = [hex_char (n div 16), hex_char (n mod 16)]"
    using one[of "n div 16"] show_hex.simps[of n] by simp
qed

lemma pad_hex_small:
  assumes "n < 256"
  shows "pad_zero 4 (show_hex n) =
    [CHR ''0'', CHR ''0'', hex_char (n div 16), hex_char (n mod 16)]"
proof (cases "n < 16")
  case True
  then show ?thesis
    by (simp only: show_hex_small pad_zero_4) (simp add: hex_char_zero)
next
  case False
  with assms show ?thesis
    by (simp only: show_hex_small pad_zero_4 not_less)
qed

lemma json_read_unicode:
  "json_read (backslash # CHR ''u'' # h1 # h2 # h3 # h4 # rest) =
     cons_fst (char_of (((hex_val h1 * 16 + hex_val h2) * 16 + hex_val h3) * 16 + hex_val h4))
       (json_read rest)"
  by (subst json_read.simps(2)) simp

lemma hex_val_zero: "hex_val (CHR ''0'') = 0"
  by (simp add: hex_val_def)

lemma json_read_control:
  assumes "(of_char c :: nat) < 32"
  shows "json_read (backslash # CHR ''u'' # pad_zero 4 (show_hex (of_char c)) @ rest) =
    cons_fst c (json_read rest)"
proof -
  have d: "of_char c div 16 < (16::nat)" "of_char c mod 16 < (16::nat)"
      "of_char c < (256::nat)"
    using assms by auto
  have "((0 * 16 + 0) * 16 + of_char c div 16) * 16 + of_char c mod 16 = (of_char c :: nat)"
    by simp
  then show ?thesis
    using assms d by (simp only: pad_hex_small append.simps json_read_unicode hex_val_zero
        hex_val_char) simp
qed

lemma json_read_pair:
  assumes "json_unescape_char e = Some d" "e \<noteq> CHR ''u''"
  shows "json_read (backslash # e # rest) = cons_fst d (json_read rest)"
  using assms by (subst json_read.simps(2)) simp

lemma json_read_plain:
  assumes "c \<noteq> quote" "c \<noteq> backslash" "\<not> (of_char c :: nat) < 32"
  shows "json_read (c # rest) = cons_fst c (json_read rest)"
  using assms by (subst json_read.simps(2)) simp

definition short_escapes :: "char list" where
  "short_escapes =
     [quote, backslash, CHR 0x08, CHR 0x0C, CHR 0x0A, CHR 0x0D, CHR 0x09]"

lemma json_escape_short:
  assumes "c \<in> set short_escapes"
  shows "\<exists>e. json_escape_char c = [backslash, e] \<and> json_unescape_char e = Some c \<and>
           e \<noteq> CHR ''u''"
proof -
  have "list_all (\<lambda>c. \<exists>e. json_escape_char c = [backslash, e] \<and>
      json_unescape_char e = Some c \<and> e \<noteq> CHR ''u'') short_escapes"
    by (simp add: short_escapes_def json_escape_char_def json_unescape_char_def quote_def
        backslash_def)
  with assms show ?thesis
    by (simp only: list_all_iff)
qed

lemma json_escape_long:
  assumes "c \<notin> set short_escapes"
  shows "json_escape_char c =
    (if (of_char c :: nat) < 32 then [backslash, CHR ''u''] @ pad_zero 4 (show_hex (of_char c))
     else [c])"
  using assms by (simp add: short_escapes_def json_escape_char_def)

lemma json_read_escape_char:
  "json_read (json_escape_char c @ rest) = cons_fst c (json_read rest)"
proof (cases "c \<in> set short_escapes")
  case True
  then obtain e where e: "json_escape_char c = [backslash, e]"
      "json_unescape_char e = Some c" "e \<noteq> CHR ''u''"
    using json_escape_short by blast
  then show ?thesis
    by (simp only: append.simps json_read_pair not_False_eq_True)
next
  case False
  then have "c \<noteq> quote" "c \<noteq> backslash"
    by (auto simp only: short_escapes_def list.set)
  then show ?thesis
    using json_read_control[of c rest] json_read_plain[of c rest]
    by (cases "(of_char c :: nat) < 32")
      (simp_all only: json_escape_long[OF False] if_True if_False append.simps
        not_False_eq_True simp_thms)
qed

lemma json_read_quote: "json_read (quote # rest) = Some ([], rest)"
  by (subst json_read.simps(2)) simp

lemma json_read_escape [encoding_simps]:
  "json_read (json_escape s @ quote # rest) = Some (s, rest)"
proof (induction s)
  case Nil
  then show ?case by (simp only: json_escape_def list.map concat.simps append.simps json_read_quote)
next
  case (Cons c s)
  have "json_escape (c # s) @ quote # rest = json_escape_char c @ json_escape s @ quote # rest"
    by (simp add: json_escape_def)
  with Cons show ?case
    by (simp only: json_read_escape_char cons_fst_def) simp
qed

lemma expect_simps [simp]: "expect c (c # r) = Some r"
  by (simp add: expect_def)

lemma json_read_member_escape [encoding_simps]:
  "json_read_member (json_member kv @ rest) = Some (kv, rest)"
  by (simp add: json_read_member_def json_member_def encoding_simps)

lemma json_read_members_join:
  assumes "kvs \<noteq> []" "length kvs \<le> n"
  shows "json_read_members n (join_comma (map json_member kvs) @ ''}'') = Some kvs"
  using assms
proof (induction kvs arbitrary: n)
  case Nil
  then show ?case by simp
next
  case (Cons kv kvs)
  then obtain m where n: "n = Suc m" by (cases n) auto
  show ?case
  proof (cases kvs)
    case Nil
    then show ?thesis using n by (simp add: encoding_simps)
  next
    case (Cons kv' kvs')
    then show ?thesis
      using Cons.IH[of m] Cons.prems n by (simp add: encoding_simps)
  qed
qed

lemma join_comma_length: "length kvs \<le> length (join_comma (map json_member kvs))"
proof (induction kvs)
  case Nil
  then show ?case by simp
next
  case (Cons kv kvs)
  then show ?case
    by (cases kvs) (auto simp: json_member_def)
qed

lemma json_read_metadata:
  "json_read_object (metadata_json m) = Some (sort m)"
proof (cases "m = []")
  case True
  then show ?thesis by (simp add: metadata_json_def json_read_object_def)
next
  case False
  let ?kvs = "sort m"
  let ?body = "join_comma (map json_member ?kvs) @ ''}''"
  have ne: "?kvs \<noteq> []"
    using False by (metis length_0_conv length_sort)
  have "length ?kvs \<le> length (metadata_json m)"
    using join_comma_length[of ?kvs] by (simp add: metadata_json_def)
  then have "json_read_members (length (metadata_json m)) ?body = Some ?kvs"
    using json_read_members_join[OF ne] by simp
  moreover have "metadata_json m \<noteq> ''{}''"
    using ne join_comma_length[of ?kvs] by (cases ?kvs) (auto simp: metadata_json_def)
  ultimately show ?thesis
    by (simp add: json_read_object_def metadata_json_def)
qed

section \<open>Shell quoting\<close>

definition apostrophe :: char where
  "apostrophe = CHR 0x27"

definition is_alnum :: "char \<Rightarrow> bool" where
  "is_alnum c \<longleftrightarrow>
     (let n = (of_char c :: nat) in
      (48 \<le> n \<and> n \<le> 57) \<or> (65 \<le> n \<and> n \<le> 90) \<or> (97 \<le> n \<and> n \<le> 122))"

definition shell_safe :: "char \<Rightarrow> bool" where
  "shell_safe c \<longleftrightarrow>
     is_alnum c \<or> c = CHR ''/'' \<or> c = CHR ''_'' \<or> c = CHR ''-'' \<or> c = CHR ''.'' \<or> c = CHR '':''"

definition shell_quote :: "string \<Rightarrow> string" where
  "shell_quote argument =
     (if argument \<noteq> [] \<and> list_all shell_safe argument then argument
      else
        [apostrophe] @
        concat (map (\<lambda>c. if c = apostrophe
                        then [apostrophe, backslash, apostrophe, apostrophe] else [c]) argument) @
        [apostrophe])"

fun join_space :: "string list \<Rightarrow> string" where
  "join_space [] = []"
| "join_space [w] = w"
| "join_space (w # v # vs) = w @ CHR '' '' # join_space (v # vs)"

definition format_command :: "string list \<Rightarrow> string" where
  "format_command command = join_space (map shell_quote command)"

subsection \<open>A reader of simple shell commands\<close>

text \<open>
  The words of a command in the shell grammar, without expansions: \<open>None\<close> where the shell
  would do more than split and unquote (an unquoted character outside the safe set), or
  where a quote is left open. The second argument is the current word, if one has begun.
\<close>

fun sh_split :: "bool \<Rightarrow> string option \<Rightarrow> string \<Rightarrow> string list option" where
  "sh_split quoted w [] =
     (if quoted then None else Some (case w of None \<Rightarrow> [] | Some v \<Rightarrow> [v]))"
| "sh_split quoted w (c # s) =
     (let v = (case w of None \<Rightarrow> [] | Some v \<Rightarrow> v) in
      if quoted then
        (if c = apostrophe then sh_split False (Some v) s
         else sh_split True (Some (v @ [c])) s)
      else if c = apostrophe then sh_split True (Some v) s
      else if c = CHR '' '' then
        (case w of
           None \<Rightarrow> sh_split False None s
         | Some v \<Rightarrow> map_option (Cons v) (sh_split False None s))
      else if c = backslash then
        (case s of [] \<Rightarrow> None | d # r \<Rightarrow> sh_split False (Some (v @ [d])) r)
      else if shell_safe c then sh_split False (Some (v @ [c])) s
      else None)"

lemma shell_safe_not [simp]:
  assumes "shell_safe c"
  shows "c \<noteq> apostrophe" "c \<noteq> CHR '' ''" "c \<noteq> backslash"
  using assms
  by (auto simp: shell_safe_def is_alnum_def apostrophe_def backslash_def Let_def)

lemma shell_chars [simp]: "apostrophe \<noteq> CHR '' ''" "apostrophe \<noteq> backslash"
  "backslash \<noteq> apostrophe" "backslash \<noteq> CHR '' ''" "CHR '' '' \<noteq> apostrophe"
  by (simp_all add: apostrophe_def backslash_def)

lemma sh_split_safe:
  assumes "list_all shell_safe s"
  shows "sh_split False (Some v) (s @ rest) = sh_split False (Some (v @ s)) rest"
  using assms by (induction s arbitrary: v) simp_all

lemma sh_split_quoted:
  "sh_split True (Some v)
     (concat (map (\<lambda>c. if c = apostrophe
         then [apostrophe, backslash, apostrophe, apostrophe] else [c]) s) @ apostrophe # rest) =
   sh_split False (Some (v @ s)) rest"
  by (induction s arbitrary: v) simp_all

lemma sh_split_shell_quote:
  "sh_split False None (shell_quote w @ rest) = sh_split False (Some w) rest"
proof (cases "w \<noteq> [] \<and> list_all shell_safe w")
  case True
  then obtain c s where w: "w = c # s" by (cases w) auto
  have "sh_split False None (shell_quote w @ rest) = sh_split False (Some [c]) (s @ rest)"
    using True w by (simp add: shell_quote_def)
  with True w show ?thesis
    by (simp add: sh_split_safe)
next
  case False
  then have "shell_quote w @ rest = apostrophe # (concat (map (\<lambda>c. if c = apostrophe
      then [apostrophe, backslash, apostrophe, apostrophe] else [c]) w) @ apostrophe # rest)"
    by (auto simp: shell_quote_def)
  then show ?thesis
    by (simp add: sh_split_quoted[of "[]", simplified])
qed

lemma sh_split_format_command:
  "sh_split False None (format_command argv) = Some argv"
  unfolding format_command_def
proof (induction argv)
  case Nil
  then show ?case by simp
next
  case (Cons w ws)
  show ?case
  proof (cases ws)
    case Nil
    then show ?thesis
      using sh_split_shell_quote[of w "[]"] by simp
  next
    case (Cons v vs)
    then show ?thesis
      using Cons.IH sh_split_shell_quote[of w] by simp
  qed
qed

section \<open>Unix-domain names read back\<close>

fun unrender :: "string \<Rightarrow> string" where
  "unrender [] = []"
| "unrender (c # s) =
     (if c = backslash then
        (case s of
           x # h1 # h2 # r \<Rightarrow> char_of (hex_val h1 * 16 + hex_val h2) # unrender r
         | _ \<Rightarrow> [])
      else c # unrender s)"

declare unrender.simps [simp del]

lemma pad_two:
  "pad_zero 2 [x] = [CHR ''0'', x]" "pad_zero 2 [x, y] = [x, y]"
proof -
  have "2 - length [x] = Suc 0" "2 - length [x, y] = 0"
    by simp_all
  then show "pad_zero 2 [x] = [CHR ''0'', x]" "pad_zero 2 [x, y] = [x, y]"
    by (simp_all only: pad_zero_def replicate.simps append.simps)
qed

lemma pad_hex_byte:
  assumes "n < 256"
  shows "pad_zero 2 (show_hex n) = [hex_char (n div 16), hex_char (n mod 16)]"
proof (cases "n < 16")
  case True
  then show ?thesis
    by (simp only: show_hex_small pad_two) (simp add: hex_char_zero)
next
  case False
  with assms show ?thesis
    by (simp only: show_hex_small pad_two not_less)
qed

lemma unrender_byte: "unrender (render_byte c @ rest) = c # unrender rest"
proof (cases "is_print c \<and> c \<noteq> backslash")
  case True
  then show ?thesis by (simp add: render_byte_def unrender.simps)
next
  case False
  let ?n = "of_char c :: nat"
  have n: "?n < 256" "?n div 16 < 16" "?n mod 16 < 16"
    using nat_of_char_less_256[of c] by (auto simp: less_mult_imp_div_less)
  have "render_byte c = [backslash, CHR ''x'', hex_char (?n div 16), hex_char (?n mod 16)]"
    using False pad_hex_byte[OF n(1)] by (auto simp: render_byte_def)
  moreover have "char_of (?n div 16 * 16 + ?n mod 16) = c"
    by simp
  ultimately show ?thesis
    using n by (simp add: unrender.simps)
qed

lemma unrender_bytes: "unrender (concat (map render_byte s)) = s"
  by (induction s) (simp_all add: unrender_byte, simp add: unrender.simps)

lemma render_bytes_inject [simp]:
  "concat (map render_byte a) = concat (map render_byte b) \<longleftrightarrow> a = b"
  by (metis unrender_bytes)

section \<open>Properties\<close>

text \<open>
  C32. The JSON text of an event's metadata is an object that reads back to the metadata,
  its members in the order of their keys: every byte string survives the escaping, and maps
  with the same content have the same text, in whatever order their entries were added.
\<close>

lemma sort_distinct_keys:
  fixes xs ys :: "(string \<times> string) list"
  assumes "distinct (map fst xs)" "distinct (map fst ys)" "map_of xs = map_of ys"
  shows "sort xs = sort ys"
proof -
  have "set xs = set ys"
    using assms by (metis map_of_inject_set)
  moreover have "distinct xs" "distinct ys"
    using assms(1,2) by (auto simp: distinct_map)
  ultimately show ?thesis
    by (metis distinct_sort set_sort sorted_distinct_set_unique sorted_sort)
qed

theorem metadata_json_reads_back:
  "json_read_object (metadata_json m) = Some (sort m) \<and>
   (distinct (map fst m) \<longrightarrow> distinct (map fst n) \<longrightarrow>
      (metadata_json m = metadata_json n \<longleftrightarrow> map_of m = map_of n))"
proof (intro conjI impI)
  show "json_read_object (metadata_json m) = Some (sort m)"
    by (rule json_read_metadata)
  assume d: "distinct (map fst m)" "distinct (map fst n)"
  show "metadata_json m = metadata_json n \<longleftrightarrow> map_of m = map_of n"
  proof
    assume "metadata_json m = metadata_json n"
    then have "Some (sort m) = Some (sort n)"
      unfolding json_read_metadata[symmetric] by (rule arg_cong)
    then have "set m = set n"
      by (metis option.inject set_sort)
    with d show "map_of m = map_of n"
      by (simp add: map_of_inject_set)
  next
    assume "map_of m = map_of n"
    then have "sort m = sort n"
      by (rule sort_distinct_keys[OF d])
    then show "metadata_json m = metadata_json n"
      by (simp only: metadata_json_def)
  qed
qed

theorem metadata_json_reads_back_witness:
  "metadata_json [(''fd'', ''3''), (''a'', ''x'')] = metadata_json [(''a'', ''x''), (''fd'', ''3'')]"
proof -
  have "map_of [(''fd'', ''3''), (''a'', ''x'')] = map_of [(''a'', ''x''), (''fd'', ''3'')]"
    by auto
  with metadata_json_reads_back[of "[(''fd'', ''3''), (''a'', ''x'')]"
      "[(''a'', ''x''), (''fd'', ''3'')]"]
  show ?thesis by simp
qed

text \<open>
  C33. The command line that the capsule stores is what a shell splits back into the
  recorded argument list, whatever bytes the arguments hold (blanks, quotes, empty arguments);
  so two different commands never have the same text.
\<close>

theorem format_command_splits:
  "sh_split False None (format_command argv) = Some argv \<and>
   (format_command argv = format_command argv' \<longleftrightarrow> argv = argv')"
  by (metis option.inject sh_split_format_command)



text \<open>
  Names of different kinds do collide: the abstract name of some bytes and the pathname that
  starts with an at sign are shown alike, and so are the unnamed socket and a pathname.
\<close>

theorem unix_name_kinds_collide:
  "render_unix_name (CHR 0x00 # ''x'') = render_unix_name ''@x'' \<and>
   render_unix_name [] = render_unix_name ''<unnamed>''"
  by (simp add: render_unix_name_def render_byte_def is_print_def backslash_def)

end
