(* ===== verification/Capsule_Store.thy ===== *)
theory Capsule_Store
  imports Text_Encoding Collector_Types
begin

text \<open>
  The capsule writer (\<open>src/sqlite_store.cpp\<close>): the tables of the schema as lists of rows, each
  SQL statement of the code as a function on them, and \<open>CapsuleWriter\<close> with its transaction.

  SQL is read as its documentation defines it: a PRIMARY KEY or UNIQUE column rejects a
  second row with the same value, ON CONFLICT \<open>\<dots>\<close> DO UPDATE and INSERT OR IGNORE resolve
  that, UPDATE changes the rows of its WHERE clause, ROLLBACK restores the tables of the last
  COMMIT. A violated constraint is the exception that \<open>Statement::execute\<close> throws. The SQLite
  calls behind each statement, and the errors that they may answer at any moment, are the
  subject of \<open>Sql_Writer\<close> and \<open>Sql_Recording\<close>, which refine this writer. Integer columns are unbounded integers (SQLite keeps 64 bits; the
  counters would have to pass \<open>2^63\<close>).
\<close>

section \<open>Tables\<close>

record run_row =
  run_id :: string
  run_mode_text :: string
  run_command :: string
  run_cwd :: string
  run_start_ns :: int
  run_end_ns :: "int option"
  run_exit_code :: "int option"
  run_term_signal :: "int option"

record command_row =
  c_id :: int
  c_sequence :: int
  c_shell_pid :: int
  c_command :: string
  c_cwd :: string
  c_start_ns :: int
  c_end_ns :: "int option"
  c_end_cwd :: "string option"
  c_exit_code :: "int option"

record process_row =
  pr_pid :: int
  pr_ppid :: int
  pr_executable :: string
  pr_start_ns :: int
  pr_end_ns :: "int option"
  pr_exit_code :: "int option"
  pr_term_signal :: "int option"

record event_row =
  er_id :: nat
  er_timestamp_ns :: int
  er_pid :: int
  er_tid :: int
  er_type :: string
  er_resource :: string
  er_result :: int
  er_errno :: int
  er_metadata_json :: string
  er_command_id :: "int option"

record file_row =
  f_path :: string
  read_calls :: int
  write_calls :: int
  bytes_read :: int
  bytes_written :: int

record network_row =
  n_endpoint :: string
  connect_count :: int
  success_count :: int
  failure_count :: int
  last_errno :: int

record capsule =
  t_metadata :: "(string \<times> string) list"
  t_runs :: "run_row list"
  t_commands :: "command_row list"
  t_processes :: "process_row list"
  t_events :: "event_row list"
  t_files :: "file_row list"
  t_network :: "network_row list"

definition empty_tables :: capsule where
  "empty_tables = \<lparr>t_metadata = [], t_runs = [], t_commands = [], t_processes = [],
     t_events = [], t_files = [], t_network = []\<rparr>"

definition as_i64 :: "u64 \<Rightarrow> int" where
  "as_i64 v = sint v"

lemma as_i64_inject [simp]: "as_i64 a = as_i64 b \<longleftrightarrow> a = b"
  unfolding as_i64_def by (metis signed_word_eqI)

section \<open>Statements\<close>

text \<open>INSERT with ON CONFLICT(key) DO UPDATE: the old row merged with the new one.\<close>

fun upsert :: "('r \<Rightarrow> 'k) \<Rightarrow> ('r \<Rightarrow> 'r \<Rightarrow> 'r) \<Rightarrow> 'r \<Rightarrow> 'r list \<Rightarrow> 'r list" where
  "upsert key merge new [] = [new]"
| "upsert key merge new (r # rs) =
     (if key r = key new then merge r new # rs else r # upsert key merge new rs)"

definition update_where :: "('r \<Rightarrow> bool) \<Rightarrow> ('r \<Rightarrow> 'r) \<Rightarrow> 'r list \<Rightarrow> 'r list" where
  "update_where P f rs = map (\<lambda>r. if P r then f r else r) rs"

definition table_lookup :: "('r \<Rightarrow> 'k) \<Rightarrow> 'k \<Rightarrow> 'r list \<Rightarrow> 'r option" where
  "table_lookup key k rs = find (\<lambda>r. key r = k) rs"

definition insert_event_row :: "event \<Rightarrow> capsule \<Rightarrow> capsule" where
  "insert_event_row e db =
     db\<lparr>t_events := t_events db @
          [\<lparr>er_id = Suc (length (t_events db)), er_timestamp_ns = as_i64 (timestamp_ns e),
            er_pid = ev_pid e, er_tid = ev_tid e, er_type = event_type_name (ev_type e),
            er_resource = resource e, er_result = ev_result e, er_errno = errno_value e,
            er_metadata_json = metadata_json (metadata e),
            er_command_id = map_option as_i64 (ev_command_id e)\<rparr>]\<rparr>"

definition insert_command :: "command_row \<Rightarrow> capsule \<Rightarrow> capsule res" where
  "insert_command row db =
     (if c_id row \<in> set (map c_id (t_commands db)) then
        Inl (Runtime_error ''UNIQUE constraint failed: commands.id'')
      else if c_sequence row \<in> set (map c_sequence (t_commands db)) then
        Inl (Runtime_error ''UNIQUE constraint failed: commands.sequence'')
      else Inr (db\<lparr>t_commands := t_commands db @ [row]\<rparr>))"

definition store_command_start :: "event \<Rightarrow> capsule \<Rightarrow> capsule res" where
  "store_command_start e db =
     (case ev_command_id e of
        None \<Rightarrow> Inl (Logic_error ''command_start event has no command id'')
      | Some cid \<Rightarrow>
          bind_res (stoll (metadata_value e ''sequence'' ''0'')) (\<lambda>sequence.
            insert_command
              \<lparr>c_id = as_i64 cid, c_sequence = sequence, c_shell_pid = ev_pid e,
               c_command = resource e, c_cwd = metadata_value e ''cwd'' [],
               c_start_ns = as_i64 (timestamp_ns e), c_end_ns = None, c_end_cwd = None,
               c_exit_code = None\<rparr> db))"

definition store_command_end :: "event \<Rightarrow> capsule \<Rightarrow> capsule res" where
  "store_command_end e db =
     (case ev_command_id e of
        None \<Rightarrow> Inl (Logic_error ''command_end event has no command id'')
      | Some cid \<Rightarrow>
          Inr (db\<lparr>t_commands :=
                 update_where (\<lambda>c. c_id c = as_i64 cid)
                   (\<lambda>c. c\<lparr>c_end_ns := Some (as_i64 (timestamp_ns e)),
                          c_end_cwd := Some (metadata_value e ''cwd'' []),
                          c_exit_code := Some (ev_result e)\<rparr>)
                   (t_commands db)\<rparr>))"

definition file_merge :: "file_row \<Rightarrow> file_row \<Rightarrow> file_row" where
  "file_merge old new =
     old\<lparr>read_calls := read_calls old + read_calls new,
         write_calls := write_calls old + write_calls new,
         bytes_read := bytes_read old + bytes_read new,
         bytes_written := bytes_written old + bytes_written new\<rparr>"

definition file_row_of :: "event \<Rightarrow> file_row" where
  "file_row_of e =
     (let is_read = (ev_type e = FileRead); bytes = max 0 (ev_result e) in
      \<lparr>f_path = resource e,
       read_calls = (if is_read then 1 else 0), write_calls = (if is_read then 0 else 1),
       bytes_read = (if is_read then bytes else 0),
       bytes_written = (if is_read then 0 else bytes)\<rparr>)"

definition store_file_activity :: "event \<Rightarrow> capsule \<Rightarrow> capsule" where
  "store_file_activity e db =
     db\<lparr>t_files := upsert f_path file_merge (file_row_of e) (t_files db)\<rparr>"

definition network_merge :: "network_row \<Rightarrow> network_row \<Rightarrow> network_row" where
  "network_merge old new =
     old\<lparr>connect_count := connect_count old + 1,
         success_count := success_count old + success_count new,
         failure_count := failure_count old + failure_count new,
         last_errno := last_errno new\<rparr>"

definition network_row_of :: "event \<Rightarrow> network_row" where
  "network_row_of e =
     \<lparr>n_endpoint = resource e, connect_count = 1,
      success_count = (if errno_value e = 0 then 1 else 0),
      failure_count = (if errno_value e = 0 then 0 else 1),
      last_errno = errno_value e\<rparr>"

definition store_network :: "event \<Rightarrow> capsule \<Rightarrow> capsule" where
  "store_network e db =
     db\<lparr>t_network := upsert n_endpoint network_merge (network_row_of e) (t_network db)\<rparr>"

definition new_process :: "int \<Rightarrow> int \<Rightarrow> string \<Rightarrow> u64 \<Rightarrow> process_row" where
  "new_process pid ppid exe ts =
     \<lparr>pr_pid = pid, pr_ppid = ppid, pr_executable = exe, pr_start_ns = as_i64 ts,
      pr_end_ns = None, pr_exit_code = None, pr_term_signal = None\<rparr>"

definition exec_merge :: "process_row \<Rightarrow> process_row \<Rightarrow> process_row" where
  "exec_merge old new = old\<lparr>pr_executable := pr_executable new\<rparr>"

definition store_exec :: "event \<Rightarrow> capsule \<Rightarrow> capsule res" where
  "store_exec e db =
     bind_res (stoll (metadata_value e ''ppid'' ''0'')) (\<lambda>ppid.
       Inr (db\<lparr>t_processes :=
              upsert pr_pid exec_merge (new_process (ev_pid e) ppid (resource e) (timestamp_ns e))
                (t_processes db)\<rparr>))"

definition store_fork :: "event \<Rightarrow> capsule \<Rightarrow> capsule res" where
  "store_fork e db =
     bind_res (stoll (metadata_value e ''child_pid'' ''0'')) (\<lambda>child_pid.
       Inr (db\<lparr>t_processes :=
              upsert pr_pid (\<lambda>old _. old)
                (new_process child_pid (ev_pid e) (metadata_value e ''executable'' ''<unknown>'')
                  (timestamp_ns e))
                (t_processes db)\<rparr>))"

definition store_exit :: "event \<Rightarrow> capsule \<Rightarrow> capsule res" where
  "store_exit e db =
     bind_res (stoll (metadata_value e ''exit_code'' ''-1'')) (\<lambda>code.
     bind_res (stoll (metadata_value e ''term_signal'' ''0'')) (\<lambda>sig.
       Inr (db\<lparr>t_processes :=
              update_where (\<lambda>p. pr_pid p = ev_pid e)
                (\<lambda>p. p\<lparr>pr_end_ns := Some (as_i64 (timestamp_ns e)),
                       pr_exit_code := Some code, pr_term_signal := Some sig\<rparr>)
                (t_processes db)\<rparr>)))"

definition emit_capsule :: "event \<Rightarrow> capsule \<Rightarrow> capsule res" where
  "emit_capsule e db0 =
     (let db = insert_event_row e db0 in
      case ev_type e of
        CommandStart \<Rightarrow> store_command_start e db
      | CommandEnd \<Rightarrow> store_command_end e db
      | FileRead \<Rightarrow> Inr (store_file_activity e db)
      | FileWrite \<Rightarrow> Inr (store_file_activity e db)
      | NetworkConnect \<Rightarrow> Inr (store_network e db)
      | ProcessExec \<Rightarrow> store_exec e db
      | ProcessFork \<Rightarrow> store_fork e db
      | ProcessExit \<Rightarrow> store_exit e db
      | _ \<Rightarrow> Inr db)"

section \<open>The writer and its transaction\<close>

text \<open>
  \<open>w_db\<close> is what the connection sees, \<open>w_file\<close> what is committed to the file. The tables are
  created before BEGIN, so a rollback leaves them empty. After \<open>finish\<close> the connection is in
  autocommit mode.
\<close>

record capsule_writer =
  w_db :: capsule
  w_file :: capsule
  finished :: bool

definition open_writer :: "string \<Rightarrow> run_metadata \<Rightarrow> capsule_writer" where
  "open_writer tool_version run =
     \<lparr>w_db = empty_tables
        \<lparr>t_metadata := [(''schema_version'', ''3''), (''tool_version'', tool_version)],
         t_runs := [\<lparr>run_id = rm_id run, run_mode_text = run_mode_name (rm_mode run),
                     run_command = format_command (rm_command run), run_cwd = rm_cwd run,
                     run_start_ns = as_i64 (rm_start_ns run), run_end_ns = None,
                     run_exit_code = None, run_term_signal = None\<rparr>]\<rparr>,
      w_file = empty_tables, finished = False\<rparr>"

definition emit_writer :: "event \<Rightarrow> capsule_writer \<Rightarrow> capsule_writer res" where
  "emit_writer e w =
     bind_res (emit_capsule e (w_db w)) (\<lambda>db.
       Inr (w\<lparr>w_db := db, w_file := (if finished w then db else w_file w)\<rparr>))"

definition finish_writer :: "collection_result \<Rightarrow> capsule_writer \<Rightarrow> capsule_writer res" where
  "finish_writer result w =
     (if finished w then Inl (Logic_error ''capsule has already been finalized'')
      else
        let db = (w_db w)\<lparr>t_runs :=
               update_where (\<lambda>_. True)
                 (\<lambda>r. r\<lparr>run_end_ns := Some (as_i64 (end_ns result)),
                        run_exit_code := Some (exit_code result),
                        run_term_signal := Some (term_signal result)\<rparr>)
                 (t_runs (w_db w))\<rparr> in
        Inr \<lparr>w_db = db, w_file = db, finished = True\<rparr>)"

text \<open>The destructor: an unfinished writer rolls back; the file keeps what was committed.\<close>

definition close_writer :: "capsule_writer \<Rightarrow> capsule" where
  "close_writer w = w_file (if finished w then w else w\<lparr>w_db := w_file w\<rparr>)"

section \<open>Tables with a key\<close>

text \<open>
  What the two activity tables and the process table share: rows with a key, merged on
  conflict by an operation that keeps the key.
\<close>

locale keyed_table =
  fixes key :: "'r \<Rightarrow> 'k"
    and merge :: "'r \<Rightarrow> 'r \<Rightarrow> 'r"
  assumes key_merge: "key new = key old \<Longrightarrow> key (merge old new) = key old"
begin

lemma upsert_keys: "set (map key (upsert key merge new rs)) = insert (key new) (key ` set rs)"
  by (induction rs) (auto simp: key_merge)

lemma upsert_distinct: "distinct (map key rs) \<Longrightarrow> distinct (map key (upsert key merge new rs))"
proof (induction rs)
  case Nil
  then show ?case by simp
next
  case (Cons r rs)
  then show ?case
    using upsert_keys[of new rs] by (auto simp: key_merge)
qed

lemma upsert_lookup:
  "table_lookup key k (upsert key merge new rs) =
     (if k = key new then
        Some (case table_lookup key k rs of None \<Rightarrow> new | Some old \<Rightarrow> merge old new)
      else table_lookup key k rs)"
  by (induction rs) (auto simp: table_lookup_def key_merge)

lemma upsert_fresh:
  "key new \<notin> key ` set rs \<Longrightarrow> upsert key merge new rs = rs @ [new]"
  by (induction rs) auto

end

interpretation file_table: keyed_table f_path file_merge
  by unfold_locales (simp add: file_merge_def)

interpretation network_table: keyed_table n_endpoint network_merge
  by unfold_locales (simp add: network_merge_def)

interpretation exec_table: keyed_table pr_pid exec_merge
  by unfold_locales (simp add: exec_merge_def)

interpretation fork_table: keyed_table pr_pid "\<lambda>old _. old"
  by unfold_locales simp

lemma update_where_keys [simp]:
  "(\<And>r. key (f r) = key r) \<Longrightarrow> map key (update_where P f rs) = map key rs"
  by (simp add: update_where_def)

section \<open>The capsule as a sink\<close>

definition row_content :: "event_row \<Rightarrow> event_row" where
  "row_content r = r\<lparr>er_id := 0\<rparr>"

definition entry_of_event :: "event \<Rightarrow> event_row" where
  "entry_of_event e =
     \<lparr>er_id = 0, er_timestamp_ns = as_i64 (timestamp_ns e),
      er_pid = ev_pid e, er_tid = ev_tid e, er_type = event_type_name (ev_type e),
      er_resource = resource e, er_result = ev_result e, er_errno = errno_value e,
      er_metadata_json = metadata_json (metadata e),
      er_command_id = map_option as_i64 (ev_command_id e)\<rparr>"

definition next_row :: "event \<Rightarrow> event_row list \<Rightarrow> event_row" where
  "next_row e rows = (entry_of_event e)\<lparr>er_id := Suc (length rows)\<rparr>"

lemma next_row_simps [simp]:
  "er_id (next_row e rows) = Suc (length rows)"
  "er_timestamp_ns (next_row e rows) = as_i64 (timestamp_ns e)"
  "er_pid (next_row e rows) = ev_pid e"
  "er_type (next_row e rows) = event_type_name (ev_type e)"
  "er_resource (next_row e rows) = resource e"
  "er_result (next_row e rows) = ev_result e"
  "er_errno (next_row e rows) = errno_value e"
  "er_command_id (next_row e rows) = map_option as_i64 (ev_command_id e)"
  "row_content (next_row e rows) = entry_of_event e"
  by (simp_all add: next_row_def entry_of_event_def row_content_def)

lemma emit_capsule_events:
  assumes "emit_capsule e db = Inr db'"
  shows "t_events db' = t_events db @ [next_row e (t_events db)] \<and>
    t_runs db' = t_runs db \<and> t_metadata db' = t_metadata db"
  using assms
  by (auto simp: emit_capsule_def Let_def insert_event_row_def next_row_def entry_of_event_def
      store_command_start_def store_command_end_def store_file_activity_def store_network_def
      store_exec_def store_fork_def store_exit_def insert_command_def res_simps
      split: event_type.splits option.splits if_splits)

definition writer_ok :: "capsule_writer \<Rightarrow> bool" where
  "writer_ok w \<longleftrightarrow> map er_id (t_events (w_db w)) = [1 ..< Suc (length (t_events (w_db w)))]"

definition writer_view :: "capsule_writer \<Rightarrow> event_row list" where
  "writer_view w = map row_content (t_events (w_db w))"

interpretation capsule_sink: event_sink emit_writer writer_ok writer_view entry_of_event
proof
  fix w w' e
  assume ok: "writer_ok w" and "emit_writer e w = Inr w'"
  then obtain db where "emit_capsule e (w_db w) = Inr db" "w_db w' = db"
    by (auto simp: emit_writer_def res_simps)
  then have "t_events (w_db w') = t_events (w_db w) @ [next_row e (t_events (w_db w))]"
    using emit_capsule_events by blast
  then show "writer_ok w'" "writer_view w' = writer_view w @ [entry_of_event e]"
    using ok by (simp_all add: writer_ok_def writer_view_def)
qed

section \<open>The activity tables as aggregates of the events\<close>

definition is_file_event :: "event_type \<Rightarrow> string \<Rightarrow> event \<Rightarrow> bool" where
  "is_file_event t path e \<longleftrightarrow> ev_type e = t \<and> resource e = path"

text \<open>What \<open>GROUP BY resource\<close> over the event log gives for one path or endpoint.\<close>

definition file_summary :: "string \<Rightarrow> event list \<Rightarrow> file_row option" where
  "file_summary path evs =
     (let rs = filter (is_file_event FileRead path) evs;
          ws = filter (is_file_event FileWrite path) evs in
      if rs = [] \<and> ws = [] then None
      else Some \<lparr>f_path = path, read_calls = int (length rs), write_calls = int (length ws),
                 bytes_read = sum_list (map (\<lambda>e. max 0 (ev_result e)) rs),
                 bytes_written = sum_list (map (\<lambda>e. max 0 (ev_result e)) ws)\<rparr>)"

definition network_summary :: "string \<Rightarrow> event list \<Rightarrow> network_row option" where
  "network_summary endpoint evs =
     (let cs = filter (is_file_event NetworkConnect endpoint) evs in
      if cs = [] then None
      else Some \<lparr>n_endpoint = endpoint, connect_count = int (length cs),
                 success_count = int (length (filter (\<lambda>e. errno_value e = 0) cs)),
                 failure_count = int (length (filter (\<lambda>e. errno_value e \<noteq> 0) cs)),
                 last_errno = errno_value (last cs)\<rparr>)"

lemma emit_capsule_tables:
  assumes "emit_capsule e db = Inr db'"
  shows "t_files db' =
      (if ev_type e \<in> {FileRead, FileWrite}
       then upsert f_path file_merge (file_row_of e) (t_files db) else t_files db)"
    and "t_network db' =
      (if ev_type e = NetworkConnect
       then upsert n_endpoint network_merge (network_row_of e) (t_network db) else t_network db)"
  using assms
  by (auto simp: emit_capsule_def Let_def insert_event_row_def store_command_start_def
      store_command_end_def store_file_activity_def store_network_def store_exec_def
      store_fork_def store_exit_def insert_command_def res_simps
      split: event_type.splits option.splits if_splits)

lemma file_summary_snoc:
  "file_summary path (evs @ [e]) =
     (if ev_type e \<in> {FileRead, FileWrite} \<and> resource e = path then
        Some (case file_summary path evs of None \<Rightarrow> file_row_of e
              | Some old \<Rightarrow> file_merge old (file_row_of e))
      else file_summary path evs)"
  by (auto simp: file_summary_def is_file_event_def file_row_of_def file_merge_def Let_def)

lemma network_summary_snoc:
  "network_summary endpoint (evs @ [e]) =
     (if ev_type e = NetworkConnect \<and> resource e = endpoint then
        Some (case network_summary endpoint evs of None \<Rightarrow> network_row_of e
              | Some old \<Rightarrow> network_merge old (network_row_of e))
      else network_summary endpoint evs)"
  by (auto simp: network_summary_def is_file_event_def network_row_of_def network_merge_def
      Let_def filter_empty_conv)

lemma file_row_key [simp]: "f_path (file_row_of e) = resource e"
  by (simp add: file_row_of_def Let_def)

lemma network_row_key [simp]: "n_endpoint (network_row_of e) = resource e"
  by (simp add: network_row_of_def)

definition activity_ok :: "event list \<Rightarrow> capsule \<Rightarrow> bool" where
  "activity_ok evs db \<longleftrightarrow>
     distinct (map f_path (t_files db)) \<and> distinct (map n_endpoint (t_network db)) \<and>
     (\<forall>path. table_lookup f_path path (t_files db) = file_summary path evs) \<and>
     (\<forall>endpoint. table_lookup n_endpoint endpoint (t_network db) = network_summary endpoint evs)"

lemma emit_capsule_activity:
  assumes "emit_capsule e db = Inr db'" "activity_ok evs db"
  shows "activity_ok (evs @ [e]) db'"
  unfolding activity_ok_def emit_capsule_tables[OF assms(1)]
proof (intro conjI allI)
  have ok: "distinct (map f_path (t_files db))" "distinct (map n_endpoint (t_network db))"
    "table_lookup f_path path (t_files db) = file_summary path evs"
    "table_lookup n_endpoint endpoint (t_network db) = network_summary endpoint evs"
    for path endpoint
    using assms(2) by (simp_all add: activity_ok_def)
  show "distinct (map f_path
      (if ev_type e \<in> {FileRead, FileWrite}
       then upsert f_path file_merge (file_row_of e) (t_files db) else t_files db))"
    using ok(1) file_table.upsert_distinct by simp
  show "distinct (map n_endpoint
      (if ev_type e = NetworkConnect
       then upsert n_endpoint network_merge (network_row_of e) (t_network db)
       else t_network db))"
    using ok(2) network_table.upsert_distinct by simp
  show "table_lookup f_path path
      (if ev_type e \<in> {FileRead, FileWrite}
       then upsert f_path file_merge (file_row_of e) (t_files db) else t_files db) =
    file_summary path (evs @ [e])" for path
    by (simp add: file_table.upsert_lookup ok file_summary_snoc)
  show "table_lookup n_endpoint endpoint
      (if ev_type e = NetworkConnect
       then upsert n_endpoint network_merge (network_row_of e) (t_network db)
       else t_network db) =
    network_summary endpoint (evs @ [e])" for endpoint
    by (simp add: network_table.upsert_lookup ok network_summary_snoc)
qed

text \<open>An invariant of the writer, carried along the events it has taken.\<close>

lemma emit_all_history:
  assumes "emit_all emit_writer evs w = Inr w'" "P [] (w_db w)"
    and "\<And>es e db db'. emit_capsule e db = Inr db' \<Longrightarrow> P es db \<Longrightarrow> P (es @ [e]) db'"
  shows "P evs (w_db w')"
  using assms(1,2)
proof (induction evs arbitrary: w' rule: rev_induct)
  case Nil
  then show ?case by simp
next
  case (snoc e es)
  then obtain u where u: "emit_all emit_writer es w = Inr u" "emit_writer e u = Inr w'"
    by (auto simp: emit_all_append res_simps)
  then have "emit_capsule e (w_db u) = Inr (w_db w')"
    by (auto simp: emit_writer_def res_simps)
  with assms(3) snoc.IH[OF u(1) snoc.prems(2)] show ?case by blast
qed

lemma activity_history:
  assumes "emit_all emit_writer evs (open_writer v run) = Inr w"
  shows "activity_ok evs (w_db w)"
  using assms
proof (rule emit_all_history)
  show "activity_ok [] (w_db (open_writer v run))"
    by (simp add: activity_ok_def open_writer_def empty_tables_def table_lookup_def
        file_summary_def network_summary_def)
qed (rule emit_capsule_activity)

section \<open>Properties\<close>

text \<open>
  C11. The tables file_activity and network_activity are materialised views of the
  event log: after any accepted events, the row of a path holds the number of its read and
  write events and the sums of the bytes that succeeded, the row of an endpoint its
  connects, successes, failures and last errno, and a path or endpoint without such an event
  has no row.
\<close>

theorem activity_tables_are_aggregates:
  assumes "emit_all emit_writer evs (open_writer v run) = Inr w"
  shows "table_lookup f_path path (t_files (w_db w)) = file_summary path evs \<and>
    table_lookup n_endpoint endpoint (t_network (w_db w)) = network_summary endpoint evs \<and>
    distinct (map f_path (t_files (w_db w))) \<and> distinct (map n_endpoint (t_network (w_db w)))"
  using activity_history[OF assms] by (simp add: activity_ok_def)

definition sample_run :: run_metadata where
  "sample_run = \<lparr>rm_id = ''r'', rm_mode = Command, rm_command = [''ls''], rm_cwd = ''/'',
     rm_start_ns = 1\<rparr>"

definition sample_event :: "event_type \<Rightarrow> string \<Rightarrow> int \<Rightarrow> event" where
  "sample_event t r n = \<lparr>timestamp_ns = 5, ev_pid = 100, ev_tid = 100, ev_type = t,
     resource = r, ev_result = n, errno_value = 0, metadata = [], ev_command_id = None\<rparr>"

definition sample_events :: "event list" where
  "sample_events = [sample_event FileRead ''/a'' 10, sample_event FileRead ''/a'' (- 4),
     sample_event FileWrite ''/a'' 3]"

definition sample_writer :: capsule_writer where
  "sample_writer = projr (emit_all emit_writer sample_events (open_writer ''1'' sample_run))"

lemma sample_writer_emits:
  "emit_all emit_writer sample_events (open_writer ''1'' sample_run) = Inr sample_writer"
  by (simp add: sample_writer_def sample_events_def sample_event_def emit_writer_def
      emit_capsule_def Let_def)

theorem activity_tables_are_aggregates_witness:
  "table_lookup f_path ''/a'' (t_files (w_db sample_writer)) =
     Some \<lparr>f_path = ''/a'', read_calls = 2, write_calls = 1, bytes_read = 10,
           bytes_written = 3\<rparr>"
  using activity_tables_are_aggregates[OF sample_writer_emits, of "''/a''" "[]"]
  by (simp add: sample_events_def sample_event_def file_summary_def is_file_event_def)

lemma event_log:
  assumes "emit_all emit_writer evs (open_writer v run) = Inr w"
  shows "map row_content (t_events (w_db w)) = map entry_of_event evs \<and>
    map er_id (t_events (w_db w)) = [1 ..< Suc (length evs)]"
proof -
  have start: "writer_ok (open_writer v run)" "writer_view (open_writer v run) = []"
    by (simp_all add: writer_ok_def writer_view_def open_writer_def empty_tables_def)
  have view: "writer_view w = map entry_of_event evs"
    using capsule_sink.emit_all_view[OF assms start(1)] start(2) by simp
  then have "length (t_events (w_db w)) = length evs"
    unfolding writer_view_def by (metis length_map)
  with view capsule_sink.emit_all_ok[OF assms start(1)] show ?thesis
    by (simp add: writer_view_def writer_ok_def)
qed

text \<open>
  The events table is the log: after any accepted events it holds one row per event,
  in order, numbered from 1, each with the event's fields and its metadata as JSON; nothing
  is dropped, merged or reordered.
\<close>

theorem event_log_complete:
  assumes "emit_all emit_writer evs (open_writer v run) = Inr w"
  shows "map row_content (t_events (w_db w)) = map entry_of_event evs \<and>
    map er_id (t_events (w_db w)) = [1 ..< Suc (length evs)]"
  using assms by (rule event_log)

theorem event_log_complete_witness:
  "map er_id (t_events (w_db sample_writer)) = [1, 2, 3]"
  using event_log_complete[OF sample_writer_emits]
  by (simp add: sample_events_def upt_rec)

lemma emit_all_unfinished:
  assumes "emit_all emit_writer evs (open_writer v run) = Inr w"
  shows "\<not> finished w \<and> w_file w = empty_tables \<and> t_runs (w_db w) = t_runs (w_db (open_writer v run))"
proof -
  let ?P = "\<lambda>w. \<not> finished w \<and> w_file w = empty_tables \<and>
    t_runs (w_db w) = t_runs (w_db (open_writer v run))"
  have "?P (open_writer v run)"
    by (simp add: open_writer_def)
  with assms show ?thesis
    unfolding emit_all_def
  proof (rule fold_res_invariant[where P = ?P])
    fix e u w
    assume e: "emit_writer e u = Inr w" and ok: "?P u"
    obtain db where db: "emit_capsule e (w_db u) = Inr db"
        "w = u\<lparr>w_db := db, w_file := (if finished u then db else w_file u)\<rparr>"
      using e by (cases "emit_capsule e (w_db u)") (simp_all add: emit_writer_def)
    have "t_runs db = t_runs (w_db u)"
      using emit_capsule_events[OF db(1)] by blast
    with db(2) ok show "?P w" by simp
  qed
qed

text \<open>
  Recording is a transaction: a writer that is closed without finish leaves the file
  with empty tables, whatever events it took; after finish the file holds all of them, the
  run's row has the result, and a second finish throws.
\<close>

theorem capsule_is_atomic:
  assumes "emit_all emit_writer evs (open_writer v run) = Inr w"
  shows "close_writer w = empty_tables \<and>
    (\<exists>w2. finish_writer result w = Inr w2 \<and> t_events (close_writer w2) = t_events (w_db w) \<and>
      t_commands (close_writer w2) = t_commands (w_db w) \<and>
      t_processes (close_writer w2) = t_processes (w_db w) \<and>
      t_files (close_writer w2) = t_files (w_db w) \<and>
      t_network (close_writer w2) = t_network (w_db w) \<and>
      (\<exists>r. t_runs (close_writer w2) = [r] \<and> run_id r = rm_id run \<and>
        run_exit_code r = Some (exit_code result) \<and>
        run_term_signal r = Some (term_signal result) \<and>
        run_end_ns r = Some (as_i64 (end_ns result))) \<and>
      finish_writer other w2 = Inl (Logic_error ''capsule has already been finalized''))"
proof -
  have w: "\<not> finished w" "w_file w = empty_tables"
      "t_runs (w_db w) = t_runs (w_db (open_writer v run))"
    using emit_all_unfinished[OF assms] by simp_all
  define row where "row = hd (t_runs (w_db (open_writer v run)))"
  have row: "t_runs (w_db w) = [row]" "run_id row = rm_id run"
    by (simp_all add: w(3) row_def open_writer_def)
  define row' where "row' = row\<lparr>run_end_ns := Some (as_i64 (end_ns result)),
      run_exit_code := Some (exit_code result), run_term_signal := Some (term_signal result)\<rparr>"
  define w2 where "w2 = \<lparr>w_db = (w_db w)\<lparr>t_runs := [row']\<rparr>,
      w_file = (w_db w)\<lparr>t_runs := [row']\<rparr>, finished = True\<rparr>"
  have "finish_writer result w = Inr w2"
    by (simp add: finish_writer_def w(1) row(1) update_where_def w2_def row'_def Let_def)
  moreover have "close_writer w2 = (w_db w)\<lparr>t_runs := [row']\<rparr>"
    by (simp add: close_writer_def w2_def)
  moreover have "finish_writer other w2 =
      Inl (Logic_error ''capsule has already been finalized'')"
    by (simp add: finish_writer_def w2_def)
  moreover have "close_writer w = empty_tables"
    by (simp add: close_writer_def w(1,2))
  ultimately show ?thesis
    using row(2) by (intro conjI exI[of _ w2] exI[of _ row']) (simp_all add: row'_def)
qed

theorem capsule_is_atomic_witness: "close_writer sample_writer = empty_tables"
  using capsule_is_atomic[OF sample_writer_emits] by blast

end
