(* ===== verification/Process_Table.thy ===== *)
theory Process_Table
  imports Capsule_Store
begin

text \<open>
  The processes table of a capsule as a function of the event log: what the INSERT, UPSERT
  and UPDATE statements of \<open>CapsuleWriter::Impl::emit\<close> make of the exec, fork and exit events
  of one pid.
\<close>

section \<open>What the log says of a process\<close>

definition parsed :: "event \<Rightarrow> string \<Rightarrow> string \<Rightarrow> int" where
  "parsed e k d = (case stoll (metadata_value e k d) of Inl _ \<Rightarrow> 0 | Inr n \<Rightarrow> n)"

definition execs :: "int \<Rightarrow> event \<Rightarrow> bool" where
  "execs k e \<longleftrightarrow> ev_type e = ProcessExec \<and> ev_pid e = k"

definition forks :: "int \<Rightarrow> event \<Rightarrow> bool" where
  "forks k e \<longleftrightarrow> ev_type e = ProcessFork \<and> parsed e ''child_pid'' ''0'' = k"

definition exits :: "int \<Rightarrow> event \<Rightarrow> bool" where
  "exits k e \<longleftrightarrow> ev_type e = ProcessExit \<and> ev_pid e = k"

text \<open>The row that the first event of a process creates.\<close>

definition first_row :: "int \<Rightarrow> event \<Rightarrow> process_row" where
  "first_row k e =
     (if execs k e then new_process k (parsed e ''ppid'' ''0'') (resource e) (timestamp_ns e)
      else new_process k (ev_pid e) (metadata_value e ''executable'' ''<unknown>'') (timestamp_ns e))"

definition last_executable :: "event list \<Rightarrow> process_row \<Rightarrow> process_row" where
  "last_executable es p = (if es = [] then p else p\<lparr>pr_executable := resource (last es)\<rparr>)"

definition last_exit :: "event list \<Rightarrow> process_row \<Rightarrow> process_row" where
  "last_exit es p =
     (if es = [] then p
      else p\<lparr>pr_end_ns := Some (as_i64 (timestamp_ns (last es))),
             pr_exit_code := Some (parsed (last es) ''exit_code'' ''-1''),
             pr_term_signal := Some (parsed (last es) ''term_signal'' ''0'')\<rparr>)"

text \<open>
  The process begins with its first exec or fork; its executable is that of its last exec, its
  end that of its last exit since.
\<close>

definition since_creation :: "int \<Rightarrow> event list \<Rightarrow> event list" where
  "since_creation k evs = dropWhile (\<lambda>e. \<not> execs k e \<and> \<not> forks k e) evs"

definition process_summary :: "int \<Rightarrow> event list \<Rightarrow> process_row option" where
  "process_summary k evs =
     (case since_creation k evs of
        [] \<Rightarrow> None
      | f # rest \<Rightarrow>
          Some (last_exit (filter (exits k) rest)
                 (last_executable (filter (execs k) rest) (first_row k f))))"

section \<open>One event more\<close>

lemma kinds_exclusive:
  "execs k e \<Longrightarrow> \<not> exits j e \<and> \<not> forks j e" "forks k e \<Longrightarrow> \<not> exits j e \<and> \<not> execs j e"
  "exits k e \<Longrightarrow> \<not> execs j e \<and> \<not> forks j e"
  by (auto simp: execs_def forks_def exits_def)

lemma since_creation_snoc:
  "since_creation k (evs @ [e]) =
     (if since_creation k evs = [] then (if execs k e \<or> forks k e then [e] else [])
      else since_creation k evs @ [e])"
  unfolding since_creation_def by (induction evs) auto

lemma process_summary_snoc:
  "process_summary k (evs @ [e]) =
     (case process_summary k evs of
        None \<Rightarrow> if execs k e \<or> forks k e then Some (first_row k e) else None
      | Some p \<Rightarrow>
          Some (if execs k e then p\<lparr>pr_executable := resource e\<rparr>
                else if exits k e then
                  p\<lparr>pr_end_ns := Some (as_i64 (timestamp_ns e)),
                    pr_exit_code := Some (parsed e ''exit_code'' ''-1''),
                    pr_term_signal := Some (parsed e ''term_signal'' ''0'')\<rparr>
                else p))"
proof (cases "since_creation k evs")
  case Nil
  then show ?thesis
    by (simp add: process_summary_def since_creation_snoc last_exit_def last_executable_def)
next
  case (Cons f rest)
  then show ?thesis
    using kinds_exclusive(1)[of k e k]
    by (simp add: process_summary_def since_creation_snoc last_exit_def last_executable_def)
qed

lemma process_summary_pid: "process_summary k evs = Some p \<Longrightarrow> pr_pid p = k"
  by (auto simp: process_summary_def last_exit_def last_executable_def first_row_def
      new_process_def split: list.splits if_splits)

lemma lookup_update_where:
  assumes "\<And>r. key (f r) = key r"
  shows "table_lookup key k (update_where (\<lambda>r. key r = j) f rs) =
    (if k = j then map_option f (table_lookup key k rs) else table_lookup key k rs)"
  using assms by (induction rs) (auto simp: table_lookup_def update_where_def)

section \<open>The table\<close>

definition table_of_log :: "event list \<Rightarrow> capsule \<Rightarrow> bool" where
  "table_of_log evs db \<longleftrightarrow> distinct (map pr_pid (t_processes db)) \<and>
     (\<forall>k. table_lookup pr_pid k (t_processes db) = process_summary k evs)"

lemma emit_exec_table:
  assumes "emit_capsule e db = Inr db'" "ev_type e = ProcessExec"
  shows "t_processes db' = upsert pr_pid exec_merge (first_row (ev_pid e) e) (t_processes db)"
  using assms
  by (auto simp: emit_capsule_def store_exec_def insert_event_row_def first_row_def execs_def
      parsed_def res_simps)

lemma emit_fork_table:
  assumes "emit_capsule e db = Inr db'" "ev_type e = ProcessFork"
  shows "t_processes db' = upsert pr_pid (\<lambda>old _. old)
    (first_row (parsed e ''child_pid'' ''0'') e) (t_processes db)"
  using assms
  by (auto simp: emit_capsule_def store_fork_def insert_event_row_def first_row_def execs_def
      parsed_def res_simps)

lemma emit_exit_table:
  assumes "emit_capsule e db = Inr db'" "ev_type e = ProcessExit"
  shows "t_processes db' = update_where (\<lambda>p. pr_pid p = ev_pid e) (last_exit [e]) (t_processes db)"
  using assms
  by (auto simp: emit_capsule_def store_exit_def insert_event_row_def last_exit_def parsed_def
      res_simps fun_eq_iff intro!: arg_cong[where f = "\<lambda>f. update_where _ f _"])

lemma emit_other_table:
  assumes "emit_capsule e db = Inr db'" "ev_type e \<notin> {ProcessExec, ProcessFork, ProcessExit}"
  shows "t_processes db' = t_processes db"
  using assms
  by (auto simp: emit_capsule_def Let_def insert_event_row_def store_command_start_def
      store_command_end_def store_file_activity_def store_network_def insert_command_def res_simps
      split: event_type.splits option.splits if_splits)

lemma first_row_pid [simp]: "pr_pid (first_row k e) = k"
  by (simp add: first_row_def new_process_def)

lemma last_exit_pid [simp]: "pr_pid (last_exit es p) = pr_pid p"
  by (simp add: last_exit_def)

lemma table_of_log_step:
  assumes emit: "emit_capsule e db = Inr db'" and ok: "table_of_log evs db"
  shows "table_of_log (evs @ [e]) db'"
proof -
  have dist: "distinct (map pr_pid (t_processes db))"
    and look: "\<And>k. table_lookup pr_pid k (t_processes db) = process_summary k evs"
    using ok by (simp_all add: table_of_log_def)
  consider (exec) "ev_type e = ProcessExec" | (fork) "ev_type e = ProcessFork"
    | (exit) "ev_type e = ProcessExit" | (other) "ev_type e \<notin> {ProcessExec, ProcessFork, ProcessExit}"
    by blast
  then show ?thesis
  proof cases
    case exec
    show ?thesis
      unfolding table_of_log_def emit_exec_table[OF emit exec]
      using exec exec_table.upsert_distinct[OF dist]
      by (auto simp: exec_table.upsert_lookup look process_summary_snoc execs_def forks_def
          exits_def exec_merge_def first_row_def new_process_def split: option.split)
  next
    case fork
    show ?thesis
      unfolding table_of_log_def emit_fork_table[OF emit fork]
      using fork fork_table.upsert_distinct[OF dist]
      by (auto simp: fork_table.upsert_lookup look process_summary_snoc execs_def forks_def
          exits_def split: option.split)
  next
    case exit
    show ?thesis
      unfolding table_of_log_def emit_exit_table[OF emit exit]
      using exit dist
      by (auto simp: lookup_update_where look process_summary_snoc execs_def forks_def exits_def
          last_exit_def split: option.split)
  next
    case other
    then show ?thesis
      unfolding table_of_log_def emit_other_table[OF emit other]
      using dist
      by (auto simp: look process_summary_snoc execs_def forks_def exits_def split: option.split)
  qed
qed

section \<open>Properties\<close>

text \<open>
  C12. The processes table has one row for each pid that the log names as executing or
  as forked, and none else: parent and start are those of the first such event, the
  executable is that of its last exec (the parent's, if it never executed), exit code,
  signal and end are those of its last exit after that first event.
\<close>

theorem processes_table_is_log:
  assumes "emit_all emit_writer evs (open_writer v run) = Inr w"
  shows "table_lookup pr_pid k (t_processes (w_db w)) = process_summary k evs \<and>
    distinct (map pr_pid (t_processes (w_db w)))"
proof -
  have "table_of_log evs (w_db w)"
    using assms
  proof (rule emit_all_history)
    show "table_of_log [] (w_db (open_writer v run))"
      by (simp add: table_of_log_def open_writer_def empty_tables_def table_lookup_def
          process_summary_def since_creation_def)
  qed (rule table_of_log_step)
  then show ?thesis by (simp add: table_of_log_def)
qed

definition process_events :: "event list" where
  "process_events =
     [set_metadata ''executable'' ''/bin/sh'' (set_metadata ''child_pid'' ''101''
        (sample_event ProcessFork ''101'' 101)),
      (set_metadata ''ppid'' ''100'' (sample_event ProcessExec ''/bin/ls'' 0))\<lparr>ev_pid := 101\<rparr>,
      (set_metadata ''exit_code'' ''2'' (set_metadata ''term_signal'' ''0''
        (sample_event ProcessExit ''/bin/ls'' 2)))\<lparr>ev_pid := 101\<rparr>]"

definition process_writer :: "capsule_writer res" where
  "process_writer = emit_all emit_writer process_events (open_writer ''1'' sample_run)"

theorem processes_table_is_log_witness:
  "table_lookup pr_pid 101 (t_processes (w_db (projr process_writer))) =
     Some \<lparr>pr_pid = 101, pr_ppid = 100, pr_executable = ''/bin/ls'', pr_start_ns = 5,
           pr_end_ns = Some 5, pr_exit_code = Some 2, pr_term_signal = Some 0\<rparr>"
proof -
  have "\<not> isl process_writer"
    by code_simp
  then have "emit_all emit_writer process_events (open_writer ''1'' sample_run) =
      Inr (projr process_writer)"
    by (simp add: process_writer_def)
  from processes_table_is_log[OF this, of 101]
  have "table_lookup pr_pid 101 (t_processes (w_db (projr process_writer))) =
      process_summary 101 process_events"
    by blast
  also have "\<dots> = Some \<lparr>pr_pid = 101, pr_ppid = 100, pr_executable = ''/bin/ls'', pr_start_ns = 5,
           pr_end_ns = Some 5, pr_exit_code = Some 2, pr_term_signal = Some 0\<rparr>"
    by code_simp
  finally show ?thesis .
qed

end
