(* ===== verification/Tracee_Memory.thy ===== *)
theory Tracee_Memory
  imports Sockets
begin

text \<open>
  \<open>LinuxTraceeMemory\<close> (\<open>src/ptrace_collector.cpp\<close>): reading a tracee's strings and structures
  with \<open>process_vm_readv\<close> and, where that falls short, word by word with \<open>PTRACE_PEEKDATA\<close>.

  The two kernel calls are parameters: \<open>vm tid address n\<close> is what \<open>process_vm_readv\<close> copied
  (\<open>None\<close> for an error) and \<open>peek tid address\<close> the word at an address (\<open>None\<close> for an error).
\<close>

type_synonym vm_readv = "pid_t \<Rightarrow> u64 \<Rightarrow> nat \<Rightarrow> string option"
type_synonym peek_data = "pid_t \<Rightarrow> u64 \<Rightarrow> u64 option"

section \<open>The code\<close>

definition sizeof_long :: nat where
  "sizeof_long = 8"

text \<open>\<open>memcpy\<close> of a word on x86_64: its bytes, the lowest first.\<close>

definition word_bytes :: "u64 \<Rightarrow> string" where
  "word_bytes w = map (\<lambda>i. char_of (unat (drop_bit (8 * i) w))) [0 ..< sizeof_long]"

text \<open>The inner loop: append bytes up to a NUL or the limit; the flag says it returned.\<close>

fun push_bytes :: "nat \<Rightarrow> string \<Rightarrow> string \<Rightarrow> bool \<times> string" where
  "push_bytes limit acc [] = (False, acc)"
| "push_bytes limit acc (b # bs) =
     (if b = CHR 0x00 \<or> length acc = limit then (True, acc)
      else push_bytes limit (acc @ [b]) bs)"

function peek_string :: "(u64 \<Rightarrow> u64 option) \<Rightarrow> u64 \<Rightarrow> nat \<Rightarrow> nat \<Rightarrow> string \<Rightarrow> string" where
  "peek_string peek address limit offset acc =
     (if offset < limit then
        (case peek (address + word_of_nat offset) of
           None \<Rightarrow> acc
         | Some w \<Rightarrow>
             (case push_bytes limit acc (word_bytes w) of
                (True, acc') \<Rightarrow> acc'
              | (False, acc') \<Rightarrow> peek_string peek address limit (offset + sizeof_long) acc'))
      else acc)"
  by pat_completeness auto
termination
  by (relation "measure (\<lambda>(_, _, limit, offset, _). limit - offset)")
    (auto simp: sizeof_long_def)

declare peek_string.simps [simp del]

definition linux_read_string ::
  "vm_readv \<Rightarrow> peek_data \<Rightarrow> pid_t \<Rightarrow> u64 \<Rightarrow> nat \<Rightarrow> string" where
  "linux_read_string vm peek tid address max_length =
     (if address = 0 \<or> max_length = 0 then []
      else
        let fallback = peek_string (peek tid) address max_length 0 [] in
        case vm tid address max_length of
          None \<Rightarrow> fallback
        | Some copied \<Rightarrow>
            let buffer = take max_length copied in
            if buffer \<noteq> [] \<and> (CHR 0x00 \<in> set buffer \<or> length buffer = max_length)
            then takeWhile (\<lambda>c. c \<noteq> CHR 0x00) buffer
            else fallback)"

function peek_bytes :: "(u64 \<Rightarrow> u64 option) \<Rightarrow> u64 \<Rightarrow> nat \<Rightarrow> nat \<Rightarrow> string \<Rightarrow> string option" where
  "peek_bytes peek address n offset out =
     (if offset < n then
        (case peek (address + word_of_nat offset) of
           None \<Rightarrow> None
         | Some w \<Rightarrow>
             let copy_size = min sizeof_long (n - offset) in
             peek_bytes peek address n (offset + copy_size)
               (out @ take copy_size (word_bytes w)))
      else Some out)"
  by pat_completeness auto
termination
  by (relation "measure (\<lambda>(_, _, n, offset, _). n - offset)")
    (auto simp: sizeof_long_def)

declare peek_bytes.simps [simp del]

definition linux_read_bytes ::
  "vm_readv \<Rightarrow> peek_data \<Rightarrow> pid_t \<Rightarrow> u64 \<Rightarrow> nat \<Rightarrow> string option" where
  "linux_read_bytes vm peek tid address n =
     (if address = 0 \<or> n = 0 then None
      else
        case vm tid address n of
          None \<Rightarrow> peek_bytes (peek tid) address n 0 []
        | Some copied \<Rightarrow>
            if length copied = n then Some copied
            else peek_bytes (peek tid) address n 0 [])"

text \<open>The host of a callback, with the collector's memory.\<close>

definition linux_host ::
  "vm_readv \<Rightarrow> peek_data \<Rightarrow> (string \<Rightarrow> string option) \<Rightarrow> (nat \<Rightarrow> string \<Rightarrow> string option) \<Rightarrow>
   host" where
  "linux_host vm peek links ntop =
     \<lparr>read_string_at = linux_read_string vm peek, read_bytes_at = linux_read_bytes vm peek,
      read_symlink = links, inet_ntop = ntop\<rparr>"

section \<open>The interface's promise\<close>

lemma word_bytes_length [simp]: "length (word_bytes w) = sizeof_long"
  by (simp add: word_bytes_def)

lemma push_bytes_result:
  assumes "push_bytes limit acc bs = (r, acc')" "CHR 0x00 \<notin> set acc" "length acc \<le> limit"
  shows "CHR 0x00 \<notin> set acc' \<and> length acc' \<le> limit"
  using assms by (induction limit acc bs rule: push_bytes.induct) (auto split: if_splits)

lemma peek_string_result:
  assumes "CHR 0x00 \<notin> set acc" "length acc \<le> limit"
  shows "CHR 0x00 \<notin> set (peek_string peek address limit offset acc) \<and>
    length (peek_string peek address limit offset acc) \<le> limit"
  using assms
proof (induction peek address limit offset acc rule: peek_string.induct)
  case (1 peek address limit offset acc)
  show ?case
  proof (cases "offset < limit")
    case False
    with 1(2,3) show ?thesis by (simp add: peek_string.simps)
  next
    case True
    show ?thesis
    proof (cases "peek (address + word_of_nat offset)")
      case None
      with True 1(2,3) show ?thesis by (simp add: peek_string.simps)
    next
      case (Some w)
      obtain r acc' where p: "push_bytes limit acc (word_bytes w) = (r, acc')" by fastforce
      have ok: "CHR 0x00 \<notin> set acc'" "length acc' \<le> limit"
        using push_bytes_result[OF p 1(2,3)] by simp_all
      have "r = False \<Longrightarrow>
          CHR 0x00 \<notin> set (peek_string peek address limit (offset + sizeof_long) acc') \<and>
          length (peek_string peek address limit (offset + sizeof_long) acc') \<le> limit"
        using 1(1)[OF True Some p[symmetric] _ ok] by simp
      with ok show ?thesis
        by (subst (1 2) peek_string.simps) (cases r; simp add: True Some p)
    qed
  qed
qed

lemma peek_bytes_result:
  assumes "peek_bytes peek address n offset out = Some bs" "offset \<le> n"
    "length out = offset"
  shows "length bs = n"
  using assms
proof (induction peek address n offset out rule: peek_bytes.induct)
  case (1 peek address n offset out)
  show ?case
  proof (cases "offset < n")
    case False
    then have "peek_bytes peek address n offset out = Some out"
      by (subst peek_bytes.simps) simp
    with False 1(2-4) show ?thesis by simp
  next
    case True
    obtain w where w: "peek (address + word_of_nat offset) = Some w"
      using 1(2) True by (subst (asm) peek_bytes.simps) (auto split: option.splits)
    let ?k = "min sizeof_long (n - offset)"
    have "peek_bytes peek address n (offset + ?k) (out @ take ?k (word_bytes w)) = Some bs"
      using 1(2) True w by (subst (asm) peek_bytes.simps) (simp add: Let_def)
    then show ?thesis
      using 1(1)[OF True w refl] 1(4) True by simp
  qed
qed

interpretation linux_memory: tracee_memory "linux_read_string vm peek" "linux_read_bytes vm peek"
  for vm :: vm_readv and peek :: peek_data
proof
  fix tid address n bs
  have "CHR 0x00 \<notin> set (takeWhile (\<lambda>c. c \<noteq> CHR 0x00) s)" for s :: string
    by (auto dest: set_takeWhileD)
  then show "CHR 0x00 \<notin> set (linux_read_string vm peek tid address n)"
    using peek_string_result[of "[]" n "peek tid" address 0]
    by (auto simp: linux_read_string_def Let_def split: option.splits)
  have "length (takeWhile (\<lambda>c. c \<noteq> CHR 0x00) (take n s)) \<le> n" for s :: string
    by (rule order_trans[OF length_takeWhile_le]) simp
  then show "length (linux_read_string vm peek tid address n) \<le> n"
    using peek_string_result[of "[]" n "peek tid" address 0]
    by (auto simp: linux_read_string_def Let_def split: option.splits)
  assume "linux_read_bytes vm peek tid address n = Some bs"
  then show "length bs = n"
    using peek_bytes_result[of "peek tid" address n 0 "[]" bs]
    by (auto simp: linux_read_bytes_def split: option.splits if_splits)
qed

section \<open>Reads are faithful to the memory\<close>

text \<open>
  The tracee's memory as the kernel documents it: a byte for each readable address. A block
  copy is a prefix of the bytes asked for; a peek reads eight bytes or fails where one of
  them is not readable.
\<close>

definition holds_at :: "(u64 \<Rightarrow> char option) \<Rightarrow> u64 \<Rightarrow> string \<Rightarrow> bool" where
  "holds_at mem address bs \<longleftrightarrow>
     (\<forall>i < length bs. mem (address + word_of_nat i) = Some (bs ! i))"

definition kernel_reads :: "(u64 \<Rightarrow> char option) \<Rightarrow> pid_t \<Rightarrow> vm_readv \<Rightarrow> peek_data \<Rightarrow> bool" where
  "kernel_reads mem tid vm peek \<longleftrightarrow>
     (\<forall>address n bs. vm tid address n = Some bs \<longrightarrow> length bs \<le> n \<and> holds_at mem address bs) \<and>
     (\<forall>address w. peek tid address = Some w \<longrightarrow> holds_at mem address (word_bytes w))"

lemma holds_at_append:
  "holds_at mem address (xs @ ys) \<longleftrightarrow>
     holds_at mem address xs \<and> holds_at mem (address + word_of_nat (length xs)) ys"
proof -
  have "holds_at mem address (xs @ ys) \<longleftrightarrow>
      (\<forall>i < length xs. mem (address + word_of_nat i) = Some (xs ! i)) \<and>
      (\<forall>j < length ys. mem (address + word_of_nat (length xs + j)) = Some (ys ! j))"
  proof -
    have "(\<forall>i < m + n. Q i) \<longleftrightarrow> (\<forall>i < m. Q i) \<and> (\<forall>j < n. Q (m + j))" for Q and m n :: nat
      by (metis add_diff_inverse_nat nat_add_left_cancel_less trans_less_add1)
    from this[of "length xs" "length ys"
        "\<lambda>i. mem (address + word_of_nat i) = Some ((xs @ ys) ! i)"]
    show ?thesis by (simp add: holds_at_def nth_append)
  qed
  then show ?thesis by (simp add: holds_at_def add.assoc)
qed

lemma holds_at_take: "holds_at mem address bs \<Longrightarrow> holds_at mem address (take n bs)"
  using holds_at_append[of mem address "take n bs" "drop n bs"] by simp

lemma holds_at_takeWhile: "holds_at mem address bs \<Longrightarrow> holds_at mem address (takeWhile P bs)"
  using holds_at_append[of mem address "takeWhile P bs" "dropWhile P bs"] by simp

lemma push_bytes_holds:
  assumes "push_bytes limit acc bs = (r, acc')" "holds_at mem address (acc @ bs)"
  shows "holds_at mem address acc' \<and> (\<not> r \<longrightarrow> acc' = acc @ bs) \<and>
    (r \<longrightarrow> length acc' = limit \<or> mem (address + word_of_nat (length acc')) = Some (CHR 0x00))"
  using assms
proof (induction limit acc bs rule: push_bytes.induct)
  case (1 limit acc)
  then show ?case by simp
next
  case (2 limit acc b bs)
  show ?case
  proof (cases "b = CHR 0x00 \<or> length acc = limit")
    case True
    have "mem (address + word_of_nat (length acc)) = Some b"
      using 2(3) by (auto simp: holds_at_append[of _ _ acc] holds_at_def[of _ _ "b # bs"])
    moreover have "holds_at mem address acc"
      using 2(3) by (simp add: holds_at_append)
    ultimately show ?thesis
      using 2(2) True by (auto split: if_splits)
  next
    case False
    then show ?thesis using 2 by simp
  qed
qed

lemma peek_string_holds:
  assumes "\<And>a w. peek a = Some w \<Longrightarrow> holds_at mem a (word_bytes w)"
    and "holds_at mem address acc" "length acc = offset" "offset \<le> limit" "CHR 0x00 \<notin> set acc"
    and "s = peek_string peek address limit offset acc"
  shows "holds_at mem address s \<and>
    (length s = limit \<or> mem (address + word_of_nat (length s)) = Some (CHR 0x00) \<or>
     peek (address + word_of_nat (length s)) = None)"
  using assms
proof (induction peek address limit offset acc rule: peek_string.induct)
  case (1 peek address limit offset acc)
  show ?case
  proof (cases "offset < limit")
    case False
    then have "s = acc"
      unfolding 1(7) by (subst peek_string.simps) simp
    with False 1(3-5) show ?thesis by simp
  next
    case True
    show ?thesis
    proof (cases "peek (address + word_of_nat offset)")
      case None
      then have "s = acc"
        unfolding 1(7) by (subst peek_string.simps) simp
      with None 1(3-5) show ?thesis by simp
    next
      case (Some w)
      obtain r acc' where p: "push_bytes limit acc (word_bytes w) = (r, acc')" by fastforce
      have "holds_at mem address (acc @ word_bytes w)"
        using 1(2)[OF Some] 1(3,4) by (simp add: holds_at_append)
      note h = push_bytes_holds[OF p this]
      have len: "CHR 0x00 \<notin> set acc'" "length acc' \<le> limit"
        using push_bytes_result[OF p] 1(4-6) by simp_all
      show ?thesis
      proof (cases r)
        case True
        then have "s = acc'"
          unfolding 1(7) by (subst peek_string.simps) (simp add: \<open>offset < limit\<close> Some p)
        with h True show ?thesis by blast
      next
        case False
        then have s: "s = peek_string peek address limit (offset + sizeof_long) acc'"
          unfolding 1(7) by (subst peek_string.simps) (simp add: \<open>offset < limit\<close> Some p)
        have "length acc' = offset + sizeof_long"
          using h False 1(4) by simp
        moreover have "holds_at mem address acc'" "\<not> r"
          using h False by blast+
        ultimately show ?thesis
          using 1(1)[OF True Some p[symmetric] _ 1(2) _ _ _ len(1) s] len(2) by simp
      qed
    qed
  qed
qed

lemma peek_bytes_holds:
  assumes "\<And>a w. peek a = Some w \<Longrightarrow> holds_at mem a (word_bytes w)"
    and "peek_bytes peek address n offset out = Some bs"
    and "holds_at mem address out" "length out = offset" "offset \<le> n"
  shows "holds_at mem address bs"
  using assms
proof (induction peek address n offset out rule: peek_bytes.induct)
  case (1 peek address n offset out)
  show ?case
  proof (cases "offset < n")
    case False
    then have "peek_bytes peek address n offset out = Some out"
      by (subst peek_bytes.simps) simp
    with 1(3,4) show ?thesis by simp
  next
    case True
    obtain w where w: "peek (address + word_of_nat offset) = Some w"
      using 1(3) True by (subst (asm) peek_bytes.simps) (auto split: option.splits)
    let ?k = "min sizeof_long (n - offset)"
    have "peek_bytes peek address n (offset + ?k) (out @ take ?k (word_bytes w)) = Some bs"
      using 1(3) True w by (subst (asm) peek_bytes.simps) (simp add: Let_def)
    moreover have "holds_at mem address (out @ take ?k (word_bytes w))"
      using 1(2)[OF w] 1(4,5) holds_at_take by (simp add: holds_at_append)
    ultimately show ?thesis
      using 1(1)[OF True w refl 1(2)] 1(5) True by simp
  qed
qed

section \<open>Properties\<close>

text \<open>
  C27. Whatever mix of block copies and word peeks the kernel answers, a string read
  returns bytes that the tracee holds at the address, at most the limit, without a NUL, and
  it stops early only at a NUL of the tracee or where the next word cannot be peeked; a
  block read returns exactly the bytes that the tracee holds there.
\<close>

theorem tracee_reads_faithful:
  assumes "kernel_reads mem tid vm peek" "address \<noteq> 0"
    and s_def: "s = linux_read_string vm peek tid address n"
  shows "holds_at mem address s \<and> CHR 0x00 \<notin> set s \<and> length s \<le> n \<and>
    (length s = n \<or> mem (address + word_of_nat (length s)) = Some (CHR 0x00) \<or>
     peek tid (address + word_of_nat (length s)) = None) \<and>
    (\<forall>bs. linux_read_bytes vm peek tid address n = Some bs \<longrightarrow>
       length bs = n \<and> holds_at mem address bs)"
proof -
  have vm: "\<And>bs. vm tid address n = Some bs \<Longrightarrow> length bs \<le> n \<and> holds_at mem address bs"
    and pk: "\<And>a w. peek tid a = Some w \<Longrightarrow> holds_at mem a (word_bytes w)"
    using assms(1) by (auto simp: kernel_reads_def)
  have nil: "holds_at mem address []"
    by (simp add: holds_at_def)
  let ?ends = "\<lambda>s. holds_at mem address s \<and>
    (length s = n \<or> mem (address + word_of_nat (length s)) = Some (CHR 0x00) \<or>
     peek tid (address + word_of_nat (length s)) = None)"
  have fallback: "?ends (peek_string (peek tid) address n 0 [])"
    using peek_string_holds[OF pk nil _ _ _ refl] by simp
  have copied: "?ends (takeWhile (\<lambda>c. c \<noteq> CHR 0x00) bs)"
    if bs: "vm tid address n = Some bs" "CHR 0x00 \<in> set bs \<or> length bs = n" for bs
  proof (cases "CHR 0x00 \<in> set bs")
    case True
    obtain xs ys where x: "bs = xs @ CHR 0x00 # ys" "CHR 0x00 \<notin> set xs"
      using True by (meson split_list_first)
    then have "takeWhile (\<lambda>c. c \<noteq> CHR 0x00) bs = xs"
      by (simp add: takeWhile_append takeWhile_eq_all_conv)
    moreover have "holds_at mem address xs \<and>
        mem (address + word_of_nat (length xs)) = Some (CHR 0x00)"
      using vm[OF bs(1)] unfolding x(1) holds_at_append
      by (auto simp: holds_at_def[of _ _ "_ # _"])
    ultimately show ?thesis by simp
  next
    case False
    then have "takeWhile (\<lambda>c. c \<noteq> CHR 0x00) bs = bs"
      by (intro takeWhile_eq_all_conv[THEN iffD2]) blast
    with bs vm False show ?thesis by metis
  qed
  have "?ends s"
  proof (cases "n = 0")
    case True
    then show ?thesis by (simp add: s_def linux_read_string_def nil)
  next
    case False
    then show ?thesis
      using fallback copied vm assms(2)
      by (auto simp: s_def linux_read_string_def Let_def split: option.splits)
  qed
  moreover have "CHR 0x00 \<notin> set s \<and> length s \<le> n"
    unfolding s_def using linux_memory.rd_string_no_nul linux_memory.rd_string_length by blast
  moreover have "length bs = n \<and> holds_at mem address bs"
    if "linux_read_bytes vm peek tid address n = Some bs" for bs
    using that linux_memory.rd_bytes_length[OF that] vm peek_bytes_holds[OF pk _ nil]
    by (auto simp: linux_read_bytes_def split: option.splits if_splits)
  ultimately show ?thesis by simp
qed

text \<open>A tracee that holds zeros everywhere, of which the kernel copies one byte at a time.\<close>

definition zero_vm :: vm_readv where
  "zero_vm tid address n = Some (take 1 (replicate n (CHR 0x00)))"

definition zero_peek :: peek_data where
  "zero_peek tid address = Some 0"

theorem tracee_reads_faithful_witness:
  "linux_read_bytes zero_vm zero_peek 7 4096 2 = Some [CHR 0x00, CHR 0x00] \<and>
   holds_at (\<lambda>_. Some (CHR 0x00)) 4096 [CHR 0x00, CHR 0x00]"
proof -
  have "word_bytes 0 = replicate sizeof_long (CHR 0x00)"
    by code_simp
  then have "\<forall>i < sizeof_long. word_bytes 0 ! i = CHR 0x00"
    by simp
  then have k: "kernel_reads (\<lambda>_. Some (CHR 0x00)) 7 zero_vm zero_peek"
    by (simp add: kernel_reads_def zero_vm_def zero_peek_def holds_at_def)
  have "linux_read_bytes zero_vm zero_peek 7 4096 2 = Some [CHR 0x00, CHR 0x00]"
    by code_simp
  moreover have "\<forall>bs. linux_read_bytes zero_vm zero_peek 7 4096 2 = Some bs \<longrightarrow>
      holds_at (\<lambda>_. Some (CHR 0x00)) 4096 bs"
    using tracee_reads_faithful[OF k _ refl, of 4096 2] by simp
  ultimately show ?thesis by blast
qed

end
