(* ===== verification/Collector.thy ===== *)
theory Collector
  imports Exec_Machine Tracee_Memory Collector_Types
begin

text \<open>
  The ptrace collector (\<open>src/ptrace_collector.cpp\<close>): the wait loop that turns the kernel's
  stops into callbacks of the execution state and feeds their events to the sink.

  Every answer of the kernel is an argument. One answer of \<open>waitpid\<close> and the answers to the
  calls that its handling may make are a \<open>wakeup\<close>; the loop consumes a list of them and
  reports \<open>Waiting\<close> where the list ends while a tracee is alive. \<open>strerror\<close> and the sink's
  \<open>emit\<close> are parameters; an exception of either the callbacks or the sink ends the collection.
\<close>

section \<open>Wait statuses\<close>

definition WTERMSIG :: "u32 \<Rightarrow> nat" where
  "WTERMSIG status = unat (status AND 0x7F)"

definition WIFEXITED :: "u32 \<Rightarrow> bool" where
  "WIFEXITED status \<longleftrightarrow> WTERMSIG status = 0"

definition WEXITSTATUS :: "u32 \<Rightarrow> nat" where
  "WEXITSTATUS status = unat (drop_bit 8 status AND 0xFF)"

definition WIFSIGNALED :: "u32 \<Rightarrow> bool" where
  "WIFSIGNALED status \<longleftrightarrow> 1 \<le> WTERMSIG status \<and> WTERMSIG status < 0x7F"

definition WIFSTOPPED :: "u32 \<Rightarrow> bool" where
  "WIFSTOPPED status \<longleftrightarrow> status AND 0xFF = 0x7F"

definition WSTOPSIG :: "u32 \<Rightarrow> nat" where
  "WSTOPSIG status = WEXITSTATUS status"

definition stop_event :: "u32 \<Rightarrow> nat" where
  "stop_event status = unat (drop_bit 16 status)"

definition SIGKILL :: nat where "SIGKILL = 9"
definition SIGTRAP :: nat where "SIGTRAP = 5"
definition SIGSTOP :: nat where "SIGSTOP = 19"
definition syscall_stop :: nat where "syscall_stop = 133"

definition ESRCH :: int where "ESRCH = 3"
definition EINTR :: int where "EINTR = 4"
definition ECHILD :: int where "ECHILD = 10"

definition kMaximumCommandWrite :: int where
  "kMaximumCommandWrite = 65 * 1024"

section \<open>The command channel\<close>

text \<open>\<open>CommandChannelTracker\<close>: the descriptors of the root that name the context file.\<close>

definition F_DUPFD :: u64 where "F_DUPFD = 0"
definition F_DUPFD_CLOEXEC :: u64 where "F_DUPFD_CLOEXEC = 1030"

definition command_channel :: "int option \<Rightarrow> int set" where
  "command_channel channel_fd = (case channel_fd of None \<Rightarrow> {} | Some fd \<Rightarrow> {fd})"

definition receives :: "int set \<Rightarrow> raw_syscall \<Rightarrow> bool" where
  "receives aliases sc \<longleftrightarrow> sc_number sc = nr_write \<and> arg_int (a0 (sc_args sc)) \<in> aliases"

definition assign_alias :: "int set \<Rightarrow> int \<Rightarrow> bool \<Rightarrow> int set" where
  "assign_alias aliases fd is_alias =
     (if is_alias then insert fd aliases else aliases - {fd})"

definition observe :: "int set \<Rightarrow> raw_syscall \<Rightarrow> int set" where
  "observe aliases sc =
     (if sc_result sc < 0 then aliases
      else
        let source = arg_int (a0 (sc_args sc)); nr = sc_number sc in
        if nr = nr_close then aliases - {source}
        else if nr = nr_dup then
          assign_alias aliases (to_int32 (sc_result sc)) (source \<in> aliases)
        else if nr = nr_dup2 \<or> nr = nr_dup3 then
          (let destination = arg_int (a1 (sc_args sc)) in
           if source \<noteq> destination then assign_alias aliases destination (source \<in> aliases)
           else aliases)
        else if nr = nr_fcntl \<and>
                (a1 (sc_args sc) = F_DUPFD \<or> a1 (sc_args sc) = F_DUPFD_CLOEXEC) then
          assign_alias aliases (to_int32 (sc_result sc)) (source \<in> aliases)
        else aliases)"

section \<open>Kernel answers\<close>

datatype wait_answer =
    Wait_failed int
  | Wait_status pid_t u32

record user_regs =
  orig_rax :: u64
  rdi :: u64
  rsi :: u64
  rdx :: u64
  r10 :: u64
  r8 :: u64
  r9 :: u64
  rax :: u64

record wakeup =
  wk_wait :: wait_answer
  wk_now :: u64
  wk_options :: "int option"
  wk_regs :: "int + user_regs"
  wk_message :: "int + u64"
  wk_resume :: "int option"
  wk_host :: host

definition set_options :: "(int \<Rightarrow> string) \<Rightarrow> pid_t \<Rightarrow> int option \<Rightarrow> string option" where
  "set_options strerror tid answer =
     (case answer of
        None \<Rightarrow> None
      | Some e \<Rightarrow> Some (''PTRACE_SETOPTIONS for tid '' @ show_int tid @ '': '' @ strerror e))"

definition resume_syscall :: "(int \<Rightarrow> string) \<Rightarrow> pid_t \<Rightarrow> int option \<Rightarrow> string option" where
  "resume_syscall strerror tid answer =
     (case answer of
        None \<Rightarrow> None
      | Some e \<Rightarrow>
          if e = ESRCH then None
          else Some (''PTRACE_SYSCALL for tid '' @ show_int tid @ '': '' @ strerror e))"

section \<open>The collector's state\<close>

record thread_state =
  in_syscall :: bool
  th_number :: int
  th_args :: syscall_args

definition new_thread :: thread_state where
  "new_thread = \<lparr>in_syscall = False, th_number = 0,
     th_args = \<lparr>a0 = 0, a1 = 0, a2 = 0, a3 = 0, a4 = 0, a5 = 0\<rparr>\<rparr>"

record 's collector =
  execution :: execution_state
  protocol :: command_protocol
  channel :: "int set"
  live_tids :: "pid_t set"
  configured_tids :: "pid_t set"
  threads :: "pid_t \<rightharpoonup> thread_state"
  root_status_seen :: bool
  partial_result :: collection_result
  resumed :: "(pid_t \<times> nat) list"
  marker_bytes :: string
  sink :: 's

text \<open>
  Two fields log effects: \<open>resumed\<close> the \<open>PTRACE_SYSCALL\<close> requests, the thread and the signal it
  is given; \<open>marker_bytes\<close> what was read from writes to the command channel. Nothing reads them.
\<close>

definition asked :: "pid_t \<Rightarrow> nat \<Rightarrow> 's collector \<Rightarrow> 's collector" where
  "asked tid sig c = c\<lparr>resumed := resumed c @ [(tid, sig)]\<rparr>"

lemma asked_simps [simp]:
  "execution (asked tid sig c) = execution c" "protocol (asked tid sig c) = protocol c"
  "channel (asked tid sig c) = channel c" "live_tids (asked tid sig c) = live_tids c"
  "configured_tids (asked tid sig c) = configured_tids c" "threads (asked tid sig c) = threads c"
  "root_status_seen (asked tid sig c) = root_status_seen c"
  "partial_result (asked tid sig c) = partial_result c" "sink (asked tid sig c) = sink c"
  "resumed (asked tid sig c) = resumed c @ [(tid, sig)]"
  "marker_bytes (asked tid sig c) = marker_bytes c"
  by (simp_all add: asked_def)

text \<open>Where one pass of the loop leads: on, out of the loop, or out of \<open>collect\<close>.\<close>

datatype 'a flow = Next 'a | Break 'a | Return collection_result 'a

definition fail :: "string \<Rightarrow> 's collector \<Rightarrow> 's collector flow" where
  "fail message c = Return ((partial_result c)\<lparr>collect_error := message\<rparr>) c"

definition resume_or_fail ::
  "(int \<Rightarrow> string) \<Rightarrow> pid_t \<Rightarrow> nat \<Rightarrow> wakeup \<Rightarrow> 's collector \<Rightarrow> 's collector flow" where
  "resume_or_fail strerror tid sig w c =
     (case resume_syscall strerror tid (wk_resume w) of
        None \<Rightarrow> Next (asked tid sig c)
      | Some message \<Rightarrow> fail message (asked tid sig c))"

text \<open>A callback's events go to the sink in order; the sink may throw.\<close>

definition deliver ::
  "(event \<Rightarrow> 's \<Rightarrow> 's res) \<Rightarrow> execution_state \<times> event list \<Rightarrow> 's collector \<Rightarrow>
   's collector res" where
  "deliver emit r c =
     bind_res (emit_all emit (snd r) (sink c)) (\<lambda>s.
       Inr (c\<lparr>execution := fst r, sink := s\<rparr>))"

section \<open>Handling one stop\<close>

definition handle_exit ::
  "(event \<Rightarrow> 's \<Rightarrow> 's res) \<Rightarrow> pid_t \<Rightarrow> pid_t \<Rightarrow> u32 \<Rightarrow> wakeup \<Rightarrow> 's collector \<Rightarrow>
   's collector res" where
  "handle_exit emit root tid status w c =
     (let code = (if WIFEXITED status then int (WEXITSTATUS status) else - 1);
          sig = (if WIFSIGNALED status then int (WTERMSIG status) else 0) in
      bind_res (deliver emit (on_process_exit (execution c) tid code sig (wk_now w)) c) (\<lambda>c.
        let c1 = c\<lparr>live_tids := live_tids c - {tid},
                   configured_tids := configured_tids c - {tid},
                   threads := (threads c)(tid := None)\<rparr> in
        Inr (if tid = root then
               c1\<lparr>partial_result := (partial_result c1)
                    \<lparr>exit_code := exit_result code sig, term_signal := sig\<rparr>,
                  root_status_seen := True\<rparr>
             else c1)))"

definition deliver_markers ::
  "(event \<Rightarrow> 's \<Rightarrow> 's res) \<Rightarrow> pid_t \<Rightarrow> u64 \<Rightarrow> command_marker list \<Rightarrow> 's collector \<Rightarrow>
   's collector res" where
  "deliver_markers emit tid ts markers c =
     fold_res (\<lambda>m c. bind_res (on_command_marker (execution c) tid m ts) (\<lambda>r. deliver emit r c))
       markers c"

definition command_write ::
  "(event \<Rightarrow> 's \<Rightarrow> 's res) \<Rightarrow> pid_t \<Rightarrow> wakeup \<Rightarrow> raw_syscall \<Rightarrow> 's collector \<Rightarrow>
   's collector res" where
  "command_write emit root w sc c =
     (if sc_tid sc = root \<and> receives (channel c) sc \<and> 0 < sc_result sc then
        (if kMaximumCommandWrite < sc_result sc then
           Inl (Runtime_error ''command marker write exceeds 65 KiB'')
         else
           (case read_bytes_at (wk_host w) (sc_tid sc) (a1 (sc_args sc)) (nat (sc_result sc)) of
              None \<Rightarrow> Inl (Runtime_error ''cannot read command marker from tracee'')
            | Some bytes \<Rightarrow>
                bind_res (consume (protocol c) bytes) (\<lambda>(p, markers).
                  deliver_markers emit (sc_tid sc) (sc_timestamp_ns sc) markers
                    (c\<lparr>protocol := p, marker_bytes := marker_bytes c @ bytes\<rparr>))))
      else Inr c)"

definition syscall_of_stop ::
  "'s collector \<Rightarrow> pid_t \<Rightarrow> thread_state \<Rightarrow> user_regs \<Rightarrow> u64 \<Rightarrow> raw_syscall" where
  "syscall_of_stop c tid th regs now =
     \<lparr>sc_pid = process_for_thread (execution c) tid, sc_tid = tid, sc_number = th_number th,
      sc_args = th_args th, sc_result = sint (rax regs), sc_timestamp_ns = now\<rparr>"

definition handle_syscall_regs ::
  "(event \<Rightarrow> 's \<Rightarrow> 's res) \<Rightarrow> pid_t \<Rightarrow> pid_t \<Rightarrow> wakeup \<Rightarrow> user_regs \<Rightarrow> 's collector \<Rightarrow>
   's collector res" where
  "handle_syscall_regs emit root tid w regs c =
     (let th = (case threads c tid of None \<Rightarrow> new_thread | Some th \<Rightarrow> th) in
      if \<not> in_syscall th then
        Inr (c\<lparr>threads := (threads c)(tid \<mapsto>
               \<lparr>in_syscall = True, th_number = sint (orig_rax regs),
                th_args = \<lparr>a0 = rdi regs, a1 = rsi regs, a2 = rdx regs, a3 = r10 regs,
                           a4 = r8 regs, a5 = r9 regs\<rparr>\<rparr>)\<rparr>)
      else
        let sc = syscall_of_stop c tid th regs (wk_now w) in
        bind_res (command_write emit root w sc c) (\<lambda>c1.
          let c2 = (if tid = root then c1\<lparr>channel := observe (channel c1) sc\<rparr> else c1) in
          bind_res (deliver emit (on_syscall_exit (wk_host w) (execution c2) sc) c2) (\<lambda>c3.
            Inr (c3\<lparr>threads := (threads c3)(tid \<mapsto> th\<lparr>in_syscall := False\<rparr>)\<rparr>))))"

definition handle_syscall_stop ::
  "(int \<Rightarrow> string) \<Rightarrow> (event \<Rightarrow> 's \<Rightarrow> 's res) \<Rightarrow> pid_t \<Rightarrow> pid_t \<Rightarrow> wakeup \<Rightarrow> 's collector \<Rightarrow>
   's collector flow res" where
  "handle_syscall_stop strerror emit root tid w c =
     (case wk_regs w of
        Inl e \<Rightarrow>
          Inr (if e \<noteq> ESRCH then
                 fail (''PTRACE_GETREGS for tid '' @ show_int tid @ '': '' @ strerror e) c
               else resume_or_fail strerror tid 0 w c)
      | Inr regs \<Rightarrow>
          bind_res (handle_syscall_regs emit root tid w regs c) (\<lambda>c'.
            Inr (resume_or_fail strerror tid 0 w c')))"

definition is_creation :: "nat \<Rightarrow> bool" where
  "is_creation ev \<longleftrightarrow>
     ev = PTRACE_EVENT_FORK \<or> ev = PTRACE_EVENT_VFORK \<or> ev = PTRACE_EVENT_CLONE"

definition handle_event_stop ::
  "(int \<Rightarrow> string) \<Rightarrow> (event \<Rightarrow> 's \<Rightarrow> 's res) \<Rightarrow> pid_t \<Rightarrow> nat \<Rightarrow> wakeup \<Rightarrow> 's collector \<Rightarrow>
   's collector flow res" where
  "handle_event_stop strerror emit tid ev w c =
     (if is_creation ev then
        (case wk_message w of
           Inl e \<Rightarrow>
             Inr (fail (''PTRACE_GETEVENTMSG for tid '' @ show_int tid @ '': '' @ strerror e) c)
         | Inr msg \<Rightarrow>
             let child = to_int32 (uint msg);
                 clone_flags = (case threads c tid of None \<Rightarrow> 0 | Some th \<Rightarrow> a0 (th_args th)) in
             bind_res (deliver emit
                 (on_process_created (execution c) tid child ev clone_flags (wk_now w)) c)
               (\<lambda>c'. Inr (resume_or_fail strerror tid 0 w
                              (c'\<lparr>live_tids := insert child (live_tids c')\<rparr>))))
      else if ev = PTRACE_EVENT_EXEC then
        bind_res (deliver emit (on_process_exec (wk_host w) (execution c) tid (wk_now w)) c)
          (\<lambda>c'. Inr (resume_or_fail strerror tid 0 w c'))
      else Inr (resume_or_fail strerror tid 0 w c))"

text \<open>The signal that a stopped tracee is resumed with: its own, except that a stop is swallowed.\<close>

definition delivered_signal :: "nat \<Rightarrow> nat" where
  "delivered_signal sig = (if sig = SIGSTOP then 0 else sig)"

definition handle_stop ::
  "(int \<Rightarrow> string) \<Rightarrow> (event \<Rightarrow> 's \<Rightarrow> 's res) \<Rightarrow> pid_t \<Rightarrow> pid_t \<Rightarrow> u32 \<Rightarrow> wakeup \<Rightarrow>
   's collector \<Rightarrow> 's collector flow res" where
  "handle_stop strerror emit root tid status w c0 =
     (let c = c0\<lparr>live_tids := insert tid (live_tids c0)\<rparr>;
          options_error = (if tid \<in> configured_tids c then None
                           else set_options strerror tid (wk_options w)) in
      case options_error of
        Some message \<Rightarrow> Inr (fail message c)
      | None \<Rightarrow>
          let c = c\<lparr>configured_tids := insert tid (configured_tids c)\<rparr>;
              sig = WSTOPSIG status; ev = stop_event status in
          if sig = syscall_stop then handle_syscall_stop strerror emit root tid w c
          else if sig = SIGTRAP \<and> ev \<noteq> 0 then handle_event_stop strerror emit tid ev w c
          else Inr (resume_or_fail strerror tid (delivered_signal sig) w c))"

definition loop_step ::
  "(int \<Rightarrow> string) \<Rightarrow> (event \<Rightarrow> 's \<Rightarrow> 's res) \<Rightarrow> pid_t \<Rightarrow> wakeup \<Rightarrow> 's collector \<Rightarrow>
   's collector flow res" where
  "loop_step strerror emit root w c =
     (case wk_wait w of
        Wait_failed e \<Rightarrow>
          Inr (if e = EINTR then Next c
               else if e = ECHILD then Break c
               else fail (''waitpid: '' @ strerror e) c)
      | Wait_status tid status \<Rightarrow>
          if WIFEXITED status \<or> WIFSIGNALED status then
            bind_res (handle_exit emit root tid status w c) (\<lambda>c'. Inr (Next c'))
          else if \<not> WIFSTOPPED status then Inr (Next c)
          else handle_stop strerror emit root tid status w c)"

section \<open>The loop and its frame\<close>

datatype 'a loop_end = Finished 'a | Returned collection_result 'a | Waiting 'a

fun wait_loop ::
  "(int \<Rightarrow> string) \<Rightarrow> (event \<Rightarrow> 's \<Rightarrow> 's res) \<Rightarrow> pid_t \<Rightarrow> wakeup list \<Rightarrow> 's collector \<Rightarrow>
   's collector loop_end res" where
  "wait_loop strerror emit root [] c =
     Inr (if live_tids c = {} then Finished c else Waiting c)"
| "wait_loop strerror emit root (w # ws) c =
     (if live_tids c = {} then Inr (Finished c)
      else
        bind_res (loop_step strerror emit root w c) (\<lambda>f.
          case f of
            Next c' \<Rightarrow> wait_loop strerror emit root ws c'
          | Break c' \<Rightarrow> Inr (Finished c')
          | Return r c' \<Rightarrow> Inr (Returned r c')))"

record launch =
  la_cwd :: "string option"
  la_fork :: "int + pid_t"
  la_wait :: "int + u32"
  la_options :: "int option"
  la_now :: u64
  la_resume :: "int option"
  la_end :: u64

text \<open>The part after the loop.\<close>

definition conclude ::
  "collection_request \<Rightarrow> u64 \<Rightarrow> 's collector \<Rightarrow> (collection_result \<times> 's) res" where
  "conclude request now c =
     (let r = (partial_result c)\<lparr>collector_ok := True, end_ns := now\<rparr>;
          finished = (if command_channel_fd request = None then Inr ()
                      else finish_protocol (protocol c)) in
      bind_res finished (\<lambda>_.
        Inr (if root_status_seen c then r
             else r\<lparr>collector_ok := False,
                     collect_error := ''root tracee status was not observed''\<rparr>, sink c)))"

datatype 's collect_end = Collected collection_result 's | Blocked

definition start_collector ::
  "collection_request \<Rightarrow> pid_t \<Rightarrow> execution_state \<Rightarrow> 's \<Rightarrow> 's collector" where
  "start_collector request root st s =
     \<lparr>execution = st, protocol = empty_protocol,
      channel = command_channel (command_channel_fd request), live_tids = {root},
      configured_tids = {root}, threads = Map.empty, root_status_seen = False,
      partial_result = initial_result, resumed = [], marker_bytes = [], sink = s\<rparr>"

definition run_tracees ::
  "(int \<Rightarrow> string) \<Rightarrow> (event \<Rightarrow> 's \<Rightarrow> 's res) \<Rightarrow> collection_request \<Rightarrow> launch \<Rightarrow> wakeup list \<Rightarrow>
   pid_t \<Rightarrow> 's \<Rightarrow> 's collect_end res" where
  "run_tracees strerror emit request la ws root s =
     (let cwd = (case la_cwd la of None \<Rightarrow> [] | Some d \<Rightarrow> d);
          r = add_initial_process empty_execution root cwd (root_command request) (la_now la) in
      bind_res (deliver emit r (start_collector request root (fst r) s)) (\<lambda>c.
        case resume_syscall strerror root (la_resume la) of
          Some message \<Rightarrow>
            Inr (Collected (initial_result\<lparr>collect_error := message\<rparr>) (sink c))
        | None \<Rightarrow>
            bind_res (wait_loop strerror emit root ws (asked root 0 c)) (\<lambda>l.
              case l of
                Finished c' \<Rightarrow>
                  bind_res (conclude request (la_end la) c') (\<lambda>(res, s'). Inr (Collected res s'))
              | Returned res c' \<Rightarrow> Inr (Collected res (sink c'))
              | Waiting c' \<Rightarrow> Inr Blocked)))"

definition collect ::
  "(int \<Rightarrow> string) \<Rightarrow> (event \<Rightarrow> 's \<Rightarrow> 's res) \<Rightarrow> collection_request \<Rightarrow> launch \<Rightarrow> wakeup list \<Rightarrow>
   's \<Rightarrow> 's collect_end res" where
  "collect strerror emit request la ws s =
     (let failed = (\<lambda>message. Inr (Collected (initial_result\<lparr>collect_error := message\<rparr>) s)) in
      if command request = [] then failed ''record requires a command after --''
      else case la_fork la of
        Inl e \<Rightarrow> failed (''fork: '' @ strerror e)
      | Inr root \<Rightarrow>
          (case la_wait la of
             Inl e \<Rightarrow> failed (''waitpid: '' @ strerror e)
           | Inr status \<Rightarrow>
               if \<not> WIFSTOPPED status then
                 failed ''tracee did not enter its initial ptrace stop''
               else
                 (case set_options strerror root (la_options la) of
                    Some message \<Rightarrow> failed message
                  | None \<Rightarrow> run_tracees strerror emit request la ws root s)))"

section \<open>The child before exec\<close>

text \<open>
  What the forked child does: it exits with a message, or becomes the command. The answers of
  \<open>PTRACE_TRACEME\<close>, \<open>raise\<close>, \<open>setenv\<close> and \<open>execvp\<close> are arguments.
\<close>

datatype child_end = Child_exits int string | Child_runs "string list"

fun set_environment ::
  "(string \<Rightarrow> string \<Rightarrow> int option) \<Rightarrow> (string \<times> string) list \<Rightarrow> (string \<times> int) option" where
  "set_environment setenv [] = None"
| "set_environment setenv ((name, val) # env) =
     (case setenv (c_str name) (c_str val) of
        Some e \<Rightarrow> Some (name, e)
      | None \<Rightarrow> set_environment setenv env)"

definition child_process ::
  "(int \<Rightarrow> string) \<Rightarrow> bool \<Rightarrow> bool \<Rightarrow> (string \<Rightarrow> string \<Rightarrow> int option) \<Rightarrow> int option \<Rightarrow>
   collection_request \<Rightarrow> child_end" where
  "child_process strerror traced stopped setenv execvp request =
     (if \<not> traced then Child_exits 126 []
      else if \<not> stopped then Child_exits 126 []
      else case set_environment setenv (environment request) of
        Some (name, e) \<Rightarrow>
          Child_exits 126 (''whyrun: setenv '' @ name @ '': '' @ strerror e @ [newline])
      | None \<Rightarrow>
          (case execvp of
             None \<Rightarrow> Child_runs (map c_str (command request))
           | Some e \<Rightarrow>
               Child_exits 127
                 (''whyrun: execvp '' @ hd (command request) @ '': '' @ strerror e @ [newline])))"

section \<open>The guard\<close>

text \<open>\<open>~TraceeGuard\<close>: what it sends to the tracees, and the loop that reaps them.\<close>

datatype guard_action = Kill pid_t | Continue_with_kill pid_t

fun reap :: "wait_answer list \<Rightarrow> pid_t set \<Rightarrow> guard_action list \<times> pid_t set" where
  "reap [] tids = ([], tids)"
| "reap (a # as) tids =
     (if tids = {} then ([], tids)
      else case a of
        Wait_failed e \<Rightarrow> if e = EINTR then reap as tids else ([], tids)
      | Wait_status tid status \<Rightarrow>
          if WIFEXITED status \<or> WIFSIGNALED status then reap as (tids - {tid})
          else if WIFSTOPPED status then apfst (Cons (Continue_with_kill tid)) (reap as tids)
          else reap as tids)"

definition tracee_guard ::
  "pid_t list \<Rightarrow> wait_answer list \<Rightarrow> guard_action list \<times> pid_t set" where
  "tracee_guard tids answers = apfst (append (map Kill tids)) (reap answers (set tids))"

section \<open>The collector drives the execution state and the sink\<close>

lemma exec_trace_append:
  "exec_trace st tr st1 \<Longrightarrow> exec_trace st1 tr' st2 \<Longrightarrow> exec_trace st (tr @ tr') st2"
  by (induction rule: exec_trace.induct) auto

lemma trace_events_append [simp]: "trace_events (tr @ tr') = trace_events tr @ trace_events tr'"
  by (simp add: trace_events_def)

lemma exec_trace_root: "exec_trace st tr st' \<Longrightarrow> root_pid st' = root_pid st"
  by (induction rule: exec_trace.induct) (auto dest: exec_step_root)

text \<open>
  What a pass of the loop does to the execution state is a run of its callbacks, and what it
  does to the sink is to emit the events of that run.
\<close>

definition runs ::
  "(event \<Rightarrow> 's \<Rightarrow> 's res) \<Rightarrow> (exec_op \<times> event list) list \<Rightarrow> 's collector \<Rightarrow> 's collector \<Rightarrow> bool"
where
  "runs emit tr c c' \<longleftrightarrow>
     exec_trace (execution c) tr (execution c') \<and>
     emit_all emit (trace_events tr) (sink c) = Inr (sink c')"

text \<open>The markers among the callbacks of a run, and the threads whose exit it reports.\<close>

fun marker_of :: "exec_op \<Rightarrow> command_marker list" where
  "marker_of (Marker tid m ts) = [m]"
| "marker_of (Exited tid ec sg ts) = []"
| "marker_of (Exec h tid ts) = []"
| "marker_of (Created pt ct ev fl ts) = []"
| "marker_of (Syscall h sc) = []"

fun exit_of :: "exec_op \<Rightarrow> pid_t list" where
  "exit_of (Exited tid ec sg ts) = [tid]"
| "exit_of (Marker tid m ts) = []"
| "exit_of (Exec h tid ts) = []"
| "exit_of (Created pt ct ev fl ts) = []"
| "exit_of (Syscall h sc) = []"

fun marker_from :: "pid_t \<Rightarrow> exec_op \<Rightarrow> bool" where
  "marker_from root (Marker tid m ts) \<longleftrightarrow> tid = root"
| "marker_from root (Exited tid ec sg ts) \<longleftrightarrow> True"
| "marker_from root (Exec h tid ts) \<longleftrightarrow> True"
| "marker_from root (Created pt ct ev fl ts) \<longleftrightarrow> True"
| "marker_from root (Syscall h sc) \<longleftrightarrow> True"

definition markers_of :: "(exec_op \<times> event list) list \<Rightarrow> command_marker list" where
  "markers_of tr = concat (map (marker_of \<circ> fst) tr)"

definition exits_of :: "(exec_op \<times> event list) list \<Rightarrow> pid_t list" where
  "exits_of tr = concat (map (exit_of \<circ> fst) tr)"

lemma run_labels [simp]:
  "markers_of [] = []" "markers_of (x # tr) = marker_of (fst x) @ markers_of tr"
  "markers_of (tr @ tr') = markers_of tr @ markers_of tr'"
  "exits_of [] = []" "exits_of (x # tr) = exit_of (fst x) @ exits_of tr"
  "exits_of (tr @ tr') = exits_of tr @ exits_of tr'"
  by (simp_all add: markers_of_def exits_of_def)

text \<open>
  Moreover the markers of the run are what the decoder makes of the bytes \<open>bs\<close> that the pass
  read from the root's writes, and the exits of the run are those in \<open>es\<close>.
\<close>

definition follows ::
  "(event \<Rightarrow> 's \<Rightarrow> 's res) \<Rightarrow> pid_t \<Rightarrow> string \<Rightarrow> pid_t list \<Rightarrow> 's collector \<Rightarrow> 's collector \<Rightarrow> bool"
where
  "follows emit root bs es c c' \<longleftrightarrow>
     marker_bytes c' = marker_bytes c @ bs \<and>
     (\<exists>tr. runs emit tr c c' \<and> consume (protocol c) bs = Inr (protocol c', markers_of tr) \<and>
        list_all (marker_from root \<circ> fst) tr \<and> exits_of tr = es)"

lemma consume_none [simp]: "consume p [] = Inr (p, [])"
  by (simp add: consume_def)

lemma runs_none [simp]: "runs emit [] c c' \<longleftrightarrow> execution c' = execution c \<and> sink c' = sink c"
  by (auto simp: runs_def)

lemma runs_append:
  assumes "runs emit tr c c1" "runs emit tr' c1 c2"
  shows "runs emit (tr @ tr') c c2"
  using assms by (auto simp: runs_def emit_all_append intro: exec_trace_append)

lemma runs_root: "runs emit tr c c' \<Longrightarrow> root_pid (execution c') = root_pid (execution c)"
  by (auto simp: runs_def dest: exec_trace_root)

lemma runs_cong:
  assumes "runs emit tr c c'" "execution d = execution c" "sink d = sink c"
    "execution d' = execution c'" "sink d' = sink c'"
  shows "runs emit tr d d'"
  using assms by (simp add: runs_def)

lemma follows_same:
  assumes "execution c' = execution c" "sink c' = sink c" "protocol c' = protocol c"
    "marker_bytes c' = marker_bytes c"
  shows "follows emit root [] [] c c'"
  using assms by (auto simp: follows_def intro!: exI[of _ "[]"])

lemma follows_trans:
  assumes "follows emit root bs es c c1" "follows emit root bs' es' c1 c2"
  shows "follows emit root (bs @ bs') (es @ es') c c2"
proof -
  obtain tr tr' where tr: "runs emit tr c c1"
      "consume (protocol c) bs = Inr (protocol c1, markers_of tr)"
      "list_all (marker_from root \<circ> fst) tr" "exits_of tr = es"
    and tr': "runs emit tr' c1 c2" "consume (protocol c1) bs' = Inr (protocol c2, markers_of tr')"
      "list_all (marker_from root \<circ> fst) tr'" "exits_of tr' = es'"
    using assms by (auto simp: follows_def)
  have "runs emit (tr @ tr') c c2"
    using tr(1) tr'(1) by (rule runs_append)
  moreover have "consume (protocol c) (bs @ bs') = Inr (protocol c2, markers_of (tr @ tr'))"
    by (simp add: consume_append_eq tr(2) tr'(2))
  moreover have "marker_bytes c2 = marker_bytes c @ bs @ bs'"
    using assms by (simp add: follows_def)
  ultimately show ?thesis
    using tr(3,4) tr'(3,4) unfolding follows_def by (intro conjI exI[of _ "tr @ tr'"]) simp_all
qed

lemma follows_then_same:
  assumes "follows emit root bs es c c'" "execution d' = execution c'" "sink d' = sink c'"
    "protocol d' = protocol c'" "marker_bytes d' = marker_bytes c'"
  shows "follows emit root bs es c d'"
  using follows_trans[OF assms(1) follows_same[OF assms(2-5)]] by simp

lemma follows_from_same:
  assumes "follows emit root bs es c c'" "execution d = execution c" "sink d = sink c"
    "protocol d = protocol c" "marker_bytes d = marker_bytes c"
  shows "follows emit root bs es d c'"
proof -
  have "follows emit root [] [] d c"
    using assms(2-5) by (intro follows_same) simp_all
  from follows_trans[OF this assms(1)] show ?thesis by simp
qed

lemma follows_root:
  "follows emit root bs es c c' \<Longrightarrow> root_pid (execution c') = root_pid (execution c)"
  by (auto simp: follows_def dest: runs_root)

lemma deliver_fields:
  assumes "deliver emit r c = Inr c'"
  shows "execution c' = fst r" "protocol c' = protocol c" "channel c' = channel c"
    "live_tids c' = live_tids c" "configured_tids c' = configured_tids c"
    "threads c' = threads c" "root_status_seen c' = root_status_seen c"
    "partial_result c' = partial_result c"
    "emit_all emit (snd r) (sink c) = Inr (sink c')"
    "resumed c' = resumed c" "marker_bytes c' = marker_bytes c"
  using assms by (auto simp: deliver_def res_simps)

lemma deliver_runs:
  assumes "deliver emit r c = Inr c'" "exec_step (execution c) op (snd r) (fst r)"
  shows "runs emit [(op, snd r)] c c'"
  using deliver_fields(1,9)[OF assms(1)] assms(2) by (simp add: runs_def)

lemma deliver_follows:
  assumes "deliver emit r c = Inr c'" "exec_step (execution c) op (snd r) (fst r)"
    and "marker_of op = []"
  shows "follows emit root [] (exit_of op) c c'"
proof -
  have "marker_from root op"
    using assms(3) by (cases op) simp_all
  then show ?thesis
    unfolding follows_def
    using deliver_fields(2,11)[OF assms(1)] deliver_runs[OF assms(1,2)] assms(3)
    by (intro conjI exI[of _ "[(op, snd r)]"]) simp_all
qed

lemma handle_exit_follows:
  assumes "handle_exit emit root tid status w c = Inr c'"
  shows "follows emit root [] [tid] c c'"
proof -
  obtain code sig c1 where d:
      "deliver emit (on_process_exit (execution c) tid code sig (wk_now w)) c = Inr c1"
      "execution c' = execution c1" "sink c' = sink c1" "protocol c' = protocol c1"
      "marker_bytes c' = marker_bytes c1"
    using assms by (auto simp: handle_exit_def Let_def res_simps split: if_splits)
  have "exec_step (execution c) (Exited tid code sig (wk_now w))
      (snd (on_process_exit (execution c) tid code sig (wk_now w)))
      (fst (on_process_exit (execution c) tid code sig (wk_now w)))"
    by (rule exec_step.exited) simp
  from deliver_follows[OF d(1) this, of root] have "follows emit root [] [tid] c c1"
    by simp
  then show ?thesis
    using d(2-) by (rule follows_then_same)
qed

lemma deliver_markers_runs:
  assumes "deliver_markers emit tid ts ms c = Inr c'"
  shows "(\<exists>tr. runs emit tr c c' \<and> markers_of tr = ms \<and> exits_of tr = [] \<and>
      list_all (marker_from tid \<circ> fst) tr) \<and>
    threads c' = threads c \<and> channel c' = channel c \<and>
    protocol c' = protocol c \<and> partial_result c' = partial_result c \<and>
    root_status_seen c' = root_status_seen c \<and> marker_bytes c' = marker_bytes c"
  using assms
proof (induction ms arbitrary: c)
  case Nil
  then show ?case by (auto simp: deliver_markers_def intro!: exI[of _ "[]"])
next
  case (Cons m ms)
  then obtain r c1 where r: "on_command_marker (execution c) tid m ts = Inr r"
      "deliver emit r c = Inr c1" "deliver_markers emit tid ts ms c1 = Inr c'"
    by (auto simp: deliver_markers_def res_simps)
  have "exec_step (execution c) (Marker tid m ts) (snd r) (fst r)"
    using r(1) by (intro exec_step.marker) simp
  with r(2) have first: "runs emit [(Marker tid m ts, snd r)] c c1"
    by (rule deliver_runs)
  obtain tr where "runs emit tr c1 c'" "markers_of tr = ms" "exits_of tr = []"
      "list_all (marker_from tid \<circ> fst) tr"
    using Cons.IH[OF r(3)] by blast
  with runs_append[OF first] have "\<exists>tr. runs emit tr c c' \<and> markers_of tr = m # ms \<and>
      exits_of tr = [] \<and> list_all (marker_from tid \<circ> fst) tr"
    by (intro exI[of _ "[(Marker tid m ts, snd r)] @ tr"]) simp
  with Cons.IH[OF r(3)] deliver_fields[OF r(2)] show ?case
    by (simp add: comp_def)
qed

lemma command_write_follows:
  assumes "command_write emit root w sc c = Inr c'"
  shows "(\<exists>bs. follows emit root bs [] c c' \<and> (sc_tid sc \<noteq> root \<longrightarrow> bs = [])) \<and>
    threads c' = threads c \<and> channel c' = channel c \<and>
    partial_result c' = partial_result c \<and> root_status_seen c' = root_status_seen c"
proof (cases "sc_tid sc = root \<and> receives (channel c) sc \<and> 0 < sc_result sc")
  case False
  then have "c' = c"
    using assms by (auto simp: command_write_def)
  then show ?thesis
    by (auto intro: follows_same)
next
  case True
  then obtain bs p ms where b: "consume (protocol c) bs = Inr (p, ms)"
      "deliver_markers emit (sc_tid sc) (sc_timestamp_ns sc) ms
        (c\<lparr>protocol := p, marker_bytes := marker_bytes c @ bs\<rparr>) = Inr c'"
    using assms
    by (auto simp: command_write_def res_simps split: if_splits option.splits prod.splits)
  note f = deliver_markers_runs[OF b(2)]
  obtain tr where tr: "runs emit tr (c\<lparr>protocol := p, marker_bytes := marker_bytes c @ bs\<rparr>) c'"
      "markers_of tr = ms" "exits_of tr = []" "list_all (marker_from root \<circ> fst) tr"
    using f True by auto
  have "runs emit tr c c'"
    using tr(1) by (rule runs_cong) simp_all
  with tr b(1) f have "follows emit root bs [] c c'"
    unfolding follows_def by (intro conjI exI[of _ tr]) simp_all
  with f True show ?thesis by auto
qed

lemma handle_syscall_regs_follows:
  assumes "handle_syscall_regs emit root tid w regs c = Inr c'"
  shows "(\<exists>bs. follows emit root bs [] c c' \<and> (tid \<noteq> root \<longrightarrow> bs = [])) \<and>
    partial_result c' = partial_result c \<and> root_status_seen c' = root_status_seen c"
proof (cases "in_syscall (case threads c tid of None \<Rightarrow> new_thread | Some th \<Rightarrow> th)")
  case False
  then have "execution c' = execution c" "sink c' = sink c" "protocol c' = protocol c"
      "marker_bytes c' = marker_bytes c" "partial_result c' = partial_result c"
      "root_status_seen c' = root_status_seen c"
    using assms by (auto simp: handle_syscall_regs_def Let_def)
  then show ?thesis
    using follows_same[of c' c] by blast
next
  case True
  define th where "th = (case threads c tid of None \<Rightarrow> new_thread | Some th \<Rightarrow> th)"
  define sc where "sc = syscall_of_stop c tid th regs (wk_now w)"
  obtain c1 where c1: "command_write emit root w sc c = Inr c1"
    using assms True by (auto simp: handle_syscall_regs_def Let_def th_def sc_def res_simps)
  define c2 where "c2 = (if tid = root then c1\<lparr>channel := observe (channel c1) sc\<rparr> else c1)"
  obtain c3 where c3: "deliver emit (on_syscall_exit (wk_host w) (execution c2) sc) c2 = Inr c3"
      "c' = c3\<lparr>threads := (threads c3)(tid \<mapsto> th\<lparr>in_syscall := False\<rparr>)\<rparr>"
    using assms True c1
    by (auto simp: handle_syscall_regs_def Let_def th_def[symmetric] sc_def[symmetric]
        c2_def[symmetric] res_simps)
  note f1 = command_write_follows[OF c1]
  obtain bs where bs: "follows emit root bs [] c c1" "tid \<noteq> root \<longrightarrow> bs = []"
    using f1 by (auto simp: sc_def syscall_of_stop_def)
  have c2: "execution c2 = execution c1" "sink c2 = sink c1" "protocol c2 = protocol c1"
    "marker_bytes c2 = marker_bytes c1"
    "partial_result c2 = partial_result c1" "root_status_seen c2 = root_status_seen c1"
    by (simp_all add: c2_def)
  have "exec_step (execution c2) (Syscall (wk_host w) sc)
      (snd (on_syscall_exit (wk_host w) (execution c2) sc))
      (fst (on_syscall_exit (wk_host w) (execution c2) sc))"
    by (rule exec_step.syscall) simp
  from deliver_follows[OF c3(1) this, of root] have "follows emit root [] [] c2 c3"
    by simp
  with follows_then_same[OF bs(1) c2(1-4)] have "follows emit root (bs @ []) ([] @ []) c c3"
    by (rule follows_trans)
  then have "follows emit root (bs @ []) ([] @ []) c c'"
    by (rule follows_then_same) (simp_all add: c3(2))
  with bs(2) f1 c2 deliver_fields[OF c3(1)] show ?thesis
    by (auto simp: c3(2))
qed

fun flow_state :: "'a flow \<Rightarrow> 'a" where
  "flow_state (Next c) = c"
| "flow_state (Break c) = c"
| "flow_state (Return r c) = c"

lemma resume_or_fail_state [simp]: "flow_state (resume_or_fail strerror tid sig w c) = asked tid sig c"
  by (simp add: resume_or_fail_def fail_def split: option.splits)

lemma fail_state [simp]: "flow_state (fail message c) = c"
  by (simp add: fail_def)

text \<open>The kernel's promise: no created process has the root's pid.\<close>

definition fresh_child :: "pid_t \<Rightarrow> wakeup \<Rightarrow> bool" where
  "fresh_child root w \<longleftrightarrow> (\<forall>msg. wk_message w = Inr msg \<longrightarrow> to_int32 (uint msg) \<noteq> root)"

text \<open>What the handling of one stop of a thread does: it reads marker bytes only from the root.\<close>

definition stop_follows ::
  "(event \<Rightarrow> 's \<Rightarrow> 's res) \<Rightarrow> pid_t \<Rightarrow> pid_t \<Rightarrow> 's collector \<Rightarrow> 's collector \<Rightarrow> bool" where
  "stop_follows emit root tid c c' \<longleftrightarrow>
     (\<exists>bs. follows emit root bs [] c c' \<and> (tid \<noteq> root \<longrightarrow> bs = [])) \<and>
     partial_result c' = partial_result c \<and> root_status_seen c' = root_status_seen c"

lemma stop_follows_same:
  assumes "execution c' = execution c" "sink c' = sink c" "protocol c' = protocol c"
    "marker_bytes c' = marker_bytes c" "partial_result c' = partial_result c"
    "root_status_seen c' = root_status_seen c"
  shows "stop_follows emit root tid c c'"
  using follows_same[OF assms(1-4)] assms(5,6) by (auto simp: stop_follows_def)

lemma stop_follows_then_same:
  assumes "stop_follows emit root tid c c'" "execution d = execution c'" "sink d = sink c'"
    "protocol d = protocol c'" "marker_bytes d = marker_bytes c'"
    "partial_result d = partial_result c'" "root_status_seen d = root_status_seen c'"
  shows "stop_follows emit root tid c d"
proof -
  obtain bs where "follows emit root bs [] c c'" "tid \<noteq> root \<longrightarrow> bs = []"
    using assms(1) by (auto simp: stop_follows_def)
  moreover from this(1) have "follows emit root bs [] c d"
    using assms(2-5) by (rule follows_then_same)
  ultimately show ?thesis
    using assms(1,6,7) unfolding stop_follows_def by auto
qed

lemma stop_follows_from_same:
  assumes "stop_follows emit root tid c c'" "execution d = execution c" "sink d = sink c"
    "protocol d = protocol c" "marker_bytes d = marker_bytes c"
    "partial_result d = partial_result c" "root_status_seen d = root_status_seen c"
  shows "stop_follows emit root tid d c'"
proof -
  obtain bs where "follows emit root bs [] c c'" "tid \<noteq> root \<longrightarrow> bs = []"
    using assms(1) by (auto simp: stop_follows_def)
  moreover from this(1) have "follows emit root bs [] d c'"
    using assms(2-5) by (rule follows_from_same)
  ultimately show ?thesis
    using assms(1,6,7) unfolding stop_follows_def by auto
qed

lemma deliver_stop_follows:
  assumes "deliver emit r c = Inr c'" "exec_step (execution c) op (snd r) (fst r)"
    and "marker_of op = []" "exit_of op = []"
  shows "stop_follows emit root tid c c'"
  using deliver_follows[OF assms(1-3), of root] deliver_fields(7,8)[OF assms(1)] assms(4)
  by (auto simp: stop_follows_def)

lemma handle_event_stop_follows:
  assumes "handle_event_stop strerror emit tid ev w c = Inr f"
    and "fresh_child (root_pid (execution c)) w"
  shows "stop_follows emit root tid c (flow_state f)"
proof (cases "is_creation ev")
  case True
  show ?thesis
  proof (cases "wk_message w")
    case (Inl e)
    with assms(1) True have "flow_state f = c"
      by (auto simp: handle_event_stop_def)
    then show ?thesis by (simp add: stop_follows_same)
  next
    case (Inr msg)
    then obtain fl c1 where d: "deliver emit
        (on_process_created (execution c) tid (to_int32 (uint msg)) ev fl (wk_now w)) c = Inr c1"
        "flow_state f = asked tid 0 (c1\<lparr>live_tids := insert (to_int32 (uint msg)) (live_tids c1)\<rparr>)"
      using assms(1) True by (auto simp: handle_event_stop_def Let_def res_simps)
    have "to_int32 (uint msg) \<noteq> root_pid (execution c)"
      using assms(2) Inr by (simp add: fresh_child_def)
    then have "exec_step (execution c) (Created tid (to_int32 (uint msg)) ev fl (wk_now w))
        (snd (on_process_created (execution c) tid (to_int32 (uint msg)) ev fl (wk_now w)))
        (fst (on_process_created (execution c) tid (to_int32 (uint msg)) ev fl (wk_now w)))"
      by (rule exec_step.created) simp
    from deliver_stop_follows[OF d(1) this] have "stop_follows emit root tid c c1"
      by simp
    then show ?thesis
      by (rule stop_follows_then_same) (simp_all add: d(2))
  qed
next
  case False
  show ?thesis
  proof (cases "ev = PTRACE_EVENT_EXEC")
    case True
    then obtain c1 where d: "deliver emit
        (on_process_exec (wk_host w) (execution c) tid (wk_now w)) c = Inr c1" "flow_state f = asked tid 0 c1"
      using assms(1) False by (auto simp: handle_event_stop_def res_simps)
    have "exec_step (execution c) (Exec (wk_host w) tid (wk_now w))
        (snd (on_process_exec (wk_host w) (execution c) tid (wk_now w)))
        (fst (on_process_exec (wk_host w) (execution c) tid (wk_now w)))"
      by (rule exec_step.exec) simp
    from deliver_stop_follows[OF d(1) this] have "stop_follows emit root tid c c1"
      by simp
    then show ?thesis
      by (rule stop_follows_then_same) (simp_all add: d(2))
  next
    case False
    with assms(1) \<open>\<not> is_creation ev\<close> have "flow_state f = asked tid 0 c"
      by (auto simp: handle_event_stop_def)
    then show ?thesis by (simp add: stop_follows_same)
  qed
qed

lemma handle_syscall_stop_follows:
  assumes "handle_syscall_stop strerror emit root tid w c = Inr f"
  shows "stop_follows emit root tid c (flow_state f)"
proof (cases "wk_regs w")
  case (Inl e)
  with assms have "flow_state f = c \<or> flow_state f = asked tid 0 c"
    by (auto simp: handle_syscall_stop_def split: if_splits)
  then show ?thesis by (auto intro: stop_follows_same)
next
  case (Inr regs)
  with assms obtain c1 where c1: "handle_syscall_regs emit root tid w regs c = Inr c1"
      "flow_state f = asked tid 0 c1"
    by (auto simp: handle_syscall_stop_def res_simps)
  have "stop_follows emit root tid c c1"
    using handle_syscall_regs_follows[OF c1(1)] by (simp add: stop_follows_def)
  then show ?thesis
    by (rule stop_follows_then_same) (simp_all add: c1(2))
qed

lemma handle_stop_follows:
  assumes "handle_stop strerror emit root tid status w c = Inr f"
    and "fresh_child (root_pid (execution c)) w"
  shows "stop_follows emit root tid c (flow_state f)"
proof -
  define c1 where "c1 = c\<lparr>live_tids := insert tid (live_tids c)\<rparr>"
  define c2 where "c2 = c1\<lparr>configured_tids := insert tid (configured_tids c1)\<rparr>"
  have c2: "execution c2 = execution c" "sink c2 = sink c" "protocol c2 = protocol c"
    "marker_bytes c2 = marker_bytes c" "partial_result c2 = partial_result c"
    "root_status_seen c2 = root_status_seen c"
    by (simp_all add: c1_def c2_def)
  have c1: "stop_follows emit root tid c2 c1"
    by (rule stop_follows_same) (simp_all add: c1_def c2_def)
  consider (failed) message where "f = fail message c1"
    | (sys) "handle_syscall_stop strerror emit root tid w c2 = Inr f"
    | (event) "handle_event_stop strerror emit tid (stop_event status) w c2 = Inr f"
    | (other) "f = resume_or_fail strerror tid (delivered_signal (WSTOPSIG status)) w c2"
  proof -
    define failure where "failure =
      (if tid \<in> configured_tids c1 then None else set_options strerror tid (wk_options w))"
    have e: "(case failure of
        Some message \<Rightarrow> Inr (fail message c1)
      | None \<Rightarrow>
          if WSTOPSIG status = syscall_stop then handle_syscall_stop strerror emit root tid w c2
          else if WSTOPSIG status = SIGTRAP \<and> stop_event status \<noteq> 0
            then handle_event_stop strerror emit tid (stop_event status) w c2
          else Inr (resume_or_fail strerror tid (delivered_signal (WSTOPSIG status)) w c2)) =
      Inr f"
      using assms(1) unfolding handle_stop_def Let_def c1_def c2_def failure_def .
    show ?thesis
    proof (cases failure)
      case (Some message)
      with e have "f = fail message c1" by simp
      then show ?thesis by (rule failed)
    next
      case None
      show ?thesis
      proof (cases "WSTOPSIG status = syscall_stop")
        case True
        with e None show ?thesis by (intro sys) simp
      next
        case not_sys: False
        show ?thesis
        proof (cases "WSTOPSIG status = SIGTRAP \<and> stop_event status \<noteq> 0")
          case True
          with e None not_sys show ?thesis by (intro event) simp
        next
          case False
          with e None not_sys show ?thesis by (intro other) (simp only: option.case if_False sum.inject)
        qed
      qed
    qed
  qed
  then have "stop_follows emit root tid c2 (flow_state f)"
  proof cases
    case failed
    with c1 show ?thesis by simp
  next
    case sys
    then show ?thesis by (rule handle_syscall_stop_follows)
  next
    case event
    then show ?thesis using handle_event_stop_follows assms(2) c2(1) by metis
  next
    case other
    then show ?thesis by (simp add: stop_follows_same)
  qed
  then show ?thesis
    by (rule stop_follows_from_same) (simp_all add: c2)
qed

section \<open>The loop\<close>

text \<open>The result that the root's exit status stands for.\<close>

definition is_root_end :: "pid_t \<Rightarrow> wakeup \<Rightarrow> u32 \<Rightarrow> bool" where
  "is_root_end root w status \<longleftrightarrow>
     wk_wait w = Wait_status root status \<and> (WIFEXITED status \<or> WIFSIGNALED status)"

definition status_code :: "u32 \<Rightarrow> int" where
  "status_code status =
     (if WIFEXITED status then int (WEXITSTATUS status) else 128 + int (WTERMSIG status))"

definition status_signal :: "u32 \<Rightarrow> int" where
  "status_signal status = (if WIFSIGNALED status then int (WTERMSIG status) else 0)"

definition result_of :: "wakeup list \<Rightarrow> pid_t \<Rightarrow> 's collector \<Rightarrow> bool" where
  "result_of ws root c \<longleftrightarrow>
     collect_error (partial_result c) = [] \<and> collector_ok (partial_result c) = False \<and>
     (root_status_seen c \<longrightarrow>
        (\<exists>w \<in> set ws. \<exists>status. is_root_end root w status \<and>
           exit_code (partial_result c) = status_code status \<and>
           term_signal (partial_result c) = status_signal status))"

lemma result_of_cong:
  assumes "result_of ws root c" "partial_result c' = partial_result c"
    "root_status_seen c' = root_status_seen c" "set ws \<subseteq> set ws'"
  shows "result_of ws' root c'"
  using assms by (auto simp: result_of_def)

lemma handle_exit_result:
  assumes "handle_exit emit root tid status w c = Inr c'" "result_of ws root c"
    and "wk_wait w = Wait_status tid status" "WIFEXITED status \<or> WIFSIGNALED status"
  shows "result_of (w # ws) root c'"
proof -
  let ?code = "if WIFEXITED status then int (WEXITSTATUS status) else - 1"
  let ?sig = "if WIFSIGNALED status then int (WTERMSIG status) else 0"
  obtain c1 where d:
      "deliver emit (on_process_exit (execution c) tid ?code ?sig (wk_now w)) c = Inr c1"
      "partial_result c' = (if tid = root then (partial_result c1)
         \<lparr>exit_code := exit_result ?code ?sig, term_signal := ?sig\<rparr> else partial_result c1)"
      "root_status_seen c' = (tid = root \<or> root_status_seen c1)"
    using assms(1) by (auto simp: handle_exit_def Let_def res_simps)
  note f = deliver_fields[OF d(1)]
  show ?thesis
  proof (cases "tid = root")
    case False
    then show ?thesis
      using d(2,3) f assms(2) by (intro result_of_cong[OF assms(2)]) auto
  next
    case True
    have "?sig = 0 \<longleftrightarrow> \<not> WIFSIGNALED status"
      by (auto simp: WIFSIGNALED_def)
    moreover have "WIFEXITED status \<longleftrightarrow> \<not> WIFSIGNALED status"
      using assms(4) by (auto simp: WIFSIGNALED_def WIFEXITED_def)
    ultimately have "exit_result ?code ?sig = status_code status" "?sig = status_signal status"
      by (auto simp: exit_result_def status_code_def status_signal_def WIFSIGNALED_def)
    moreover have "is_root_end root w status"
      using assms(3,4) True by (simp add: is_root_end_def)
    ultimately show ?thesis
      using True d(2,3) f assms(2) by (auto simp: result_of_def)
  qed
qed

text \<open>The thread that a wake-up is about, and the exit that it reports.\<close>

definition woken :: "wakeup \<Rightarrow> pid_t option" where
  "woken w = (case wk_wait w of Wait_failed e \<Rightarrow> None | Wait_status tid status \<Rightarrow> Some tid)"

definition reported_exit :: "wakeup \<Rightarrow> pid_t list" where
  "reported_exit w =
     (case wk_wait w of
        Wait_failed e \<Rightarrow> []
      | Wait_status tid status \<Rightarrow> if WIFEXITED status \<or> WIFSIGNALED status then [tid] else [])"

definition step_follows ::
  "(event \<Rightarrow> 's \<Rightarrow> 's res) \<Rightarrow> pid_t \<Rightarrow> wakeup \<Rightarrow> 's collector \<Rightarrow> 's collector \<Rightarrow> bool" where
  "step_follows emit root w c c' \<longleftrightarrow>
     (\<exists>bs. follows emit root bs (reported_exit w) c c' \<and> (woken w \<noteq> Some root \<longrightarrow> bs = [])) \<and>
     (root_status_seen c' \<longleftrightarrow> root_status_seen c \<or> root \<in> set (reported_exit w))"

lemma step_follows_stop:
  assumes "stop_follows emit root tid c c'" "wk_wait w = Wait_status tid status"
    "\<not> (WIFEXITED status \<or> WIFSIGNALED status)"
  shows "step_follows emit root w c c'"
  using assms by (auto simp: step_follows_def stop_follows_def woken_def reported_exit_def)

lemma loop_step_follows:
  assumes "loop_step strerror emit root w c = Inr f" "fresh_child (root_pid (execution c)) w"
  shows "step_follows emit root w c (flow_state f) \<and>
    (result_of ws root c \<longrightarrow> result_of (w # ws) root (flow_state f))"
proof (cases "wk_wait w")
  case (Wait_failed e)
  then have "flow_state f = c"
    using assms(1) by (auto simp: loop_step_def split: if_splits)
  then show ?thesis
    using Wait_failed
    by (auto simp: step_follows_def woken_def reported_exit_def
        intro!: follows_same result_of_cong[where ws = ws and ws' = "w # ws"])
next
  case (Wait_status tid status)
  show ?thesis
  proof (cases "WIFEXITED status \<or> WIFSIGNALED status")
    case True
    then obtain c1 where c1: "handle_exit emit root tid status w c = Inr c1" "flow_state f = c1"
      using assms(1) Wait_status by (auto simp: loop_step_def res_simps)
    have "root_status_seen c1 \<longleftrightarrow> root_status_seen c \<or> tid = root"
      using c1(1) by (auto simp: handle_exit_def Let_def res_simps dest: deliver_fields(7))
    then have "step_follows emit root w c c1"
      using handle_exit_follows[OF c1(1)] Wait_status True
      by (auto simp: step_follows_def woken_def reported_exit_def)
    then show ?thesis
      using handle_exit_result[OF c1(1) _ Wait_status True] c1(2) by auto
  next
    case False
    have stop: "stop_follows emit root tid c (flow_state f)"
    proof (cases "WIFSTOPPED status")
      case True
      then have "handle_stop strerror emit root tid status w c = Inr f"
        using assms(1) Wait_status False by (simp add: loop_step_def)
      from handle_stop_follows[OF this assms(2)] show ?thesis .
    next
      case not_stopped: False
      then have "f = Next c"
        using assms(1) Wait_status False by (simp add: loop_step_def)
      then show ?thesis by (simp add: stop_follows_same)
    qed
    have "result_of ws root c \<Longrightarrow> result_of (w # ws) root (flow_state f)"
      using stop by (rule_tac result_of_cong) (auto simp: stop_follows_def)
    with step_follows_stop[OF stop Wait_status False] show ?thesis
      by blast
  qed
qed

fun end_state :: "'a loop_end \<Rightarrow> 'a" where
  "end_state (Finished c) = c"
| "end_state (Returned r c) = c"
| "end_state (Waiting c) = c"

text \<open>The bytes and exits of a whole loop.\<close>

definition loop_follows ::
  "(event \<Rightarrow> 's \<Rightarrow> 's res) \<Rightarrow> pid_t \<Rightarrow> 's collector \<Rightarrow> 's collector \<Rightarrow> bool" where
  "loop_follows emit root c c' \<longleftrightarrow> (\<exists>bs es. follows emit root bs es c c')"

lemma loop_follows_same: "loop_follows emit root c c"
  using follows_same[of c c] by (auto simp: loop_follows_def)

lemma loop_follows_step:
  assumes "step_follows emit root w c c1" "loop_follows emit root c1 c2"
  shows "loop_follows emit root c c2"
  using assms follows_trans by (fastforce simp: loop_follows_def step_follows_def)

lemma step_follows_root:
  "step_follows emit root w c c' \<Longrightarrow> root_pid (execution c') = root_pid (execution c)"
  by (auto simp: step_follows_def dest: follows_root)

lemma wait_loop_follows:
  assumes "wait_loop strerror emit root ws c = Inr l"
    and "\<forall>w \<in> set ws. fresh_child (root_pid (execution c)) w"
  shows "loop_follows emit root c (end_state l)"
  using assms
proof (induction ws arbitrary: c)
  case Nil
  then have "end_state l = c" by (auto split: if_splits)
  then show ?case by (simp add: loop_follows_same)
next
  case (Cons w ws)
  show ?case
  proof (cases "live_tids c = {}")
    case True
    with Cons.prems(1) have "end_state l = c" by auto
    then show ?thesis by (simp add: loop_follows_same)
  next
    case False
    with Cons.prems(1) obtain f where f: "loop_step strerror emit root w c = Inr f"
        "(case f of
            Next c' \<Rightarrow> wait_loop strerror emit root ws c'
          | Break c' \<Rightarrow> Inr (Finished c')
          | Return r c' \<Rightarrow> Inr (Returned r c')) = Inr l"
      by (auto simp: res_simps)
    have s: "step_follows emit root w c (flow_state f)"
      using loop_step_follows[OF f(1)] Cons.prems(2) by simp
    have "loop_follows emit root (flow_state f) (end_state l)"
    proof (cases f)
      case (Next c')
      then show ?thesis
        using Cons.IH[of c'] f(2) Cons.prems(2) step_follows_root[OF s] by simp
    next
      case (Break c')
      with f(2) show ?thesis by (auto intro: loop_follows_same)
    next
      case (Return r c')
      with f(2) show ?thesis by (auto intro: loop_follows_same)
    qed
    with s show ?thesis by (rule loop_follows_step)
  qed
qed

text \<open>A failing pass returns the partial result, with a message.\<close>

definition flow_ok :: "'s collector flow \<Rightarrow> bool" where
  "flow_ok f \<longleftrightarrow> (\<forall>r c. f = Return r c \<longrightarrow> collector_ok r = collector_ok (partial_result c))"

lemma flow_ok_simps [simp]:
  "flow_ok (Next c)" "flow_ok (Break c)" "flow_ok (fail message c)"
  "flow_ok (resume_or_fail strerror tid sig w c)"
  by (auto simp: flow_ok_def fail_def resume_or_fail_def split: option.splits)

lemma handle_syscall_stop_flow:
  "handle_syscall_stop strerror emit root tid w c = Inr f \<Longrightarrow> flow_ok f"
  by (auto simp: handle_syscall_stop_def res_simps split: sum.splits)

lemma handle_event_stop_flow:
  "handle_event_stop strerror emit tid ev w c = Inr f \<Longrightarrow> flow_ok f"
  by (auto simp: handle_event_stop_def Let_def res_simps split: sum.splits if_splits)

lemma handle_stop_flow:
  assumes "handle_stop strerror emit root tid status w c = Inr f"
  shows "flow_ok f"
  using assms unfolding handle_stop_def Let_def
  by (auto split: option.splits if_splits dest: handle_syscall_stop_flow handle_event_stop_flow)

lemma loop_step_flow:
  "loop_step strerror emit root w c = Inr f \<Longrightarrow> flow_ok f"
  by (auto simp: loop_step_def res_simps split: wait_answer.splits if_splits
      dest: handle_stop_flow)

lemma wait_loop_result:
  assumes "wait_loop strerror emit root ws c = Inr l" "result_of us root c"
    and "\<forall>w \<in> set ws. fresh_child (root_pid (execution c)) w"
  shows "result_of (us @ ws) root (end_state l) \<and> (\<forall>r d. l = Returned r d \<longrightarrow> \<not> collector_ok r)"
  using assms
proof (induction ws arbitrary: c us)
  case Nil
  then show ?case by (auto split: if_splits)
next
  case (Cons w ws)
  show ?case
  proof (cases "live_tids c = {}")
    case True
    with Cons.prems show ?thesis by (auto intro: result_of_cong)
  next
    case False
    with Cons.prems(1) obtain f where f: "loop_step strerror emit root w c = Inr f"
        "(case f of
            Next c' \<Rightarrow> wait_loop strerror emit root ws c'
          | Break c' \<Rightarrow> Inr (Finished c')
          | Return r c' \<Rightarrow> Inr (Returned r c')) = Inr l"
      by (auto simp: res_simps)
    have s: "step_follows emit root w c (flow_state f)" "result_of (w # us) root (flow_state f)"
      using loop_step_follows[OF f(1), of us] Cons.prems(2,3) by simp_all
    have weaken: "result_of ((w # us) @ vs) root d \<Longrightarrow> set vs \<subseteq> set ws \<Longrightarrow>
        result_of (us @ w # ws) root d" for vs d
      by (erule result_of_cong) auto
    show ?thesis
    proof (cases f)
      case (Next d)
      then have "result_of ((w # us) @ ws) root (end_state l) \<and>
          (\<forall>r d. l = Returned r d \<longrightarrow> \<not> collector_ok r)"
        using Cons.IH[of d "w # us"] f(2) s Cons.prems(3) step_follows_root[OF s(1)] by simp
      then show ?thesis
        using weaken[of ws "end_state l"] by blast
    next
      case (Break d)
      with s f(2) weaken[of "[]"] show ?thesis by auto
    next
      case (Return r d)
      then have "\<not> collector_ok r"
        using loop_step_flow[OF f(1)] s(2) by (simp add: flow_ok_def result_of_def)
      with Return s f(2) weaken[of "[]"] show ?thesis by auto
    qed
  qed
qed

section \<open>The command channel follows the kernel's descriptor table\<close>

text \<open>
  What the calls do to the table of open descriptors of a process, for the calls that the
  tracker watches; every other call is taken to leave the descriptors of the channel alone.
\<close>

definition kernel_fds :: "raw_syscall \<Rightarrow> (int \<rightharpoonup> 'd) \<Rightarrow> (int \<rightharpoonup> 'd)" where
  "kernel_fds sc fds =
     (let source = arg_int (a0 (sc_args sc)); nr = sc_number sc;
          returned = to_int32 (sc_result sc) in
      if sc_result sc < 0 then fds
      else if nr = nr_close then fds(source := None)
      else if nr = nr_dup then fds(returned := fds source)
      else if nr = nr_dup2 \<or> nr = nr_dup3 then fds(arg_int (a1 (sc_args sc)) := fds source)
      else if nr = nr_fcntl \<and> (a1 (sc_args sc) = F_DUPFD \<or> a1 (sc_args sc) = F_DUPFD_CLOEXEC)
        then fds(returned := fds source)
      else fds)"

definition names_channel :: "'d \<Rightarrow> (int \<rightharpoonup> 'd) \<Rightarrow> int set" where
  "names_channel d fds = {fd. fds fd = Some d}"

lemma names_channel_update:
  "names_channel d (fds(fd := x)) = assign_alias (names_channel d fds) fd (x = Some d)"
  "fd \<in> names_channel d fds \<longleftrightarrow> fds fd = Some d"
  by (auto simp: names_channel_def assign_alias_def)

lemma observe_kernel:
  "observe (names_channel d fds) sc = names_channel d (kernel_fds sc fds)"
proof -
  have same: "assign_alias (names_channel d fds) fd (fds fd = Some d) = names_channel d fds" for fd
    by (auto simp: assign_alias_def names_channel_def)
  have closed: "names_channel d fds - {fd} = assign_alias (names_channel d fds) fd False" for fd
    by (simp add: assign_alias_def)
  show ?thesis
    unfolding observe_def kernel_fds_def Let_def closed names_channel_update(2)
      if_distrib[of "names_channel d"] names_channel_update(1)
    by (simp add: same cong: if_cong)
qed

lemma observe_kernel_run:
  "foldl observe (names_channel d fds) scs = names_channel d (foldl (\<lambda>f sc. kernel_fds sc f) fds scs)"
  by (induction scs arbitrary: fds) (simp_all add: observe_kernel)

section \<open>Pairing the stops of a system call\<close>

lemma handle_syscall_regs_entry:
  assumes "threads c tid = None \<or> (\<exists>th. threads c tid = Some th \<and> \<not> in_syscall th)"
    and "handle_syscall_regs emit root tid w regs c = Inr c'"
  shows "execution c' = execution c" "sink c' = sink c"
    "threads c' = (threads c)(tid \<mapsto> \<lparr>in_syscall = True, th_number = sint (orig_rax regs),
       th_args = \<lparr>a0 = rdi regs, a1 = rsi regs, a2 = rdx regs, a3 = r10 regs, a4 = r8 regs,
         a5 = r9 regs\<rparr>\<rparr>)"
  using assms by (auto simp: handle_syscall_regs_def new_thread_def Let_def)

lemma handle_syscall_regs_exit:
  assumes "threads c tid = Some th" "in_syscall th" "tid \<noteq> root"
    and "handle_syscall_regs emit root tid w regs c = Inr c'"
  shows "execution c' = fst (on_syscall_exit (wk_host w) (execution c)
       (syscall_of_stop c tid th regs (wk_now w)))"
    "emit_all emit (snd (on_syscall_exit (wk_host w) (execution c)
       (syscall_of_stop c tid th regs (wk_now w)))) (sink c) = Inr (sink c')"
    "threads c' = (threads c)(tid \<mapsto> th\<lparr>in_syscall := False\<rparr>)"
proof -
  let ?sc = "syscall_of_stop c tid th regs (wk_now w)"
  have "command_write emit root w ?sc c = Inr c"
    using assms(3) by (simp add: command_write_def syscall_of_stop_def)
  then obtain c3 where d: "deliver emit (on_syscall_exit (wk_host w) (execution c) ?sc) c = Inr c3"
      "c' = c3\<lparr>threads := (threads c3)(tid \<mapsto> th\<lparr>in_syscall := False\<rparr>)\<rparr>"
    using assms by (auto simp: handle_syscall_regs_def Let_def res_simps)
  note f = deliver_fields[OF d(1)]
  show "execution c' = fst (on_syscall_exit (wk_host w) (execution c) ?sc)"
    "emit_all emit (snd (on_syscall_exit (wk_host w) (execution c) ?sc)) (sink c) = Inr (sink c')"
    "threads c' = (threads c)(tid \<mapsto> th\<lparr>in_syscall := False\<rparr>)"
    using f d(2) by simp_all
qed

section \<open>The guard reaps every tracee\<close>

definition gone :: "wait_answer \<Rightarrow> pid_t set" where
  "gone a =
     (case a of
        Wait_failed e \<Rightarrow> {}
      | Wait_status tid status \<Rightarrow> if WIFEXITED status \<or> WIFSIGNALED status then {tid} else {})"

lemma reap_all:
  assumes "tids \<subseteq> (\<Union>a \<in> set answers. gone a)"
    and "\<forall>e. Wait_failed e \<in> set answers \<longrightarrow> e = EINTR"
  shows "snd (reap answers tids) = {}"
  using assms
proof (induction answers arbitrary: tids)
  case Nil
  then show ?case by simp
next
  case (Cons a answers)
  have rest: "\<forall>e. Wait_failed e \<in> set answers \<longrightarrow> e = EINTR"
    using Cons.prems(2) by auto
  show ?case
  proof (cases "tids = {}")
    case True
    then show ?thesis by simp
  next
    case False
    show ?thesis
    proof (cases a)
      case (Wait_failed e)
      then show ?thesis
        using Cons.IH[OF _ rest, of tids] Cons.prems False by (auto simp: gone_def)
    next
      case (Wait_status tid status)
      then show ?thesis
        using Cons.IH[OF _ rest, of "tids - {tid}"] Cons.IH[OF _ rest, of tids] Cons.prems(1)
        by (cases "WIFEXITED status \<or> WIFSIGNALED status") (auto simp: gone_def)
    qed
  qed
qed
section \<open>Properties\<close>

lemma run_tracees_ends:
  assumes "run_tracees strerror emit request la ws root s = Inr (Collected res s')"
    and "\<forall>w \<in> set ws. fresh_child root w"
  shows "\<exists>dir st0 evs0 tr st.
      add_initial_process empty_execution root dir (root_command request) (la_now la) =
        (st0, evs0) \<and> exec_trace st0 tr st \<and>
      emit_all emit (evs0 @ trace_events tr) s = Inr s' \<and>
      (collector_ok res \<longrightarrow> collect_error res = [] \<and> end_ns res = la_end la \<and>
        (\<exists>w \<in> set ws. \<exists>status. is_root_end root w status \<and>
          exit_code res = status_code status \<and> term_signal res = status_signal status))"
proof -
  define dir where "dir = (case la_cwd la of None \<Rightarrow> [] | Some d \<Rightarrow> d)"
  obtain st0 evs0 where init:
      "add_initial_process empty_execution root dir (root_command request) (la_now la) =
        (st0, evs0)"
    by fastforce
  have root: "root_pid st0 = root"
    using init by (auto simp: add_initial_process_def Let_def split: option.splits)
  obtain c where c: "deliver emit (st0, evs0) (start_collector request root st0 s) = Inr c"
      "(case resume_syscall strerror root (la_resume la) of
          Some message \<Rightarrow>
            Inr (Collected (initial_result\<lparr>collect_error := message\<rparr>) (sink c))
        | None \<Rightarrow>
            bind_res (wait_loop strerror emit root ws (asked root 0 c)) (\<lambda>l.
              case l of
                Finished c' \<Rightarrow>
                  bind_res (conclude request (la_end la) c') (\<lambda>(res, s'). Inr (Collected res s'))
              | Returned res c' \<Rightarrow> Inr (Collected res (sink c'))
              | Waiting c' \<Rightarrow> Inr Blocked)) = Inr (Collected res s')"
    using assms(1) by (auto simp: run_tracees_def Let_def dir_def[symmetric] init res_simps)
  note f = deliver_fields[OF c(1)]
  have start: "emit_all emit evs0 s = Inr (sink c)" "execution c = st0"
    using f(1,9) by (simp_all add: start_collector_def)
  have from_c: ?thesis if fol: "loop_follows emit root c d" and snk: "sink d = s'"
      and okr: "collector_ok res \<longrightarrow> collect_error res = [] \<and> end_ns res = la_end la \<and>
        (\<exists>w \<in> set ws. \<exists>status. is_root_end root w status \<and>
          exit_code res = status_code status \<and> term_signal res = status_signal status)" for d
  proof -
    obtain tr where "exec_trace st0 tr (execution d)"
        "emit_all emit (trace_events tr) (sink c) = Inr (sink d)"
      using fol unfolding loop_follows_def follows_def runs_def start(2) by blast
    then show ?thesis
      using init start(1) snk okr
      by (intro exI[of _ dir] exI[of _ st0] exI[of _ evs0] exI[of _ tr] exI[of _ "execution d"])
        (simp add: emit_all_append)
  qed
  show ?thesis
  proof (cases "resume_syscall strerror root (la_resume la)")
    case (Some message)
    then show ?thesis
      using c(2) from_c[of c] by (auto simp: loop_follows_same initial_result_def)
  next
    case None
    then obtain l where l: "wait_loop strerror emit root ws (asked root 0 c) = Inr l"
        "(case l of
            Finished c' \<Rightarrow>
              bind_res (conclude request (la_end la) c') (\<lambda>(res, s'). Inr (Collected res s'))
          | Returned res c' \<Rightarrow> Inr (Collected res (sink c'))
          | Waiting c' \<Rightarrow> Inr Blocked) = Inr (Collected res s')"
      using c(2) by (auto simp: res_simps)
    have fresh: "\<forall>w \<in> set ws. fresh_child (root_pid (execution (asked root 0 c))) w"
      using assms(2) start(2) root by simp
    have "follows emit root [] [] c (asked root 0 c)"
      by (rule follows_same) simp_all
    then have follow: "loop_follows emit root c (end_state l)"
      using wait_loop_follows[OF l(1) fresh] unfolding loop_follows_def
      by (blast intro: follows_trans)
    have start_ok: "result_of [] root (asked root 0 c)"
      using f(7,8) by (simp add: result_of_def start_collector_def initial_result_def)
    show ?thesis
    proof (cases l)
      case (Finished d)
      have d: "result_of ws root d"
        using wait_loop_result[OF l(1) start_ok fresh] Finished by simp
      have r: "sink d = s'" "collector_ok res \<longrightarrow> root_status_seen d \<and>
          res = (partial_result d)\<lparr>collector_ok := True, end_ns := la_end la\<rparr>"
        using l(2) Finished by (auto simp: conclude_def Let_def res_simps split: if_splits)
      show ?thesis
      proof (rule from_c[of d])
        show "loop_follows emit root c d" using follow Finished by simp
        show "sink d = s'" by (rule r)
        show "collector_ok res \<longrightarrow> collect_error res = [] \<and> end_ns res = la_end la \<and>
            (\<exists>w \<in> set ws. \<exists>status. is_root_end root w status \<and>
              exit_code res = status_code status \<and> term_signal res = status_signal status)"
        proof
          assume "collector_ok res"
          then have "root_status_seen d" "exit_code res = exit_code (partial_result d)"
              "term_signal res = term_signal (partial_result d)"
              "collect_error res = collect_error (partial_result d)" "end_ns res = la_end la"
            using r(2) by auto
          then show "collect_error res = [] \<and> end_ns res = la_end la \<and>
            (\<exists>w \<in> set ws. \<exists>status. is_root_end root w status \<and>
              exit_code res = status_code status \<and> term_signal res = status_signal status)"
            using d unfolding result_of_def by metis
        qed
      qed
    next
      case (Returned r d)
      have "collector_ok r = False"
        using wait_loop_result[OF l(1) start_ok fresh] Returned by simp
      then show ?thesis
        using from_c[of d] follow l(2) Returned by simp
    next
      case (Waiting d)
      with l(2) show ?thesis by simp
    qed
  qed
qed

lemma collect_success:
  assumes "collect strerror emit request la ws s = Inr (Collected res s')"
    and "\<forall>root. la_fork la = Inr root \<longrightarrow> (\<forall>w \<in> set ws. fresh_child root w)"
    and "collector_ok res"
  shows "collect_error res = [] \<and> end_ns res = la_end la \<and>
    (\<exists>root. la_fork la = Inr root \<and> (\<exists>w \<in> set ws. \<exists>status. is_root_end root w status \<and>
       exit_code res = status_code status \<and> term_signal res = status_signal status))"
proof -
  obtain root where r: "la_fork la = Inr root"
      "run_tracees strerror emit request la ws root s = Inr (Collected res s')"
    using assms(1,3)
    by (auto simp: collect_def Let_def initial_result_def split: if_splits sum.splits option.splits)
  then show ?thesis
    using run_tracees_ends[OF r(2)] assms(2,3) by blast
qed

lemma collect_runs:
  assumes "collect strerror emit request la ws s = Inr (Collected res s')"
    and "\<forall>root. la_fork la = Inr root \<longrightarrow> (\<forall>w \<in> set ws. fresh_child root w)"
  shows "(\<not> collector_ok res \<and> s' = s) \<or>
    (\<exists>root dir st0 evs0 tr st. la_fork la = Inr root \<and>
      add_initial_process empty_execution root dir (root_command request) (la_now la) =
        (st0, evs0) \<and> exec_trace st0 tr st \<and>
      emit_all emit (evs0 @ trace_events tr) s = Inr s')"
proof -
  consider "res = initial_result\<lparr>collect_error := collect_error res\<rparr>" "s' = s"
    | root where "la_fork la = Inr root"
        "run_tracees strerror emit request la ws root s = Inr (Collected res s')"
    using assms(1)
    by (auto simp: collect_def Let_def split: if_splits sum.splits option.splits)
  then show ?thesis
  proof cases
    case 1
    then have "\<not> collector_ok res"
      by (metis initial_result_def collection_result.select_convs(1)
          collection_result.surjective collection_result.update_convs(5))
    with 1 show ?thesis by simp
  next
    case 2
    then show ?thesis
      using run_tracees_ends[OF 2(2)] assms(2) by blast
  qed
qed

text \<open>
  C7. Whatever stops the kernel reports, in whatever order, the collector's effect on
  the sink is that of one run of the execution state's callbacks: the sink has taken the
  events of the initial process and of the run, each once and in order. Otherwise the
  recording failed before a tracee was set up, and the sink is untouched.
\<close>

theorem collect_records_a_run:
  assumes "collect strerror emit request la ws s = Inr (Collected res s')"
    and "\<forall>root. la_fork la = Inr root \<longrightarrow> (\<forall>w \<in> set ws. fresh_child root w)"
  shows "(\<not> collector_ok res \<and> s' = s) \<or>
    (\<exists>root dir st0 evs0 tr st. la_fork la = Inr root \<and>
      add_initial_process empty_execution root dir (root_command request) (la_now la) =
        (st0, evs0) \<and> exec_trace st0 tr st \<and>
      emit_all emit (evs0 @ trace_events tr) s = Inr s')"
  using assms by (rule collect_runs)

text \<open>
  C19. A collection that reports success saw the root tracee end: its exit code and signal
  are those of a wait status of the root (the code, or 128 plus the signal), and the error
  text is empty.
\<close>

theorem collect_result:
  assumes "collect strerror emit request la ws s = Inr (Collected res s')"
    and "\<forall>root. la_fork la = Inr root \<longrightarrow> (\<forall>w \<in> set ws. fresh_child root w)"
    and "collector_ok res"
  shows "collect_error res = [] \<and> end_ns res = la_end la \<and>
    (\<exists>root. la_fork la = Inr root \<and> (\<exists>w \<in> set ws. \<exists>status. is_root_end root w status \<and>
       exit_code res = status_code status \<and> term_signal res = status_signal status))"
  using assms by (rule collect_success)

text \<open>A recording of a command that is killed; the sink is the list of the events.\<close>

definition list_emit :: "event \<Rightarrow> event list \<Rightarrow> event list res" where
  "list_emit e s = Inr (s @ [e])"

definition sample_request :: collection_request where
  "sample_request = \<lparr>command = [''true''], environment = [], root_command = Some ''true'',
     command_channel_fd = None\<rparr>"

definition sample_launch :: launch where
  "sample_launch = \<lparr>la_cwd = Some ''/'', la_fork = Inr 100, la_wait = Inr 0x137F,
     la_options = None, la_now = 1, la_resume = None, la_end = 9\<rparr>"

definition sample_wakeup :: "wait_answer \<Rightarrow> wakeup" where
  "sample_wakeup a = \<lparr>wk_wait = a, wk_now = 5, wk_options = None, wk_regs = Inl 3,
     wk_message = Inr 101, wk_resume = None, wk_host = plain_host\<rparr>"

definition sample_wakeups :: "wakeup list" where
  "sample_wakeups =
     [sample_wakeup (Wait_status 100 0x0001057F), sample_wakeup (Wait_failed 4),
      sample_wakeup (Wait_status 101 0x0300), sample_wakeup (Wait_status 100 9)]"

definition sample_collected :: "event list collect_end" where
  "sample_collected =
     projr (collect (\<lambda>_. []) list_emit sample_request sample_launch sample_wakeups [])"

lemma sample_collects:
  "\<exists>res evs. collect (\<lambda>_. []) list_emit sample_request sample_launch sample_wakeups [] =
     Inr (Collected res evs) \<and> collector_ok res \<and> exit_code res = 137 \<and> length evs = 5"
proof -
  let ?c = "collect (\<lambda>_. []) list_emit sample_request sample_launch sample_wakeups []"
  have "(case ?c of
      Inr (Collected res evs) \<Rightarrow> collector_ok res \<and> exit_code res = 137 \<and> length evs = 5
    | _ \<Rightarrow> False)"
    by code_simp
  then show ?thesis
    by (auto split: sum.splits collect_end.splits)
qed

lemma sample_fresh:
  "\<forall>root. la_fork sample_launch = Inr root \<longrightarrow> (\<forall>w \<in> set sample_wakeups. fresh_child root w)"
proof -
  have "to_int32 (uint (101 :: u64)) = 101"
    by code_simp
  then show ?thesis
    by (simp add: sample_launch_def sample_wakeups_def sample_wakeup_def fresh_child_def)
qed

theorem collect_records_a_run_witness:
  "\<exists>st0 evs0 tr st evs. exec_trace st0 tr st \<and> length evs = 5 \<and> evs = evs0 @ trace_events tr"
proof -
  obtain res evs where c:
      "collect (\<lambda>_. []) list_emit sample_request sample_launch sample_wakeups [] =
        Inr (Collected res evs)" "collector_ok res" "length evs = 5"
    using sample_collects by blast
  have "emit_all list_emit es s = Inr (s @ es)" for es s
    by (induction es arbitrary: s) (simp_all add: list_emit_def)
  then show ?thesis
    using collect_records_a_run[OF c(1) sample_fresh] c(2,3) by fastforce
qed

theorem collect_result_witness:
  "\<exists>w \<in> set sample_wakeups. \<exists>status. is_root_end 100 w status \<and> status_code status = 137"
proof -
  obtain res evs where c:
      "collect (\<lambda>_. []) list_emit sample_request sample_launch sample_wakeups [] =
        Inr (Collected res evs)" "collector_ok res" "exit_code res = 137"
    using sample_collects by blast
  have "la_fork sample_launch = Inr 100"
    by (simp add: sample_launch_def)
  with collect_result[OF c(1) sample_fresh c(2)] c(3) show ?thesis by fastforce
qed

text \<open>What each wake-up asks for: every stop is answered with its own signal, except the stops
  that tracing itself makes.\<close>

definition answer_to :: "wakeup \<Rightarrow> (pid_t \<times> nat) list" where
  "answer_to w =
     (case wk_wait w of
        Wait_failed e \<Rightarrow> []
      | Wait_status tid status \<Rightarrow>
          if WIFEXITED status \<or> WIFSIGNALED status \<or> \<not> WIFSTOPPED status then []
          else
            let sig = WSTOPSIG status in
            [(tid, if sig = syscall_stop \<or> (sig = SIGTRAP \<and> stop_event status \<noteq> 0) \<or>
                     sig = SIGSTOP then 0 else sig)])"

lemma deliver_resumed: "deliver emit r c = Inr c' \<Longrightarrow> resumed c' = resumed c"
  by (auto simp: deliver_def res_simps)

lemma deliver_markers_resumed:
  assumes "deliver_markers emit tid ts markers c = Inr c'"
  shows "resumed c' = resumed c"
  using assms unfolding deliver_markers_def
  by (rule fold_res_invariant[where P = "\<lambda>d. resumed d = resumed c"])
    (auto simp: res_simps deliver_resumed)

lemma handle_syscall_regs_resumed:
  assumes "handle_syscall_regs emit root tid w regs c = Inr c'"
  shows "resumed c' = resumed c"
proof -
  have "resumed d' = resumed d" if "command_write emit root w sc d = Inr d'" for sc d d'
    using that deliver_markers_resumed
    by (fastforce simp: command_write_def res_simps split: if_splits option.splits)
  with assms show ?thesis
    by (fastforce simp: handle_syscall_regs_def Let_def res_simps split: if_splits
        dest: deliver_resumed)
qed

lemma resume_next:
  "resume_or_fail strerror tid sig w c = Next c' \<Longrightarrow> resumed c' = resumed c @ [(tid, sig)]"
  by (auto simp: resume_or_fail_def fail_def split: option.splits)

lemma fail_not_next: "fail message c \<noteq> Next c'"
  by (simp add: fail_def)

lemma handle_stop_resumed:
  assumes "handle_stop strerror emit root tid status w c = Inr (Next c')"
    and "wk_wait w = Wait_status tid status" "WIFSTOPPED status"
    and "\<not> (WIFEXITED status \<or> WIFSIGNALED status)"
  shows "resumed c' = resumed c @ answer_to w"
proof -
  define d where "d = c\<lparr>live_tids := insert tid (live_tids c),
    configured_tids := insert tid (configured_tids c)\<rparr>"
  have d: "resumed d = resumed c" by (simp add: d_def)
  have sys: "resumed c' = resumed c @ [(tid, 0)]"
    if "handle_syscall_stop strerror emit root tid w d = Inr (Next c')"
    using that d handle_syscall_regs_resumed
    by (fastforce simp: handle_syscall_stop_def res_simps fail_not_next
        split: sum.splits if_splits dest: resume_next)
  have event: "resumed c' = resumed c @ [(tid, 0)]"
    if "handle_event_stop strerror emit tid ev w d = Inr (Next c')" for ev
    using that d
    by (fastforce simp: handle_event_stop_def Let_def res_simps fail_not_next
        split: sum.splits if_splits dest: resume_next deliver_resumed)
  have "resumed c' = resumed c @ [(tid, delivered_signal (WSTOPSIG status))]"
    if "resume_or_fail strerror tid (delivered_signal (WSTOPSIG status)) w d = Next c'"
    using resume_next[OF that] d by simp
  with assms sys event show ?thesis
    unfolding handle_stop_def Let_def
    by (auto simp: answer_to_def delivered_signal_def d_def fail_not_next Let_def
        split: option.splits if_splits)
qed

lemma loop_step_resumed:
  assumes "loop_step strerror emit root w c = Inr f" "f = Next c' \<or> f = Break c'"
  shows "resumed c' = resumed c @ answer_to w"
proof (cases "wk_wait w")
  case (Wait_failed e)
  with assms show ?thesis
    by (auto simp: loop_step_def answer_to_def fail_def split: if_splits)
next
  case (Wait_status tid status)
  have no_break: "f \<noteq> Break c'" if "handle_stop strerror emit root tid status w c = Inr f"
    using that
    by (auto simp: handle_stop_def handle_syscall_stop_def handle_event_stop_def resume_or_fail_def
        fail_def Let_def res_simps split: option.splits if_splits sum.splits)
  have exits: "resumed d = resumed c" if "handle_exit emit root tid status w c = Inr d" for d
    using that by (auto simp: handle_exit_def Let_def res_simps dest!: deliver_resumed)
  show ?thesis
    using assms Wait_status no_break exits handle_stop_resumed[of strerror emit root tid status w c c']
    by (auto simp: loop_step_def answer_to_def res_simps split: if_splits)
qed

text \<open>
  C17. No tracee is left stopped: as long as the collection goes on, the loop has asked the
  kernel exactly once for each stop it was told of, in order, to let that thread run on, with
  the signal that stopped it (none for the stops of tracing itself and for SIGSTOP).
\<close>

theorem stops_are_answered:
  assumes "wait_loop strerror emit root ws c = Inr l" "l = Finished c' \<or> l = Waiting c'"
  shows "\<exists>us vs. ws = us @ vs \<and> resumed c' = resumed c @ concat (map answer_to us) \<and>
    (l = Waiting c' \<longrightarrow> vs = [])"
  using assms
proof (induction ws arbitrary: c)
  case Nil
  then show ?case by (auto split: if_splits)
next
  case (Cons w ws)
  show ?case
  proof (cases "live_tids c = {}")
    case True
    with Cons.prems show ?thesis by (intro exI[of _ "[]"] exI[of _ "w # ws"]) auto
  next
    case False
    with Cons.prems(1) obtain f where f: "loop_step strerror emit root w c = Inr f"
        "(case f of
            Next d \<Rightarrow> wait_loop strerror emit root ws d
          | Break d \<Rightarrow> Inr (Finished d)
          | Return r d \<Rightarrow> Inr (Returned r d)) = Inr l"
      by (auto simp: res_simps)
    show ?thesis
    proof (cases f)
      case (Next d)
      then have "wait_loop strerror emit root ws d = Inr l"
        using f(2) by simp
      from Cons.IH[OF this Cons.prems(2)] obtain us vs where u: "ws = us @ vs"
          "resumed c' = resumed d @ concat (map answer_to us)" "l = Waiting c' \<longrightarrow> vs = []"
        by blast
      have "resumed d = resumed c @ answer_to w"
        using loop_step_resumed[OF f(1)] Next by simp
      with u show ?thesis by (intro exI[of _ "w # us"] exI[of _ vs]) simp
    next
      case (Break d)
      then have "l = Finished c'" "d = c'"
        using f(2) Cons.prems(2) by auto
      then have "resumed c' = resumed c @ answer_to w"
        using loop_step_resumed[OF f(1)] Break by simp
      with \<open>l = Finished c'\<close> show ?thesis
        by (intro exI[of _ "[w]"] exI[of _ ws]) simp
    next
      case (Return r d)
      with f(2) Cons.prems(2) show ?thesis by auto
    qed
  qed
qed

definition stopping_wakeups :: "wakeup list" where
  "stopping_wakeups =
     [sample_wakeup (Wait_status 100 0x0B7F), sample_wakeup (Wait_status 100 0x137F),
      sample_wakeup (Wait_status 100 0x0001057F)]"

definition stopped_loop :: "event list collector loop_end" where
  "stopped_loop = projr (wait_loop (\<lambda>_. []) list_emit 100 stopping_wakeups
     (start_collector sample_request 100 sample_start []))"

theorem stops_are_answered_witness:
  "resumed (end_state stopped_loop) = [(100, 11), (100, 0), (100, 0)]"
proof -
  have e: "(case wait_loop (\<lambda>_. []) list_emit 100 stopping_wakeups
      (start_collector sample_request 100 sample_start []) of Inr (Waiting c) \<Rightarrow> True | _ \<Rightarrow> False)"
    by code_simp
  then obtain c where c: "wait_loop (\<lambda>_. []) list_emit 100 stopping_wakeups
      (start_collector sample_request 100 sample_start []) = Inr (Waiting c)"
    by (auto split: sum.splits loop_end.splits)
  have "concat (map answer_to stopping_wakeups) = [(100, 11), (100, 0), (100, 0)]"
    by code_simp
  then have "resumed c = [(100, 11), (100, 0), (100, 0)]"
    using stops_are_answered[OF c, of c] by (auto simp: start_collector_def)
  with c show ?thesis by (simp add: stopped_loop_def)
qed





text \<open>
  When a recording is abandoned, the guard kills every live tracee and then waits until
  each one is gone: if the kernel reports the end of all of them (possibly after stops, which
  the guard continues with SIGKILL, and interrupted waits), none is left.
\<close>

theorem guard_reaps_tracees:
  assumes "set tids \<subseteq> (\<Union>a \<in> set answers. gone a)"
    and "\<forall>e. Wait_failed e \<in> set answers \<longrightarrow> e = EINTR"
  shows "snd (tracee_guard tids answers) = {} \<and>
    (\<forall>tid \<in> set tids. Kill tid \<in> set (fst (tracee_guard tids answers)))"
  using reap_all[OF assms] by (cases "reap answers (set tids)") (auto simp: tracee_guard_def)

theorem guard_reaps_tracees_witness:
  "snd (tracee_guard [7, 8] [Wait_failed 4, Wait_status 8 0x137F, Wait_status 7 9,
     Wait_status 8 9]) = {}"
proof -
  have "WIFSIGNALED 9"
    by code_simp
  then have "set [7, 8] \<subseteq> (\<Union>a \<in> set [Wait_failed 4, Wait_status 8 0x137F, Wait_status 7 9,
     Wait_status 8 9]. gone a)"
    by (simp add: gone_def)
  from guard_reaps_tracees[OF this] show ?thesis
    by (simp add: EINTR_def)
qed

end
