(* ===== verification/Recording.thy ===== *)
theory Recording
  imports Collector Capsule_Store
begin

text \<open>
  The execution state and the capsule writer together: what the commands table of a recording
  holds, and that the writer never rejects an event that the execution state emits.
\<close>

section \<open>The commands table and the log\<close>

definition is_start :: "event \<Rightarrow> bool" where
  "is_start e \<longleftrightarrow> ev_type e = CommandStart"

definition is_end :: "event \<Rightarrow> bool" where
  "is_end e \<longleftrightarrow> ev_type e = CommandEnd"

definition starts :: "event list \<Rightarrow> event list" where
  "starts evs = filter is_start evs"

definition ends_of :: "u64 option \<Rightarrow> event list \<Rightarrow> event list" where
  "ends_of i evs = filter (\<lambda>e. is_end e \<and> ev_command_id e = i) evs"

text \<open>The row of a command: its start event, completed by its end event if there is one.\<close>

definition started_row :: "event \<Rightarrow> command_row" where
  "started_row s =
     \<lparr>c_id = (case ev_command_id s of None \<Rightarrow> 0 | Some i \<Rightarrow> as_i64 i),
      c_sequence = (case stoll (metadata_value s ''sequence'' ''0'') of Inl _ \<Rightarrow> 0 | Inr n \<Rightarrow> n),
      c_shell_pid = ev_pid s, c_command = resource s, c_cwd = metadata_value s ''cwd'' [],
      c_start_ns = as_i64 (timestamp_ns s), c_end_ns = None, c_end_cwd = None,
      c_exit_code = None\<rparr>"

definition ended_row :: "event list \<Rightarrow> command_row \<Rightarrow> command_row" where
  "ended_row es c =
     (if es = [] then c
      else c\<lparr>c_end_ns := Some (as_i64 (timestamp_ns (last es))),
             c_end_cwd := Some (metadata_value (last es) ''cwd'' []),
             c_exit_code := Some (ev_result (last es))\<rparr>)"

definition logged_commands :: "event list \<Rightarrow> command_row list" where
  "logged_commands evs =
     map (\<lambda>s. ended_row (ends_of (ev_command_id s) evs) (started_row s)) (starts evs)"

lemma log_snoc [simp]:
  "starts (evs @ [e]) = starts evs @ (if is_start e then [e] else [])"
  "ends_of i (evs @ [e]) =
     ends_of i evs @ (if is_end e \<and> ev_command_id e = i then [e] else [])"
  by (simp_all add: starts_def ends_of_def)

lemma ended_row_id [simp]: "c_id (ended_row es c) = c_id c" "c_sequence (ended_row es c) = c_sequence c"
  by (simp_all add: ended_row_def)

lemma ended_row_open [simp]: "c_end_ns (ended_row es (started_row s)) = None \<longleftrightarrow> es = []"
  by (simp add: ended_row_def started_row_def)

lemma started_row_id [simp]: "ev_command_id s = Some i \<Longrightarrow> c_id (started_row s) = as_i64 i"
  by (simp add: started_row_def)

lemma emit_capsule_start:
  assumes "emit_capsule e db = Inr db'" "is_start e"
  shows "t_commands db' = t_commands db @ [started_row e] \<and>
    (\<exists>i. ev_command_id e = Some i) \<and> c_id (started_row e) \<notin> c_id ` set (t_commands db) \<and>
    c_sequence (started_row e) \<notin> c_sequence ` set (t_commands db)"
  using assms
  by (auto simp: is_start_def emit_capsule_def store_command_start_def insert_event_row_def
      insert_command_def started_row_def Let_def res_simps split: option.splits if_splits)

lemma emit_capsule_end:
  assumes "emit_capsule e db = Inr db'" "is_end e"
  shows "\<exists>i. ev_command_id e = Some i \<and>
    t_commands db' = map (\<lambda>c. if c_id c = as_i64 i then ended_row [e] c else c) (t_commands db)"
  using assms
  by (auto simp: is_end_def emit_capsule_def store_command_end_def insert_event_row_def
      update_where_def ended_row_def Let_def split: option.splits)

lemma emit_capsule_no_command:
  assumes "emit_capsule e db = Inr db'" "\<not> is_start e" "\<not> is_end e"
  shows "t_commands db' = t_commands db"
  using assms
  by (auto simp: is_start_def is_end_def emit_capsule_def insert_event_row_def
      store_file_activity_def store_network_def store_exec_def store_fork_def store_exit_def
      Let_def res_simps split: event_type.splits)

text \<open>
  The invariant of the writer: the table is the one of the log, every command of the log has
  an id of its own, and no command ended before it started. It holds where the brackets of
  the log are nested; the open one is then the only unfinished row.
\<close>

definition table_ok :: "event list \<Rightarrow> u64 option \<Rightarrow> capsule \<Rightarrow> bool" where
  "table_ok evs opened db \<longleftrightarrow>
     t_commands db = logged_commands evs \<and>
     (\<forall>s \<in> set (starts evs). ev_command_id s \<noteq> None) \<and>
     distinct (map ev_command_id (starts evs)) \<and>
     (\<forall>i. (ends_of (Some i) evs = [] \<longrightarrow> (Some i \<in> ev_command_id ` set (starts evs)
             \<longleftrightarrow> opened = Some i)) \<and>
          (ends_of (Some i) evs \<noteq> [] \<longrightarrow> Some i \<in> ev_command_id ` set (starts evs)
             \<and> opened \<noteq> Some i))"

definition brackets_table :: "event list \<Rightarrow> capsule \<Rightarrow> bool" where
  "brackets_table evs db \<longleftrightarrow>
     (\<forall>opened. bracket_run None (brackets evs) = Some opened \<longrightarrow> table_ok evs opened db)"

lemma bracket_of_kinds:
  "is_start e \<Longrightarrow> bracket_of e = [Opens (ev_command_id e)]"
  "is_end e \<Longrightarrow> bracket_of e = [Closes (ev_command_id e)]"
  "\<not> is_start e \<Longrightarrow> \<not> is_end e \<Longrightarrow> bracket_of e = []"
  by (simp_all add: is_start_def is_end_def)

lemma bracket_run_one:
  "bracket_run s [Opens c] = Some t \<longleftrightarrow> s = None \<and> c \<noteq> None \<and> t = c"
  "bracket_run s [Closes c] = Some t \<longleftrightarrow> s = c \<and> c \<noteq> None \<and> t = None"
  by (cases s; cases c; auto)+

lemma logged_ids: "c_id ` set (logged_commands evs) = (c_id \<circ> started_row) ` set (starts evs)"
  by (simp add: logged_commands_def image_image comp_def)

lemma table_ok_start:
  assumes ok: "table_ok evs None db" and e: "is_start e" and emit: "emit_capsule e db = Inr db'"
  shows "table_ok (evs @ [e]) (ev_command_id e) db'"
proof -
  note t = emit_capsule_start[OF emit e]
  obtain i where i: "ev_command_id e = Some i"
    using t by blast
  have not_end: "\<not> is_end e"
    using e by (simp add: is_start_def is_end_def)
  have fresh: "Some i \<notin> ev_command_id ` set (starts evs)"
  proof
    assume "Some i \<in> ev_command_id ` set (starts evs)"
    then obtain s where "s \<in> set (starts evs)" "ev_command_id s = Some i"
      by force
    then have "as_i64 i \<in> c_id ` set (t_commands db)"
      using ok by (force simp: table_ok_def logged_ids)
    with t i show False by simp
  qed
  then have none: "ends_of (Some i) evs = []"
    using ok unfolding table_ok_def by blast
  then have "logged_commands (evs @ [e]) = logged_commands evs @ [started_row e]"
    using e not_end i by (simp add: logged_commands_def ended_row_def)
  moreover have "ends_of c (evs @ [e]) = ends_of c evs" for c
    using not_end by simp
  moreover have "starts (evs @ [e]) = starts evs @ [e]"
    using e by simp
  moreover have "(ends_of (Some j) evs = [] \<longrightarrow>
        (Some j \<in> insert (Some i) (ev_command_id ` set (starts evs)) \<longleftrightarrow> Some i = Some j)) \<and>
      (ends_of (Some j) evs \<noteq> [] \<longrightarrow>
        Some j \<in> insert (Some i) (ev_command_id ` set (starts evs)) \<and> Some i \<noteq> Some j)" for j
    using ok none unfolding table_ok_def by blast
  ultimately show ?thesis
    using ok t i fresh not_end unfolding table_ok_def by simp
qed

lemma table_ok_end:
  assumes ok: "table_ok evs opened db" and e: "is_end e" and emit: "emit_capsule e db = Inr db'"
    and opened: "opened = ev_command_id e"
  shows "table_ok (evs @ [e]) None db'"
proof -
  obtain i where i: "ev_command_id e = Some i"
    "t_commands db' = map (\<lambda>c. if c_id c = as_i64 i then ended_row [e] c else c) (t_commands db)"
    using emit_capsule_end[OF emit e] by blast
  have not_start: "\<not> is_start e"
    using e by (simp add: is_start_def is_end_def)
  have none: "ends_of (Some i) evs = []"
    using ok opened i(1) unfolding table_ok_def by blast
  then have there: "Some i \<in> ev_command_id ` set (starts evs)"
    using ok opened i(1) unfolding table_ok_def by blast
  have row: "(if c_id (started_row s) = as_i64 i
      then ended_row [e] (ended_row (ends_of (ev_command_id s) evs) (started_row s))
      else ended_row (ends_of (ev_command_id s) evs) (started_row s)) =
      ended_row (ends_of (ev_command_id s) (evs @ [e])) (started_row s)"
    if s: "s \<in> set (starts evs)" for s
  proof -
    have "ev_command_id s \<noteq> None"
      using ok s unfolding table_ok_def by blast
    then obtain j where "ev_command_id s = Some j"
      by blast
    then show ?thesis
      using none e i(1) by (cases "j = i") (simp_all add: ended_row_def)
  qed
  have "t_commands db' = logged_commands (evs @ [e])"
    using ok i(2) not_start row by (simp add: table_ok_def logged_commands_def)
  moreover have "starts (evs @ [e]) = starts evs"
    using not_start by simp
  moreover have "(ends_of (Some j) (evs @ [e]) = [] \<longrightarrow>
        (Some j \<in> ev_command_id ` set (starts evs) \<longleftrightarrow> None = Some j)) \<and>
      (ends_of (Some j) (evs @ [e]) \<noteq> [] \<longrightarrow>
        Some j \<in> ev_command_id ` set (starts evs) \<and> None \<noteq> Some j)" for j
  proof (cases "j = i")
    case True
    with e i(1) there show ?thesis by simp
  next
    case False
    have "(ends_of (Some j) evs = [] \<longrightarrow>
          (Some j \<in> ev_command_id ` set (starts evs) \<longleftrightarrow> opened = Some j)) \<and>
        (ends_of (Some j) evs \<noteq> [] \<longrightarrow>
          Some j \<in> ev_command_id ` set (starts evs) \<and> opened \<noteq> Some j)"
      using ok unfolding table_ok_def by blast
    with False i(1) opened show ?thesis by simp
  qed
  ultimately show ?thesis
    using ok unfolding table_ok_def by simp
qed

lemma table_ok_other:
  assumes "table_ok evs opened db" "\<not> is_start e" "\<not> is_end e" "emit_capsule e db = Inr db'"
  shows "table_ok (evs @ [e]) opened db'"
  using assms emit_capsule_no_command[OF assms(4,2,3)]
  by (simp add: table_ok_def logged_commands_def)

lemma brackets_table_step:
  assumes emit: "emit_capsule e db = Inr db'" and ok: "brackets_table evs db"
  shows "brackets_table (evs @ [e]) db'"
  unfolding brackets_table_def
proof (intro allI impI)
  fix opened
  assume "bracket_run None (brackets (evs @ [e])) = Some opened"
  then obtain before where run: "bracket_run None (brackets evs) = Some before"
      "bracket_run before (bracket_of e) = Some opened"
    by (auto simp: bracket_run_append bind_eq_Some_conv)
  have tbl: "table_ok evs before db"
    using ok run(1) by (simp add: brackets_table_def)
  consider "is_start e" | "is_end e" | "\<not> is_start e" "\<not> is_end e"
    by blast
  then show "table_ok (evs @ [e]) opened db'"
  proof cases
    case 1
    then have "before = None" "opened = ev_command_id e"
      using run(2) by (simp_all add: bracket_of_kinds bracket_run_one)
    with tbl 1 emit show ?thesis by (auto intro: table_ok_start)
  next
    case 2
    then have "before = ev_command_id e" "opened = None"
      using run(2) by (simp_all add: bracket_of_kinds bracket_run_one)
    with tbl 2 emit show ?thesis by (auto intro: table_ok_end)
  next
    case 3
    then show ?thesis
      using run(2) tbl emit by (auto simp: bracket_of_kinds intro: table_ok_other)
  qed
qed

lemma commands_history:
  assumes "emit_all emit_writer evs (open_writer v run) = Inr w"
    and "bracket_run None (brackets evs) = Some opened"
  shows "table_ok evs opened (w_db w)"
proof -
  have "brackets_table evs (w_db w)"
    using assms(1)
  proof (rule emit_all_history)
    show "brackets_table [] (w_db (open_writer v run))"
      by (simp add: brackets_table_def table_ok_def logged_commands_def starts_def ends_of_def
          open_writer_def empty_tables_def)
  qed (rule brackets_table_step)
  with assms(2) show ?thesis by (simp add: brackets_table_def)
qed

section \<open>The writer accepts every recording\<close>

text \<open>
  The numbers that the writer parses back from the metadata are those that the execution
  state printed: process ids (\<open>pid_t\<close>), exit codes and signals (\<open>int\<close>), command ids.
\<close>

definition int_ok :: "int \<Rightarrow> bool" where
  "int_ok i \<longleftrightarrow> - (2 ^ 31) \<le> i \<and> i < 2 ^ 31"

fun op_ok :: "exec_op \<Rightarrow> bool" where
  "op_ok (Exec h tid ts) \<longleftrightarrow> int_ok tid"
| "op_ok (Created pt ct ev fl ts) \<longleftrightarrow> int_ok ct"
| "op_ok (Exited tid ec sg ts) \<longleftrightarrow> int_ok ec \<and> int_ok sg"
| "op_ok (Marker tid m ts) \<longleftrightarrow> True"
| "op_ok (Syscall h sc) \<longleftrightarrow> True"

definition pids_ok :: "execution_state \<Rightarrow> bool" where
  "pids_ok st \<longleftrightarrow> (\<forall>k p. processes st k = Some p \<longrightarrow> int_ok (p_pid p) \<and> int_ok (parent_pid p))"

lemma stoll_int_ok: "int_ok i \<Longrightarrow> stoll (show_int i) = Inr i"
  by (simp add: int_ok_def stoll_show_int)

lemma pids_ok_put:
  "pids_ok st \<Longrightarrow> int_ok (p_pid p) \<Longrightarrow> int_ok (parent_pid p) \<Longrightarrow> pids_ok (put_process st tid p)"
  by (simp add: pids_ok_def put_process_def)

lemma pids_ok_insert:
  "pids_ok st \<Longrightarrow> int_ok (p_pid p) \<Longrightarrow> int_ok (parent_pid p) \<Longrightarrow> pids_ok (insert_process st k p)"
  by (simp add: pids_ok_def insert_process_def)

lemma pids_ok_simps [simp]:
  "pids_ok (s\<lparr>active_command := a\<rparr>) = pids_ok s"
  "pids_ok (s\<lparr>thread_to_process := m\<rparr>) = pids_ok s"
  "pids_ok (forget_thread s tid) = pids_ok s"
  by (simp_all add: pids_ok_def forget_thread_def)

lemma pids_ok_find:
  "pids_ok st \<Longrightarrow> find_process_for_thread st tid = Some p \<Longrightarrow> int_ok (p_pid p) \<and> int_ok (parent_pid p)"
  by (simp add: pids_ok_def find_process_for_thread_def)

text \<open>An event whose metadata the writer can read.\<close>

definition storable :: "event \<Rightarrow> bool" where
  "storable e \<longleftrightarrow>
     (case ev_type e of
        CommandStart \<Rightarrow>
          (case ev_command_id e of
             None \<Rightarrow> False
           | Some i \<Rightarrow> metadata_value e ''sequence'' ''0'' = show_u64 i)
      | CommandEnd \<Rightarrow> ev_command_id e \<noteq> None
      | ProcessExec \<Rightarrow> \<exists>i. int_ok i \<and> metadata_value e ''ppid'' ''0'' = show_int i
      | ProcessFork \<Rightarrow> \<exists>i. int_ok i \<and> metadata_value e ''child_pid'' ''0'' = show_int i
      | ProcessExit \<Rightarrow> (\<exists>i. int_ok i \<and> metadata_value e ''exit_code'' ''-1'' = show_int i) \<and>
          (\<exists>i. int_ok i \<and> metadata_value e ''term_signal'' ''0'' = show_int i)
      | _ \<Rightarrow> True)"

lemma storable_emit [simp]:
  assumes "ev_type e \<notin> {CommandStart, CommandEnd}"
  shows "storable (emit_event st e) = storable e"
  using assms by (simp add: storable_def split: event_type.split)

lemma pids_ok_initial:
  assumes "add_initial_process empty_execution pid dir text0 ts = (st, evs)" "int_ok pid"
  shows "pids_ok st \<and> list_all storable evs"
proof -
  have "int_ok 0" by (simp add: int_ok_def)
  moreover have "show_u64 1 = ''1''" by code_simp
  ultimately show ?thesis
    using assms
    by (auto simp: add_initial_process_def Let_def pids_ok_def empty_execution_def insert_process_def
        empty_process_def storable_def split: option.splits if_splits)
qed

lemma pids_ok_marker:
  assumes "on_command_marker st tid m ts = Inr (st', evs)" "pids_ok st"
  shows "pids_ok st' \<and> list_all storable evs"
proof -
  have put: "pids_ok ((put_process st tid (p\<lparr>p_command_id := c\<rparr>))\<lparr>active_command := a\<rparr>)"
    if "find_process_for_thread st tid = Some p" for p c a
    using pids_ok_find[OF assms(2) that] assms(2) by (simp add: pids_ok_put)
  show ?thesis
    using assms put
    by (auto simp: on_command_marker_def Let_def storable_def
        split: option.splits if_splits command_marker_type.splits)
qed

lemma pids_ok_exec:
  assumes "on_process_exec h st tid ts = (st', evs)" "pids_ok st" "int_ok tid"
  shows "pids_ok st' \<and> list_all storable evs"
proof -
  define d where "d = empty_process\<lparr>p_pid := tid, cwd := read_proc_link h tid ''cwd''\<rparr>"
  define st1 where "st1 = (if find_process_for_thread st tid = None then insert_process st tid d else st)"
  define p where "p = (case find_process_for_thread st1 tid of None \<Rightarrow> d | Some p \<Rightarrow> p)"
  have d: "int_ok (p_pid d) \<and> int_ok (parent_pid d)"
    using assms(3) by (simp add: d_def empty_process_def int_ok_def)
  then have st1: "pids_ok st1"
    using assms(2) by (simp add: st1_def pids_ok_insert)
  then have p: "int_ok (p_pid p) \<and> int_ok (parent_pid p)"
    using d pids_ok_find[OF st1] by (simp add: p_def split: option.split)
  define exe where "exe = (if read_proc_link h tid ''exe'' = [] then ''<unknown>'' else read_proc_link h tid ''exe'')"
  have "st' = put_process st1 tid (p\<lparr>executable := exe\<rparr>)"
    "evs = [emit_event st' (set_metadata ''ppid'' (show_int (parent_pid p))
                (mk_event ts (p_pid p) tid ProcessExec exe 0 0))]"
    using assms(1) unfolding on_process_exec_def Let_def d_def[symmetric] st1_def[symmetric]
      p_def[symmetric] exe_def[symmetric] by auto
  then show ?thesis
    using st1 p by (auto simp: pids_ok_put storable_def)
qed

lemma pids_ok_mark: "pids_ok (mark_first_process st pid ts) = pids_ok st"
  by (auto simp: mark_first_process_def pids_ok_def split: option.split)

lemma pids_ok_created:
  assumes "on_process_created st pt ct ev fl ts = (st', evs)" "pids_ok st" "int_ok ct"
  shows "pids_ok st' \<and> list_all storable evs"
proof -
  have fork_ok: "storable (emit_event s (fork_event p pt ct ev ts))" for s p
    using assms(3) by (auto simp: storable_def)
  have r: "st' = fst (on_process_created st pt ct ev fl ts)"
    "evs = snd (on_process_created st pt ct ev fl ts)"
    using assms(1) by simp_all
  show ?thesis
  proof (cases "find_process_for_thread st pt")
    case None
    with r assms(2) show ?thesis
      by (simp add: on_process_created_state on_process_created_events)
  next
    case (Some p)
    with r assms(2,3) fork_ok pids_ok_find[OF assms(2) Some] show ?thesis
      by (simp add: on_process_created_state on_process_created_events pids_ok_mark pids_ok_insert)
  qed
qed

lemma pids_ok_exit:
  assumes "on_process_exit st tid ec sg ts = (st', evs)" "pids_ok st" "int_ok ec" "int_ok sg"
  shows "pids_ok st' \<and> list_all storable evs"
proof (cases "tid \<noteq> process_for_thread st tid \<or> find_process_for_thread st tid = None")
  case True
  then show ?thesis
    using assms(1,2) on_process_exit_no_process[OF True, of ec sg ts]
    by (auto split: if_splits)
next
  case False
  then obtain p where p: "find_process_for_thread st tid = Some p"
    by blast
  have ok: "int_ok (p_pid p)" "int_ok (parent_pid p)"
    using pids_ok_find[OF assms(2) p] by simp_all
  have exit_ok: "storable (set_metadata ''term_signal'' (show_int sg)
      (set_metadata ''exit_code'' (show_int ec) (mk_event ts k tid ProcessExit exe r 0)))" for k exe r
    using assms(3,4) by (auto simp: storable_def)
  have keep: "pids_ok (put_process s tid (q\<lparr>p_command_id := c\<rparr>))"
    if "pids_ok s" "int_ok (p_pid q)" "int_ok (parent_pid q)" for s q c
    using that by (simp add: pids_ok_put)
  define q where "q = (if p_pid p = root_pid st \<and> command_unstarted st
    then p\<lparr>p_command_id := None\<rparr> else p)"
  have q: "int_ok (p_pid q)" "int_ok (parent_pid q)"
    using ok by (auto simp: q_def)
  define st1 where "st1 = put_process st tid q"
  have st1: "pids_ok st1"
    using assms(2) q by (simp add: st1_def pids_ok_put)
  have "list_all storable evs"
    using assms(1) False p exit_ok
    unfolding on_process_exit_def Let_def q_def[symmetric]
    by (auto simp: storable_def split: if_splits)
  moreover have "pids_ok st'"
    using assms(1) False p st1 keep[OF st1 q]
    unfolding on_process_exit_def Let_def
    by (auto simp: q_def[symmetric] st1_def[symmetric] split: if_splits)
  ultimately show ?thesis by simp
qed

lemma pids_ok_syscall:
  assumes "on_syscall_exit h st sc = (st', evs)" "pids_ok st"
  shows "pids_ok st' \<and> list_all storable evs"
proof (cases "find_process_for_thread st (sc_tid sc)")
  case None
  with assms show ?thesis by (simp add: on_syscall_exit_def)
next
  case (Some p)
  obtain p' fs where r: "syscall_effect h p sc = (p', fs)"
    by fastforce
  have ok: "int_ok (p_pid p')" "int_ok (parent_pid p')"
    using pids_ok_find[OF assms(2) Some] syscall_effect_frame[OF r] by simp_all
  have "storable (emit_event st f)" if f: "f \<in> set fs" for f
    using syscall_effect_events[OF r f] by (auto simp: storable_def activity_types_def)
  then show ?thesis
    using assms Some r ok
    by (auto simp: on_syscall_exit_def list_all_iff pids_ok_put)
qed

lemma exec_step_storable:
  assumes "exec_step st op evs st'" "pids_ok st" "op_ok op"
  shows "pids_ok st' \<and> list_all storable evs"
  using assms
  by (cases rule: exec_step.cases)
    (auto dest: pids_ok_marker pids_ok_exec pids_ok_created pids_ok_exit pids_ok_syscall)

lemma exec_trace_storable:
  assumes "exec_trace st tr st'" "pids_ok st" "list_all (op_ok \<circ> fst) tr"
  shows "list_all storable (trace_events tr)"
  using assms
proof (induction rule: exec_trace.induct)
  case none
  then show ?case by simp
next
  case (step st op evs st1 tr st')
  then show ?case
    using exec_step_storable[OF step.hyps(1)] by simp
qed

lemma as_i64_small:
  assumes "uint (i :: u64) < 2 ^ 63"
  shows "as_i64 i = uint i"
proof -
  have "- (2 ^ 63) \<le> uint i"
    by (rule order_trans[OF _ uint_ge_0]) simp
  with assms have "signed_take_bit 63 (uint i) = uint i"
    by (intro signed_take_bit_int_eq_self)
  then show ?thesis by (simp add: as_i64_def sint_uint)
qed

text \<open>
  Storable start events keep the sequence number equal to the id, so that both UNIQUE
  constraints hold where the ids are distinct.
\<close>

definition ids_match :: "capsule \<Rightarrow> bool" where
  "ids_match db \<longleftrightarrow> list_all (\<lambda>c. c_sequence c = c_id c) (t_commands db)"

definition small_id :: "event \<Rightarrow> bool" where
  "small_id e \<longleftrightarrow> (case ev_command_id e of None \<Rightarrow> True | Some i \<Rightarrow> uint i < 2 ^ 63)"

lemma storable_start:
  assumes "storable e" "is_start e" "small_id e"
  shows "\<exists>i. ev_command_id e = Some i \<and> stoll (metadata_value e ''sequence'' ''0'') = Inr (as_i64 i)"
proof -
  obtain i where i: "ev_command_id e = Some i" "metadata_value e ''sequence'' ''0'' = show_u64 i"
    using assms(1,2) by (auto simp: storable_def is_start_def split: option.splits)
  have u: "uint i < 2 ^ 63"
    using assms(3) i(1) by (simp add: small_id_def)
  then have "int (unat i) < 2 ^ 63"
    by simp
  then have "unat i < 2 ^ 63"
    by (metis of_nat_less_iff of_nat_numeral of_nat_power)
  then have "stoll (show_u64 i) = Inr (int (unat i))"
    by (simp add: show_u64_def stoll_show_nat)
  with i as_i64_small[OF u] show ?thesis by simp
qed

lemma emit_storable:
  assumes e: "storable e" and match: "ids_match db"
    and fresh: "is_start e \<Longrightarrow> small_id e"
      "is_start e \<Longrightarrow> ev_command_id e \<notin> ev_command_id ` set (starts evs)"
    and rows: "map c_id (t_commands db) = map (c_id \<circ> started_row) (starts evs)"
    and named: "list_all (\<lambda>s. ev_command_id s \<noteq> None) (starts evs)"
  shows "\<exists>db'. emit_capsule e db = Inr db' \<and> ids_match db' \<and>
    map c_id (t_commands db') = map (c_id \<circ> started_row) (starts (evs @ [e])) \<and>
    list_all (\<lambda>s. ev_command_id s \<noteq> None) (starts (evs @ [e]))"
proof (cases "is_start e")
  case True
  obtain i where i: "ev_command_id e = Some i"
    "stoll (metadata_value e ''sequence'' ''0'') = Inr (as_i64 i)"
    using storable_start[OF e True fresh(1)[OF True]] by blast
  have new: "as_i64 i \<notin> c_id ` set (t_commands db)"
  proof
    assume "as_i64 i \<in> c_id ` set (t_commands db)"
    then have "as_i64 i \<in> set (map (c_id \<circ> started_row) (starts evs))"
      unfolding rows[symmetric] by simp
    then obtain s where s: "s \<in> set (starts evs)" "c_id (started_row s) = as_i64 i"
      by auto
    moreover obtain j where "ev_command_id s = Some j"
      using named s(1) by (auto simp: list_all_iff)
    ultimately have "ev_command_id s = ev_command_id e"
      using i(1) by simp
    with fresh(2)[OF True] s(1) show False by (metis imageI)
  qed
  moreover have "c_sequence ` set (t_commands db) = c_id ` set (t_commands db)"
    using match by (auto simp: ids_match_def list_all_iff intro!: image_cong)
  ultimately have "emit_capsule e db =
      Inr ((insert_event_row e db)\<lparr>t_commands := t_commands db @ [started_row e]\<rparr>)"
    using True i
    by (simp add: emit_capsule_def is_start_def store_command_start_def insert_command_def
        insert_event_row_def started_row_def)
  then show ?thesis
    using True i match rows named
    by (simp add: ids_match_def started_row_def comp_def)
next
  case False
  have "\<exists>db'. emit_capsule e db = Inr db'"
    using e False
    by (auto simp: storable_def is_start_def emit_capsule_def Let_def store_command_end_def
        store_exec_def store_fork_def store_exit_def stoll_int_ok split: event_type.splits)
  then obtain db' where db': "emit_capsule e db = Inr db'"
    by blast
  have "map c_id (t_commands db') = map c_id (t_commands db) \<and> (ids_match db \<longrightarrow> ids_match db')"
  proof (cases "is_end e")
    case True
    have "c_id (if P c then ended_row [e] c else c) = c_id c"
      "c_sequence (if P c then ended_row [e] c else c) = c_sequence c" for P and c :: command_row
      by simp_all
    then show ?thesis
      using emit_capsule_end[OF db' True] by (auto simp: ids_match_def list_all_iff)
  next
    case no_end: False
    show ?thesis
      using emit_capsule_no_command[OF db' False no_end] by (simp add: ids_match_def)
  qed
  with db' match rows named False show ?thesis by simp
qed

lemma emit_all_storable:
  assumes "list_all storable evs" "list_all small_id (starts evs)"
    and "distinct (map ev_command_id (starts evs))"
  shows "\<exists>w. emit_all emit_writer evs (open_writer v run) = Inr w \<and> ids_match (w_db w) \<and>
    map c_id (t_commands (w_db w)) = map (c_id \<circ> started_row) (starts evs) \<and>
    list_all (\<lambda>s. ev_command_id s \<noteq> None) (starts evs)"
  using assms
proof (induction evs rule: rev_induct)
  case Nil
  then show ?case
    by (simp add: open_writer_def empty_tables_def ids_match_def starts_def)
next
  case (snoc e es)
  then obtain u where u: "emit_all emit_writer es (open_writer v run) = Inr u"
      "ids_match (w_db u)" "map c_id (t_commands (w_db u)) = map (c_id \<circ> started_row) (starts es)"
      "list_all (\<lambda>s. ev_command_id s \<noteq> None) (starts es)"
    by (auto split: if_splits)
  have "is_start e \<Longrightarrow> small_id e" "is_start e \<Longrightarrow> ev_command_id e \<notin> ev_command_id ` set (starts es)"
    using snoc.prems(2,3) by simp_all
  then obtain db where db: "emit_capsule e (w_db u) = Inr db" "ids_match db"
      "map c_id (t_commands db) = map (c_id \<circ> started_row) (starts (es @ [e]))"
      "list_all (\<lambda>s. ev_command_id s \<noteq> None) (starts (es @ [e]))"
    using emit_storable[OF _ u(2) _ _ u(3,4), of e] snoc.prems(1) by auto
  define w where "w = u\<lparr>w_db := db, w_file := (if finished u then db else w_file u)\<rparr>"
  have "emit_all emit_writer (es @ [e]) (open_writer v run) = Inr w"
    using u(1) db(1) by (simp add: emit_all_append emit_writer_def w_def)
  moreover have "w_db w = db"
    by (simp add: w_def)
  ultimately show ?case
    using db(2-4) by metis
qed

section \<open>Properties\<close>

lemma unique_filter:
  assumes "distinct (map f xs)"
  shows "map f (filter (\<lambda>x. f x = a) xs) = (if a \<in> f ` set xs then [a] else [])"
  using assms by (induction xs) (auto simp: filter_empty_conv)

lemma unfinished_rows:
  assumes "table_ok evs opened db"
  shows "map c_id (filter (\<lambda>c. c_end_ns c = None) (t_commands db)) =
    (case opened of None \<Rightarrow> [] | Some i \<Rightarrow> [as_i64 i])"
proof -
  have kept: "filter (\<lambda>s. ends_of (ev_command_id s) evs = []) (starts evs) =
      filter (\<lambda>s. opened \<noteq> None \<and> ev_command_id s = opened) (starts evs)"
  proof (rule filter_cong[OF refl])
    fix s
    assume s: "s \<in> set (starts evs)"
    then have "ev_command_id s \<noteq> None"
      using assms unfolding table_ok_def by blast
    then obtain i where i: "ev_command_id s = Some i"
      by blast
    moreover have "Some i \<in> ev_command_id ` set (starts evs)"
      using s i by (metis imageI)
    ultimately show "ends_of (ev_command_id s) evs = [] \<longleftrightarrow>
        opened \<noteq> None \<and> ev_command_id s = opened"
      using assms unfolding table_ok_def by (metis option.distinct(1))
  qed
  have "map c_id (filter (\<lambda>c. c_end_ns c = None) (t_commands db)) =
      map (c_id \<circ> started_row) (filter (\<lambda>s. ends_of (ev_command_id s) evs = []) (starts evs))"
    using assms by (simp add: table_ok_def logged_commands_def filter_map comp_def)
  also have "\<dots> = (case opened of None \<Rightarrow> [] | Some i \<Rightarrow> [as_i64 i])"
  proof (cases opened)
    case None
    then show ?thesis by (simp add: kept)
  next
    case (Some i)
    have dist: "distinct (map ev_command_id (starts evs))"
      using assms by (simp add: table_ok_def)
    have "Some i \<in> ev_command_id ` set (starts evs)"
      using assms Some unfolding table_ok_def by metis
    then have one: "map ev_command_id (filter (\<lambda>s. ev_command_id s = Some i) (starts evs)) = [Some i]"
      using unique_filter[OF dist, of "Some i"] by simp
    have "map (c_id \<circ> started_row) (filter (\<lambda>s. ev_command_id s = Some i) (starts evs)) =
        map (\<lambda>_. as_i64 i) (filter (\<lambda>s. ev_command_id s = Some i) (starts evs))"
      by (rule map_cong) auto
    also have "\<dots> = [as_i64 i]"
      using one by (cases "filter (\<lambda>s. ev_command_id s = Some i) (starts evs)") auto
    finally show ?thesis
      using Some by (simp add: kept)
  qed
  finally show ?thesis .
qed

text \<open>
  C9. The commands table of a recording is what the log says: one row for each
  command_start event, in order, completed by the command_end event of the same id; the ids are
  distinct, and the only row without an end is that of the command that the execution state
  says is running.
\<close>

theorem commands_table_is_log:
  assumes "add_initial_process empty_execution pid dir text0 ts = (st0, evs0)"
    and "exec_trace st0 tr st"
    and "emit_all emit_writer (evs0 @ trace_events tr) (open_writer v run) = Inr w"
  shows "t_commands (w_db w) = logged_commands (evs0 @ trace_events tr) \<and>
    distinct (map ev_command_id (starts (evs0 @ trace_events tr))) \<and>
    map c_id (filter (\<lambda>c. c_end_ns c = None) (t_commands (w_db w))) =
      (case open_of (phase_of st) of None \<Rightarrow> [] | Some i \<Rightarrow> [as_i64 i])"
proof -
  note ok = commands_history[OF assms(3) recording_bracket_run[OF assms(1,2)]]
  then show ?thesis
    using unfinished_rows[OF ok] by (simp only: table_ok_def)
qed

lemma sample_initial: "add_initial_process empty_execution 100 ''/'' None 1 = (sample_start, [])"
  by (simp add: sample_start_def add_initial_process_def Let_def)

definition sample_recorded :: "capsule_writer res" where
  "sample_recorded = emit_all emit_writer ([] @ trace_events sample_trace) (open_writer ''1'' sample_run)"

lemma sample_recorded_ok: "sample_recorded = Inr (projr sample_recorded)"
proof -
  have "\<not> isl sample_recorded" by code_simp
  then show ?thesis by (cases sample_recorded) simp_all
qed

theorem commands_table_is_log_witness:
  "t_commands (w_db (projr sample_recorded)) = logged_commands (trace_events sample_trace) \<and>
   length (t_commands (w_db (projr sample_recorded))) = 1"
proof -
  have "t_commands (w_db (projr sample_recorded)) = logged_commands ([] @ trace_events sample_trace)"
    using commands_table_is_log[OF sample_initial sample_runs sample_recorded_ok[unfolded sample_recorded_def]]
    by (simp only: sample_recorded_def)
  moreover have "length (t_commands (w_db (projr sample_recorded))) = 1"
    by code_simp
  ultimately show ?thesis by simp
qed



text \<open>
  The bound of 2^63 is needed: the decoder and the execution state accept a start
  marker with any 64-bit id, but the writer reads the printed id back as a signed number and
  throws for the larger half, which ends the recording.
\<close>

theorem large_command_id_rejected:
  assumes "on_command_marker st tid m ts = Inr (st', evs)" "evs \<noteq> []" "cm_type m = Start"
    and "2 ^ 63 \<le> uint (cm_id m)"
  shows "emit_all emit_writer evs w = Inl (Out_of_range ''stoll'')"
proof -
  have "\<not> int (unat (cm_id m)) < 2 ^ 63"
    using assms(4) by simp
  then have "\<not> unat (cm_id m) < 2 ^ 63"
    by (metis of_nat_less_iff of_nat_numeral of_nat_power)
  then have "stoll (show_u64 (cm_id m)) = Inl (Out_of_range ''stoll'')"
    by (simp add: show_u64_def stoll_show_nat)
  moreover have "\<exists>e. evs = [e] \<and> ev_type e = CommandStart \<and> ev_command_id e = Some (cm_id m) \<and>
      metadata_value e ''sequence'' ''0'' = show_u64 (cm_id m)"
    using assms(1-3)
    by (auto simp: on_command_marker_def Let_def split: option.splits if_splits)
  ultimately show ?thesis
    by (auto simp: emit_writer_def emit_capsule_def store_command_start_def Let_def)
qed

definition large_marker :: "command_marker_type \<Rightarrow> command_marker" where
  "large_marker t = (sample_marker t)\<lparr>cm_id := 0x8000000000000000\<rparr>"

definition large_armed :: execution_state where
  "large_armed = fst (projr (on_command_marker sample_start 100 (large_marker Arm) 1))"

definition large_started :: "(execution_state \<times> event list) res" where
  "large_started = on_command_marker large_armed 100 (large_marker Start) 2"

theorem large_command_id_rejected_witness:
  "emit_all emit_writer (snd (projr large_started)) sample_writer = Inl (Out_of_range ''stoll'')"
proof (rule large_command_id_rejected)
  have "\<not> isl large_started \<and> snd (projr large_started) \<noteq> [] \<and> cm_type (large_marker Start) = Start"
    by (simp add: large_started_def large_armed_def large_marker_def sample_marker_def
        sample_start_def add_initial_process_def empty_execution_def empty_process_def
        insert_process_def put_process_def find_process_for_thread_def process_for_thread_def
        on_command_marker_def Let_def)
  then show "on_command_marker large_armed 100 (large_marker Start) 2 =
      Inr (fst (projr large_started), snd (projr large_started))"
    "snd (projr large_started) \<noteq> []" "cm_type (large_marker Start) = Start"
    by (auto simp: large_started_def[symmetric])
  show "2 ^ 63 \<le> uint (cm_id (large_marker Start))"
    by (simp add: large_marker_def)
qed

end
