(* ===== verification/Session_Record.thy ===== *)
theory Session_Record
  imports Recording Bash_Hooks
begin

text \<open>
  The parts of an interactive recording together: the shell's hooks, the collector with its
  decoder, the execution state and the writer. Whatever else is traced between them, the lines
  that were typed at the prompt are the rows of the commands table.
\<close>

section \<open>The markers of a run and its command events\<close>

text \<open>The collector passes on markers of the root only; the root is alive during the session.\<close>

fun root_alive :: "pid_t \<Rightarrow> exec_op \<Rightarrow> bool" where
  "root_alive root (Marker tid m ts) \<longleftrightarrow> tid = root"
| "root_alive root (Exited tid ec sg ts) \<longleftrightarrow> tid \<noteq> root"
| "root_alive root (Exec h tid ts) \<longleftrightarrow> True"
| "root_alive root (Created pt ct ev fl ts) \<longleftrightarrow> True"
| "root_alive root (Syscall h sc) \<longleftrightarrow> True"

lemma root_alive_iff:
  "list_all (root_alive root \<circ> fst) tr \<longleftrightarrow>
     list_all (marker_from root \<circ> fst) tr \<and> root \<notin> set (exits_of tr)"
proof (induction tr)
  case Nil
  then show ?case by simp
next
  case (Cons x tr)
  then show ?case by (cases "fst x") auto
qed

text \<open>What the commands table keeps of an event: type, id, text, result and directory.\<close>

type_synonym command_view = "event_type \<times> u64 option \<times> string \<times> int \<times> string"

definition is_command_event :: "event \<Rightarrow> bool" where
  "is_command_event e \<longleftrightarrow> is_start e \<or> is_end e"

definition event_view :: "event \<Rightarrow> command_view" where
  "event_view e =
     (ev_type e, ev_command_id e, resource e, ev_result e, metadata_value e ''cwd'' [])"

definition log_views :: "event list \<Rightarrow> command_view list" where
  "log_views evs = map event_view (filter is_command_event evs)"

definition marker_views :: "command_marker \<Rightarrow> command_view list" where
  "marker_views m =
     (case cm_type m of
        Arm \<Rightarrow> []
      | Start \<Rightarrow> [(CommandStart, Some (cm_id m), cm_text m, 0, cm_cwd m)]
      | End \<Rightarrow> [(CommandEnd, Some (cm_id m), [], cm_exit_code m, cm_cwd m)])"

lemma log_views_append [simp]: "log_views (xs @ ys) = log_views xs @ log_views ys"
  by (simp add: log_views_def)

lemma log_views_Nil_iff: "log_views evs = [] \<longleftrightarrow> brackets evs = []"
  by (induction evs)
    (auto simp: log_views_def is_command_event_def bracket_of_kinds)

definition root_thread :: "execution_state \<Rightarrow> bool" where
  "root_thread st \<longleftrightarrow> process_for_thread st (root_pid st) = root_pid st"

lemma root_thread_step:
  assumes "exec_step st op evs st'" "root_thread st"
  shows "root_thread st'"
  using assms(1)
proof cases
  case (marker tid m ts)
  then have "thread_to_process st' = thread_to_process st"
    by (auto simp: on_command_marker_def put_process_def Let_def
        split: option.splits if_splits command_marker_type.splits)
  then show ?thesis
    using assms exec_step_root[OF assms(1)] by (simp add: root_thread_def process_for_thread_def)
next
  case (exec h tid ts)
  then have "thread_to_process st' = thread_to_process st \<or>
      thread_to_process st' = (thread_to_process st)(tid \<mapsto> tid)"
    by (auto simp: on_process_exec_def put_process_def insert_process_def Let_def)
  then show ?thesis
    using assms exec_step_root[OF assms(1)]
    by (auto simp: root_thread_def process_for_thread_def)
next
  case (created child_tid parent_tid ev flags ts)
  have "st' = fst (on_process_created st parent_tid child_tid ev flags ts)"
    using created by simp
  then have "\<exists>x. thread_to_process st' = thread_to_process st \<or>
      thread_to_process st' = (thread_to_process st)(child_tid \<mapsto> x)"
    by (auto simp: on_process_created_state insert_process_def split: option.split)
  then show ?thesis
    using assms(2) created exec_step_root[OF assms(1)]
    by (auto simp: root_thread_def process_for_thread_def)
next
  case (exited tid ec sg ts)
  then have "thread_to_process st' = thread_to_process st \<or>
      thread_to_process st' = (thread_to_process st)(tid := None)"
    by (auto simp: on_process_exit_def put_process_def forget_thread_def Let_def
        split: option.splits if_splits)
  then show ?thesis
    using assms exec_step_root[OF assms(1)]
    by (auto simp: root_thread_def process_for_thread_def)
next
  case (syscall h sc)
  then show ?thesis
    using assms(2) syscall_state[of h st sc st' evs]
    by (simp add: root_thread_def process_for_thread_def)
qed

lemma marker_step_views:
  assumes "on_command_marker st tid m ts = Inr (st', evs)" "exec_inv st" "root_thread st"
    and "tid = root_pid st"
  shows "log_views evs = marker_views m"
proof -
  obtain r where r: "processes st (root_pid st) = Some r"
    using exec_invD(4)[OF assms(2)] by blast
  then have p: "find_process_for_thread st tid = Some r" "p_pid r = root_pid st"
    using assms(3,4) exec_invD(1)[OF assms(2)]
    by (simp_all add: find_process_for_thread_def root_thread_def)
  then show ?thesis
    using assms(1)
    by (auto simp: on_command_marker_def Let_def log_views_def is_command_event_def is_start_def
        is_end_def event_view_def marker_views_def split: command_marker_type.splits option.splits
        if_splits)
qed

text \<open>An exit closes a command only if the process is the root and a command is running.\<close>

lemma quiet_exit:
  assumes "on_process_exit st tid ec sg ts = (st', evs)" "exec_inv st"
    and "tid \<noteq> root_pid st \<or> open_of (phase_of st) = None"
  shows "brackets evs = []"
proof (cases "tid \<noteq> process_for_thread st tid \<or> find_process_for_thread st tid = None")
  case True
  then show ?thesis
    using assms(1) on_process_exit_no_process[OF True, of ec sg ts] by (auto split: if_splits)
next
  case False
  then obtain p where p: "find_process_for_thread st tid = Some p" by blast
  show ?thesis
  proof (cases "p_pid p = root_pid st")
    case True
    then have "\<not> command_started st"
      using False find_process_pid[OF assms(2) p] assms(3)
      by (auto simp: command_started_def phase_of_def split: option.splits if_splits)
    then show ?thesis
      using assms(1) on_process_exit_root_events[OF assms(2) _ p True, of ec sg ts] False
      by simp
  next
    case other: False
    then have "evs = [emit_event (put_process st tid p) (exit_event p tid ec sg ts)]"
      using assms(1) on_process_exit_other_events[of tid st p ec sg ts] False p by simp
    then show ?thesis by simp
  qed
qed

lemma exec_step_views:
  assumes "exec_step st op evs st'" "exec_inv st" "root_thread st" "root_alive (root_pid st) op"
  shows "log_views evs = concat (map marker_views (marker_of op))"
  using assms(1)
proof cases
  case (marker tid m ts)
  then show ?thesis
    using marker_step_views assms(2-4) by simp
next
  case (exec h tid ts)
  then show ?thesis by (simp add: log_views_Nil_iff exec_brackets)
next
  case (created child_tid parent_tid ev flags ts)
  then show ?thesis by (simp add: log_views_Nil_iff created_brackets(1))
next
  case (exited tid ec sg ts)
  then have "brackets evs = []"
    using quiet_exit assms(2,4) by simp
  with exited show ?thesis by (simp add: log_views_Nil_iff)
next
  case (syscall h sc)
  then show ?thesis by (simp add: log_views_Nil_iff syscall_brackets)
qed

lemma exec_trace_views:
  assumes "exec_trace st tr st'" "exec_inv st" "root_thread st"
    and "list_all (root_alive (root_pid st) \<circ> fst) tr"
  shows "log_views (trace_events tr) = concat (map marker_views (markers_of tr))"
    "root_thread st'"
  using assms
proof (induction rule: exec_trace.induct)
  case none
  case 1
  show ?case by (simp add: log_views_def markers_of_def)
  case 2
  then show ?case by simp
next
  case (step st op evs st1 tr st')
  have s: "exec_inv st1" "root_thread st1" "root_pid st1 = root_pid st" if "exec_inv st" "root_thread st"
    using exec_step_inv[OF step.hyps(1)] root_thread_step[OF step.hyps(1)]
      exec_step_root[OF step.hyps(1)] that
    by simp_all
  case 1
  then have "log_views evs = concat (map marker_views (marker_of op))"
    using exec_step_views[OF step.hyps(1)] by simp
  moreover have "log_views (trace_events tr) = concat (map marker_views (markers_of tr))"
    using step.IH(1) s 1 by simp
  ultimately show ?case by (simp add: markers_of_def)
  case 2
  then show ?case
    using step.IH(2) s by simp
qed

section \<open>The rows of the table from the views\<close>

definition row_view :: "command_row \<Rightarrow> int \<times> string \<times> string \<times> string option \<times> int option" where
  "row_view c = (c_id c, c_command c, c_cwd c, c_end_cwd c, c_exit_code c)"

definition view_ends :: "u64 option \<Rightarrow> command_view list \<Rightarrow> command_view list" where
  "view_ends i vs = filter (\<lambda>(t, j, _). t = CommandEnd \<and> j = i) vs"

definition view_row ::
  "command_view list \<Rightarrow> command_view \<Rightarrow> int \<times> string \<times> string \<times> string option \<times> int option" where
  "view_row vs v =
     (case v of (_, i, text0, _, dir) \<Rightarrow>
        let es = view_ends i vs in
        (case i of None \<Rightarrow> 0 | Some j \<Rightarrow> as_i64 j, text0, dir,
         if es = [] then None else Some (case last es of (_, _, _, _, d) \<Rightarrow> d),
         if es = [] then None else Some (case last es of (_, _, _, x, _) \<Rightarrow> x)))"

lemma views_starts:
  "filter (\<lambda>v. fst v = CommandStart) (log_views evs) = map event_view (starts evs)"
  by (induction evs)
    (auto simp: log_views_def starts_def is_command_event_def is_start_def is_end_def event_view_def)

lemma views_ends: "view_ends i (log_views evs) = map event_view (ends_of i evs)"
  by (induction evs)
    (auto simp: log_views_def ends_of_def view_ends_def is_command_event_def is_start_def
      is_end_def event_view_def)

lemma logged_rows:
  "map row_view (logged_commands evs) =
     map (view_row (log_views evs)) (filter (\<lambda>v. fst v = CommandStart) (log_views evs))"
proof -
  have "row_view (ended_row (ends_of (ev_command_id s) evs) (started_row s)) =
      view_row (log_views evs) (event_view s)" for s
  proof -
    let ?es = "ends_of (ev_command_id s) evs"
    have "view_row (log_views evs) (event_view s) =
        (case ev_command_id s of None \<Rightarrow> 0 | Some j \<Rightarrow> as_i64 j, resource s, metadata_value s ''cwd'' [],
         if ?es = [] then None else Some (metadata_value (last ?es) ''cwd'' []),
         if ?es = [] then None else Some (ev_result (last ?es)))"
      by (simp add: view_row_def event_view_def views_ends last_map Let_def)
    then show ?thesis
      by (simp add: row_view_def ended_row_def started_row_def)
  qed
  then show ?thesis
    unfolding views_starts by (simp add: logged_commands_def comp_def)
qed

section \<open>The views of a session\<close>

definition line_views :: "nat \<times> shell_line \<Rightarrow> command_view list" where
  "line_views nl = (case nl of (n, l) \<Rightarrow>
     [(CommandStart, Some (word_of_nat n), line_text l, 0, line_pwd l),
      (CommandEnd, Some (word_of_nat n), [], line_status l, next_pwd l)])"

lemma line_markers_views:
  "concat (map marker_views (line_markers n ls)) = concat (map line_views (enumerate n ls))"
  by (induction ls arbitrary: n)
    (simp_all add: marker_views_def start_marker_def end_marker_def arm_marker_def line_views_def)

lemma session_markers_views:
  "concat (map marker_views (session_markers pwd ls)) = concat (map line_views (enumerate 1 ls))"
  by (simp add: session_markers_def line_markers_views)
    (simp add: marker_views_def arm_marker_def)

lemma word_nat_eq:
  assumes "n < 2 ^ 64" "m < 2 ^ 64"
  shows "(word_of_nat n :: u64) = word_of_nat m \<longleftrightarrow> n = m"
proof
  assume "(word_of_nat n :: u64) = word_of_nat m"
  then have "unat (word_of_nat n :: u64) = unat (word_of_nat m :: u64)"
    by simp
  with assms show "n = m" by (simp add: unat_of_nat)
qed simp

lemma view_ends_lines:
  assumes "n + length ls < 2 ^ 64" "k < 2 ^ 64"
  shows "view_ends (Some (word_of_nat k)) (concat (map line_views (enumerate n ls))) =
    (if n \<le> k \<and> k < n + length ls
     then [(CommandEnd, Some (word_of_nat k), [], line_status (ls ! (k - n)), next_pwd (ls ! (k - n)))]
     else [])"
  using assms(1)
proof (induction ls arbitrary: n)
  case Nil
  then show ?case by (simp add: view_ends_def)
next
  case (Cons l ls)
  have "view_ends (Some (word_of_nat k)) (concat (map line_views (enumerate n (l # ls)))) =
      (if k = n then [(CommandEnd, Some (word_of_nat k), [], line_status l, next_pwd l)] else []) @
      view_ends (Some (word_of_nat k)) (concat (map line_views (enumerate (Suc n) ls)))"
    using Cons.prems assms(2) word_nat_eq[of n k]
    by (auto simp: view_ends_def line_views_def)
  also have "view_ends (Some (word_of_nat k)) (concat (map line_views (enumerate (Suc n) ls))) =
      (if Suc n \<le> k \<and> k < Suc n + length ls
       then [(CommandEnd, Some (word_of_nat k), [], line_status (ls ! (k - Suc n)),
              next_pwd (ls ! (k - Suc n)))] else [])"
    using Cons by simp
  finally show ?case
    by (cases "k = n") (auto simp: nth_Cons')
qed

definition line_row :: "nat \<times> shell_line \<Rightarrow> int \<times> string \<times> string \<times> string option \<times> int option" where
  "line_row nl = (case nl of (n, l) \<Rightarrow>
     (int n, line_text l, line_pwd l, Some (next_pwd l), Some (line_status l)))"

lemma as_i64_nat: "n < 2 ^ 63 \<Longrightarrow> as_i64 (word_of_nat n) = int n"
proof -
  assume n: "n < 2 ^ 63"
  then have "uint (word_of_nat n :: u64) = int n"
    by (simp add: uint_nat unat_of_nat)
  moreover have "int n < 2 ^ 63"
    using n by (metis of_nat_less_iff of_nat_numeral of_nat_power)
  ultimately show ?thesis
    by (simp add: as_i64_small)
qed

lemma session_rows:
  assumes "Suc (length ls) < 2 ^ 63"
  shows "map (view_row (concat (map line_views (enumerate 1 ls))))
      (filter (\<lambda>v. fst v = CommandStart) (concat (map line_views (enumerate 1 ls)))) =
    map line_row (enumerate 1 ls)"
proof -
  let ?vs = "concat (map line_views (enumerate 1 ls))"
  have "filter (\<lambda>v. fst v = CommandStart) (concat (map line_views xs)) =
      map (\<lambda>(n, l). (CommandStart, Some (word_of_nat n), line_text l, 0, line_pwd l)) xs" for xs
    by (induction xs) (auto simp: line_views_def)
  moreover have "view_row ?vs (CommandStart, Some (word_of_nat n), line_text l, 0, line_pwd l) =
      line_row (n, l)" if nl: "(n, l) \<in> set (enumerate 1 ls)" for n l
  proof -
    have n: "1 \<le> n" "n < 1 + length ls" "l = ls ! (n - 1)"
      using nl by (auto simp: in_set_enumerate_eq)
    have "view_ends (Some (word_of_nat n)) ?vs =
        [(CommandEnd, Some (word_of_nat n), [], line_status l, next_pwd l)]"
      using view_ends_lines[of 1 ls n] assms n by simp
    moreover have "as_i64 (word_of_nat n) = int n"
      using assms n by (intro as_i64_nat) simp
    ultimately show ?thesis
      by (simp add: view_row_def line_row_def Let_def)
  qed
  ultimately show ?thesis
    by (auto simp: comp_def)
qed

section \<open>The exit of the shell\<close>

text \<open>The command brackets of a log depend only on its views.\<close>

definition view_bracket :: "command_view \<Rightarrow> bracket" where
  "view_bracket v = (if fst v = CommandStart then Opens (fst (snd v)) else Closes (fst (snd v)))"

lemma brackets_views: "brackets evs = map view_bracket (log_views evs)"
  by (induction evs)
    (auto simp: log_views_def is_command_event_def bracket_of_kinds event_view_def view_bracket_def
      is_start_def is_end_def)

lemma line_brackets_closed:
  "bracket_run None (map view_bracket (concat (map line_views xs))) = Some None"
  by (induction xs) (auto simp: line_views_def view_bracket_def)

lemma session_views:
  assumes "add_initial_process empty_execution root dir None ts = (st0, evs0)"
    and "exec_trace st0 tr st1" "list_all (root_alive root \<circ> fst) tr"
    and "markers_of tr = session_markers pwd ls"
    and "exec_step st1 (Exited root ec sg ts1) evs st2"
    and "exec_trace st2 rest st" "list_all (root_alive root \<circ> fst) rest" "markers_of rest = []"
  shows "log_views (evs0 @ trace_events (tr @ (Exited root ec sg ts1, evs) # rest)) =
    concat (map line_views (enumerate 1 ls))"
proof -
  let ?vs = "concat (map line_views (enumerate 1 ls))"
  have st0: "evs0 = []" "root_pid st0 = root" "exec_inv st0" "root_thread st0"
    using assms(1) exec_inv_add_initial[of root dir None ts]
    by (auto simp: add_initial_process_def Let_def root_thread_def process_for_thread_def)
  have st1: "exec_inv st1" "root_thread st1" "root_pid st1 = root"
    using exec_trace_inv[OF assms(2) st0(3)] exec_trace_views(2)[OF assms(2) st0(3,4)]
      exec_trace_root[OF assms(2)] assms(3) st0(2) by simp_all
  have st2: "exec_inv st2" "root_thread st2" "root_pid st2 = root"
    using exec_step_inv[OF assms(5) st1(1)] root_thread_step[OF assms(5) st1(2)]
      exec_step_root[OF assms(5)] st1(3) by simp_all
  have tr: "log_views (trace_events tr) = ?vs"
    using exec_trace_views(1)[OF assms(2) st0(3,4)] assms(3,4) session_markers_views[of pwd ls] st0(2)
    by simp
  have "bracket_run None (brackets (trace_events tr)) = Some (open_of (phase_of st1))"
    using recording_bracket_run[OF assms(1,2)] st0(1) by simp
  then have "open_of (phase_of st1) = None"
    by (simp add: brackets_views tr line_brackets_closed)
  then have "log_views evs = []"
    using assms(5) quiet_exit[OF _ st1(1)] by (auto elim: exec_step_ExitedE simp: log_views_Nil_iff)
  moreover have "log_views (trace_events rest) = []"
    using exec_trace_views(1)[OF assms(6) st2(1,2)] st2(3) assms(7,8) by simp
  ultimately show ?thesis
    using tr st0(1) by simp
qed

text \<open>
  The markers that the hooks' bytes decode to, handled among any other callbacks, then the exit
  of the shell, then whatever its background processes still do.
\<close>

lemma recorded_session_rows:
  assumes "add_initial_process empty_execution root dir None ts = (st0, evs0)"
    and "exec_trace st0 tr st1" "list_all (root_alive root \<circ> fst) tr"
    and "consume empty_protocol (snd (hook_run (session_calls pwd ls) initial_hooks)) =
      Inr (p, markers_of tr)"
    and "list_all line_ok ls" "field_ok pwd" "Suc (length ls) < 2 ^ 63"
    and "exec_step st1 (Exited root ec sg ts1) evs st2"
    and "exec_trace st2 rest st" "list_all (root_alive root \<circ> fst) rest" "markers_of rest = []"
    and "emit_all emit_writer (evs0 @ trace_events (tr @ (Exited root ec sg ts1, evs) # rest))
      (open_writer v run) = Inr w"
  shows "map row_view (t_commands (w_db w)) = map line_row (enumerate 1 ls)"
proof -
  let ?tr = "tr @ (Exited root ec sg ts1, evs) # rest"
  have "markers_of tr = session_markers pwd ls"
    using consume_session[of ls pwd] assms(4-7) by (simp add: list_all_iff)
  then have "log_views (evs0 @ trace_events ?tr) = concat (map line_views (enumerate 1 ls))"
    using session_views[OF assms(1-3) _ assms(8-11)] by simp
  moreover have "exec_trace st0 ?tr st"
    using assms(8,9) by (intro exec_trace_append[OF assms(2)]) auto
  then have "t_commands (w_db w) = logged_commands (evs0 @ trace_events ?tr)"
    using commands_history[OF assms(12) recording_bracket_run[OF assms(1)]]
    by (simp add: table_ok_def)
  ultimately show ?thesis
    using session_rows[OF assms(7)] by (simp add: logged_rows)
qed

lemma exec_trace_split:
  "exec_trace st (tr @ tr') st' \<longleftrightarrow> (\<exists>st1. exec_trace st tr st1 \<and> exec_trace st1 tr' st')"
  by (induction tr arbitrary: st) auto

section \<open>The collector in a session\<close>

text \<open>The kernel's promise: after the status that ends the root, no other status of the root comes.\<close>

fun quiet_after :: "pid_t \<Rightarrow> wakeup list \<Rightarrow> bool" where
  "quiet_after root [] \<longleftrightarrow> True"
| "quiet_after root (w # ws) \<longleftrightarrow>
     (if root \<in> set (reported_exit w) then list_all (\<lambda>v. woken v \<noteq> Some root) ws
      else quiet_after root ws)"

lemma reported_exit_woken: "woken w \<noteq> Some root \<Longrightarrow> root \<notin> set (reported_exit w)"
  by (auto simp: woken_def reported_exit_def split: wait_answer.splits if_splits)

lemma reported_exit_root: "root \<in> set (reported_exit w) \<Longrightarrow> reported_exit w = [root]"
  by (auto simp: reported_exit_def split: wait_answer.splits if_splits)

lemma wait_loop_quiet:
  assumes "wait_loop strerror emit root ws c = Inr l"
    and "list_all (fresh_child (root_pid (execution c))) ws"
    and "list_all (\<lambda>v. woken v \<noteq> Some root) ws"
  shows "\<exists>es. follows emit root [] es c (end_state l) \<and> root \<notin> set es"
  using assms
proof (induction ws arbitrary: c)
  case Nil
  then have "end_state l = c" by (auto split: if_splits)
  then show ?case using follows_same[of c c emit root] by auto
next
  case (Cons w ws)
  show ?case
  proof (cases "live_tids c = {}")
    case True
    with Cons.prems(1) have "end_state l = c" by auto
    then show ?thesis using follows_same[of c c emit root] by auto
  next
    case False
    with Cons.prems(1) obtain f where f: "loop_step strerror emit root w c = Inr f"
        "(case f of
            Next c' \<Rightarrow> wait_loop strerror emit root ws c'
          | Break c' \<Rightarrow> Inr (Finished c')
          | Return r c' \<Rightarrow> Inr (Returned r c')) = Inr l"
      by (auto simp: res_simps)
    have step: "step_follows emit root w c (flow_state f)"
      using loop_step_follows[OF f(1)] Cons.prems(2) by simp
    then have s: "follows emit root [] (reported_exit w) c (flow_state f)"
        "root \<notin> set (reported_exit w)"
      using Cons.prems(3) reported_exit_woken by (auto simp: step_follows_def)
    show ?thesis
    proof (cases f)
      case (Next d)
      then obtain es where "follows emit root [] es d (end_state l)" "root \<notin> set es"
        using Cons.IH[of d] f(2) Cons.prems(2,3) step_follows_root[OF step] by auto
      then have "follows emit root ([] @ []) (reported_exit w @ es) c (end_state l)"
        using s(1) Next by (intro follows_trans[of emit root "[]" "reported_exit w" c d]) simp_all
      with s(2) \<open>root \<notin> set es\<close> show ?thesis by fastforce
    qed (use s f(2) in auto)
  qed
qed

text \<open>A loop that saw the root end: what came before, the exit, and what came after it.\<close>

lemma wait_loop_session:
  assumes "wait_loop strerror emit root ws c = Inr l" "l = Finished d"
    and "list_all (fresh_child (root_pid (execution c))) ws" "quiet_after root ws"
    and "\<not> root_status_seen c" "root_status_seen d"
  shows "\<exists>bs es1 es2 c1 c2. follows emit root bs es1 c c1 \<and> root \<notin> set es1 \<and>
    follows emit root [] [root] c1 c2 \<and> follows emit root [] es2 c2 d \<and> root \<notin> set es2"
  using assms
proof (induction ws arbitrary: c)
  case Nil
  then show ?case by (auto split: if_splits)
next
  case (Cons w ws)
  have live: "live_tids c \<noteq> {}"
    using Cons.prems by (cases "live_tids c = {}") auto
  with Cons.prems(1) obtain f where f: "loop_step strerror emit root w c = Inr f"
      "(case f of
          Next c' \<Rightarrow> wait_loop strerror emit root ws c'
        | Break c' \<Rightarrow> Inr (Finished c')
        | Return r c' \<Rightarrow> Inr (Returned r c')) = Inr l"
    by (auto simp: res_simps)
  have step: "step_follows emit root w c (flow_state f)"
    using loop_step_follows[OF f(1)] Cons.prems(3) by simp
  obtain bs where bs: "follows emit root bs (reported_exit w) c (flow_state f)"
    using step by (auto simp: step_follows_def)
  show ?case
  proof (cases "root \<in> set (reported_exit w)")
    case True
    note ex = reported_exit_root[OF True]
    have "wk_wait w \<noteq> Wait_failed e" for e
      using True by (auto simp: reported_exit_def)
    then obtain c1 where c1: "f = Next c1" "follows emit root [] [root] c c1"
      using f(1) ex
      by (cases "wk_wait w")
        (auto simp: loop_step_def reported_exit_def res_simps split: if_splits
          intro: handle_exit_follows)
    then have "wait_loop strerror emit root ws c1 = Inr l"
      using f(2) by simp
    then obtain es where "follows emit root [] es c1 d" "root \<notin> set es"
      using wait_loop_quiet[of strerror emit root ws c1 l] Cons.prems(2-4) True
        step_follows_root[OF step] c1(1) by auto
    moreover have "follows emit root [] [] c c"
      by (rule follows_same) simp_all
    ultimately show ?thesis
      using c1(2) by fastforce
  next
    case False
    then have unseen: "\<not> root_status_seen (flow_state f)"
      using step Cons.prems(5) by (simp add: step_follows_def)
    obtain c1 where c1: "f = Next c1"
      using f(2) unseen Cons.prems(2,6) by (cases f) auto
    then obtain bs' es1 es2 d1 d2 where r: "follows emit root bs' es1 c1 d1" "root \<notin> set es1"
        "follows emit root [] [root] d1 d2" "follows emit root [] es2 d2 d" "root \<notin> set es2"
      using Cons.IH[of c1] f(2) unseen Cons.prems(2-4,6) False step_follows_root[OF step] by auto
    have "follows emit root (bs @ bs') (reported_exit w @ es1) c d1"
      using bs c1 r(1) by (auto intro: follows_trans)
    with r False show ?thesis by fastforce
  qed
qed

lemma exit_split:
  assumes "exits_of tr = [root]" "markers_of tr = []"
  shows "\<exists>tr1 ec sg ts evs rest. tr = tr1 @ (Exited root ec sg ts, evs) # rest \<and>
    exits_of tr1 = [] \<and> exits_of rest = [] \<and> markers_of tr1 = [] \<and> markers_of rest = []"
  using assms
proof (induction tr)
  case Nil
  then show ?case by simp
next
  case (Cons x tr)
  show ?case
  proof (cases "exit_of (fst x)")
    case Nil
    then obtain tr1 ec sg ts evs rest where "tr = tr1 @ (Exited root ec sg ts, evs) # rest"
        "exits_of tr1 = []" "exits_of rest = []" "markers_of tr1 = []" "markers_of rest = []"
      using Cons by auto
    with Nil Cons.prems(2) show ?thesis
      by (intro exI[of _ "x # tr1"] exI) auto
  next
    case (Cons t ts)
    then obtain ec sg ts' where "fst x = Exited root ec sg ts'" "exits_of tr = []"
      using Cons.prems(1) by (cases "fst x") auto
    with Cons.prems(2) show ?thesis
      by (intro exI[of _ "[]"] exI[of _ ec] exI[of _ sg] exI[of _ ts'] exI[of _ "snd x"]
          exI[of _ tr]) (cases x, simp)
  qed
qed

text \<open>
  What the collector reads in a session from the root's writes to the command channel.
\<close>

definition bytes_read ::
  "(int \<Rightarrow> string) \<Rightarrow> (event \<Rightarrow> 's \<Rightarrow> 's res) \<Rightarrow> collection_request \<Rightarrow> launch \<Rightarrow> wakeup list \<Rightarrow>
   's \<Rightarrow> string" where
  "bytes_read strerror emit request la ws s =
     (case la_fork la of
        Inl e \<Rightarrow> []
      | Inr root \<Rightarrow>
          let cwd = (case la_cwd la of None \<Rightarrow> [] | Some d \<Rightarrow> d);
              st = fst (add_initial_process empty_execution root cwd None (la_now la)) in
          (case wait_loop strerror emit root ws (asked root 0 (start_collector request root st s)) of
             Inl e \<Rightarrow> []
           | Inr l \<Rightarrow> marker_bytes (end_state l)))"

lemma collect_session:
  assumes "collect strerror emit request la ws s = Inr (Collected res s')" "collector_ok res"
    and "la_fork la = Inr root" "root_command request = None"
    and "list_all (fresh_child root) ws" "quiet_after root ws"
  shows "\<exists>dir st0 tr1 st1 ec sg ts evs st2 rest st p.
    add_initial_process empty_execution root dir None (la_now la) = (st0, []) \<and>
    exec_trace st0 tr1 st1 \<and> list_all (root_alive root \<circ> fst) tr1 \<and>
    consume empty_protocol (bytes_read strerror emit request la ws s) = Inr (p, markers_of tr1) \<and>
    exec_step st1 (Exited root ec sg ts) evs st2 \<and>
    exec_trace st2 rest st \<and> list_all (root_alive root \<circ> fst) rest \<and> markers_of rest = [] \<and>
    emit_all emit (trace_events (tr1 @ (Exited root ec sg ts, evs) # rest)) s = Inr s'"
proof -
  define dir where "dir = (case la_cwd la of None \<Rightarrow> [] | Some d \<Rightarrow> d)"
  obtain st0 where init: "add_initial_process empty_execution root dir None (la_now la) = (st0, [])"
      "root_pid st0 = root"
    by (auto simp: add_initial_process_def Let_def)
  define c where "c = asked root 0 (start_collector request root st0 s)"
  have c: "execution c = st0" "protocol c = empty_protocol" "sink c = s" "\<not> root_status_seen c"
    "marker_bytes c = []"
    by (simp_all add: c_def start_collector_def)
  have start: "deliver emit (st0, []) (start_collector request root st0 s) =
      Inr (start_collector request root st0 s)"
    by (simp add: deliver_def start_collector_def)
  have run: "run_tracees strerror emit request la ws root s = Inr (Collected res s')"
    using assms(1-3)
    by (auto simp: collect_def Let_def initial_result_def split: if_splits sum.splits option.splits)
  then obtain l where l: "wait_loop strerror emit root ws c = Inr l"
      "(case l of
          Finished c' \<Rightarrow>
            bind_res (conclude request (la_end la) c') (\<lambda>(res, s'). Inr (Collected res s'))
        | Returned res c' \<Rightarrow> Inr (Collected res (sink c'))
        | Waiting c' \<Rightarrow> Inr Blocked) = Inr (Collected res s')"
    using assms(2)
    by (auto simp: run_tracees_def dir_def[symmetric] assms(4) init start c_def[symmetric] Let_def
        res_simps initial_result_def split: option.splits)
  have fresh: "list_all (fresh_child (root_pid (execution c))) ws"
    using assms(5) init(2) c(1) by simp
  have "result_of [] root c"
    by (simp add: result_of_def c_def start_collector_def initial_result_def)
  then have "l \<noteq> Returned res d" for d
    using wait_loop_result[OF l(1)] fresh assms(2) by (auto simp: list_all_iff)
  then obtain d where d: "l = Finished d" "sink d = s'" "root_status_seen d"
    using l(2) assms(2)
    by (cases l) (auto simp: conclude_def Let_def res_simps split: if_splits)
  obtain bs es1 es2 c1 c2 where f: "follows emit root bs es1 c c1" "root \<notin> set es1"
      "follows emit root [] [root] c1 c2" "follows emit root [] es2 c2 d" "root \<notin> set es2"
    using wait_loop_session[OF l(1) d(1) fresh assms(6) c(4) d(3)] by blast
  obtain tr where tr: "runs emit tr c c1" "consume (protocol c) bs = Inr (protocol c1, markers_of tr)"
      "list_all (marker_from root \<circ> fst) tr" "exits_of tr = es1" "marker_bytes c1 = marker_bytes c @ bs"
    using f(1) by (auto simp: follows_def)
  obtain tx where tx: "runs emit tx c1 c2" "markers_of tx = []"
      "list_all (marker_from root \<circ> fst) tx" "exits_of tx = [root]" "marker_bytes c2 = marker_bytes c1"
    using f(3) by (auto simp: follows_def)
  obtain tr' where tr': "runs emit tr' c2 d" "markers_of tr' = []"
      "list_all (marker_from root \<circ> fst) tr'" "exits_of tr' = es2" "marker_bytes d = marker_bytes c2"
    using f(4) by (auto simp: follows_def)
  obtain ta ec sg ts evs tb where split: "tx = ta @ (Exited root ec sg ts, evs) # tb"
      "exits_of ta = []" "exits_of tb = []" "markers_of ta = []" "markers_of tb = []"
    using exit_split[OF tx(4,2)] by blast
  have all: "runs emit (tr @ tx @ tr') c d"
    using tr(1) tx(1) tr'(1) by (intro runs_append)
  then have "exec_trace st0 ((tr @ ta) @ (Exited root ec sg ts, evs) # (tb @ tr')) (execution d)"
    by (simp add: runs_def c(1) split(1))
  then obtain st1 st2 where st: "exec_trace st0 (tr @ ta) st1"
      "exec_step st1 (Exited root ec sg ts) evs st2" "exec_trace st2 (tb @ tr') (execution d)"
    by (auto simp: exec_trace_split)
  have "bytes_read strerror emit request la ws s = bs"
    using l(1) d(1) tr(5) tx(5) tr'(5) c(5)
    by (simp add: bytes_read_def assms(3) dir_def[symmetric] init c_def Let_def)
  then have "consume empty_protocol (bytes_read strerror emit request la ws s) =
      Inr (protocol c1, markers_of (tr @ ta))"
    using tr(2) c(2) split(4) by simp
  moreover have "list_all (root_alive root \<circ> fst) (tr @ ta)" "list_all (root_alive root \<circ> fst) (tb @ tr')"
    using tr(3,4) tx(3) tr'(3,4) f(2,5) split by (simp_all only: root_alive_iff) simp_all
  moreover have "emit_all emit (trace_events ((tr @ ta) @ (Exited root ec sg ts, evs) # (tb @ tr'))) s = Inr s'"
    using all d(2) c(3) by (simp add: runs_def split(1))
  ultimately show ?thesis
    using init(1) st split(5) tr'(2)
    by (intro exI[of _ dir] exI[of _ st0] exI[of _ "tr @ ta"] exI[of _ st1] exI[of _ ec] exI[of _ sg]
        exI[of _ ts] exI[of _ evs] exI[of _ st2] exI[of _ "tb @ tr'"] exI[of _ "execution d"]
        exI[of _ "protocol c1"]) simp
qed

section \<open>Properties\<close>


text \<open>
  One line. The shell's memory holds what the hooks write; it sends that in two writes, the
  first of which ends inside a record, and starts a process that outlives it.
\<close>

definition typed_bytes :: string where
  "typed_bytes = snd (hook_run (session_calls ''/w'' [sample_line]) initial_hooks)"

definition typed_host :: host where
  "typed_host = plain_host\<lparr>read_bytes_at := (\<lambda>_ addr n. Some (take n (drop (unat addr) typed_bytes)))\<rparr>"

definition typed_wakeup :: "wait_answer \<Rightarrow> user_regs \<Rightarrow> wakeup" where
  "typed_wakeup a regs = \<lparr>wk_wait = a, wk_now = 5, wk_options = None, wk_regs = Inr regs,
     wk_message = Inr 101, wk_resume = None, wk_host = typed_host\<rparr>"

definition write_regs :: "u64 \<Rightarrow> u64 \<Rightarrow> user_regs" where
  "write_regs addr r = \<lparr>orig_rax = 1, rdi = 10, rsi = addr, rdx = r, r10 = 0, r8 = 0, r9 = 0, rax = r\<rparr>"

definition typed_wakeups :: "wakeup list" where
  "typed_wakeups =
     [typed_wakeup (Wait_status 100 0x857F) (write_regs 0 13),
      typed_wakeup (Wait_status 100 0x857F) (write_regs 0 13),
      typed_wakeup (Wait_status 100 0x0001057F) (write_regs 0 0),
      typed_wakeup (Wait_status 100 0x857F) (write_regs 13 37),
      typed_wakeup (Wait_status 101 0x0004057F) (write_regs 0 0),
      typed_wakeup (Wait_status 100 0x857F) (write_regs 13 37),
      typed_wakeup (Wait_status 100 0x0200) (write_regs 0 0),
      typed_wakeup (Wait_status 101 0x0000) (write_regs 0 0)]"

definition typed_request :: collection_request where
  "typed_request = \<lparr>command = [''bash''], environment = [], root_command = None,
     command_channel_fd = Some 10\<rparr>"

definition typed_collected :: "capsule_writer collect_end res" where
  "typed_collected = collect (\<lambda>_. []) emit_writer typed_request sample_launch typed_wakeups
     (open_writer ''1'' sample_run)"

definition typed_ends :: bool where
  "typed_ends = (case typed_collected of Inr (Collected res w) \<Rightarrow> collector_ok res | _ \<Rightarrow> False)"

lemma typed_collects:
  "typed_ends"
  "bytes_read (\<lambda>_. []) emit_writer typed_request sample_launch typed_wakeups
     (open_writer ''1'' sample_run) = typed_bytes"
  by code_simp+

lemma typed_kernel:
  "list_all (fresh_child 100) typed_wakeups" "quiet_after 100 typed_wakeups"
proof -
  have "to_int32 (uint (101 :: u64)) = 101"
    by code_simp
  then show "list_all (fresh_child 100) typed_wakeups"
    by (simp add: typed_wakeups_def typed_wakeup_def fresh_child_def)
  show "quiet_after 100 typed_wakeups"
    by code_simp
qed

lemma sample_line_ok: "line_ok sample_line" "field_ok ''/w''"
  by (simp_all add: line_ok_def sample_line_def history_output_def field_ok_def
      kMaximumFieldBytes_def nul_def file_separator_def newline_def)


end
