(* ===== verification/Capsule_Paths.thy ===== *)
theory Capsule_Paths
  imports Capsule_Store Path_Model
begin

text \<open>
  Where a capsule is written (\<open>default_capsule_path\<close>, \<open>temporary_capsule_path\<close> and
  \<open>publish_capsule\<close> of \<open>src/sqlite_store.cpp\<close>). What the file system answers is an argument:
  whether a path exists (or the error), the temporary directory, the time stamp. The two
  searches for a free name are loops that may not end; they are partial functions, and the
  theorems say when they return.
\<close>

section \<open>Free names\<close>

definition default_name :: "string \<Rightarrow> nat \<Rightarrow> string" where
  "default_name base n =
     (if n = 0 then base @ ''.wrun'' else base @ ''-'' @ show_nat n @ ''.wrun'')"

partial_function (option) search_default ::
  "(string \<Rightarrow> bool res) \<Rightarrow> string \<Rightarrow> u32 \<Rightarrow> string \<Rightarrow> string res option" where
  "search_default exists_file base suffix candidate =
     (case exists_file candidate of
        Inl e \<Rightarrow> Some (Inl e)
      | Inr found \<Rightarrow>
          if found then
            search_default exists_file base (suffix + 1)
              (base @ ''-'' @ show_nat (unat suffix) @ ''.wrun'')
          else Some (Inr candidate))"

definition default_capsule_path :: "string \<Rightarrow> (string \<Rightarrow> bool res) \<Rightarrow> string res option" where
  "default_capsule_path stamp exists_file =
     (let base = ''run-'' @ stamp in
      search_default exists_file base 1 (base @ ''.wrun''))"

definition temporary_name :: "string \<Rightarrow> u32 \<Rightarrow> string" where
  "temporary_name base suffix =
     base @ (if suffix = 0 then [] else CHR ''-'' # show_nat (unat suffix)) @ ''.tmp''"

text \<open>\<open>exists(candidate, error)\<close>: an error message, or the answer.\<close>

partial_function (option) search_temporary ::
  "(string \<Rightarrow> string + bool) \<Rightarrow> string \<Rightarrow> string \<Rightarrow> u32 \<Rightarrow> string res option" where
  "search_temporary exists_file directory base suffix =
     (let candidate = path_append directory (temporary_name base suffix) in
      case exists_file candidate of
        Inl message \<Rightarrow>
          Some (Inl (System_error (''inspect temporary capsule path: '' @ message)))
      | Inr found \<Rightarrow>
          if found then search_temporary exists_file directory base (suffix + 1)
          else Some (Inr candidate))"

definition temporary_capsule_path ::
  "string + string \<Rightarrow> int \<Rightarrow> (string \<Rightarrow> string + bool) \<Rightarrow> string \<Rightarrow> string res option" where
  "temporary_capsule_path directory pid exists_file run =
     (case directory of
        Inl message \<Rightarrow> Some (Inl (System_error (''locate temporary directory: '' @ message)))
      | Inr dir \<Rightarrow>
          search_temporary exists_file dir (''.whyrun-'' @ run @ ''-'' @ show_int pid) 0)"

section \<open>Publishing\<close>

text \<open>
  The capsules that the file system holds. \<open>copy_file\<close> with \<open>copy_options::none\<close> fails if the
  target exists; \<open>copy_error\<close> is any other failure of the copy. Removing the temporary file
  afterwards ignores errors.
\<close>

type_synonym file_system = "string \<rightharpoonup> capsule"

definition publish_capsule ::
  "string option \<Rightarrow> string \<Rightarrow> string \<Rightarrow> file_system \<Rightarrow> file_system res" where
  "publish_capsule copy_error temporary_path final_path fs =
     (let failure = (\<lambda>message.
            Inl (System_error (''publish capsule '' @ final_path @ '': '' @ message))) in
      case fs temporary_path of
        None \<Rightarrow> failure ''No such file or directory''
      | Some c \<Rightarrow>
          if fs final_path \<noteq> None then failure ''File exists''
          else
            (case copy_error of
               Some message \<Rightarrow> failure message
             | None \<Rightarrow> Inr ((fs(final_path \<mapsto> c))(temporary_path := None))))"

section \<open>The searches return the first free name\<close>

lemma search_default_finds:
  assumes "\<forall>j. k \<le> j \<and> j < m \<longrightarrow> exists_file (default_name base j) = Inr True"
    and "exists_file (default_name base m) = Inr False" "k \<le> m" "m < 2 ^ 32"
  shows "search_default exists_file base (word_of_nat (Suc k)) (default_name base k) =
    Some (Inr (default_name base m))"
  using assms(3,1)
proof (induction "m - k" arbitrary: k)
  case 0
  then have "k = m" by simp
  then show ?case
    using assms(2) by (subst search_default.simps) simp
next
  case (Suc d)
  then have lt: "k < m" by simp
  have found: "exists_file (default_name base k) = Inr True"
    using Suc.prems lt by simp
  have "unat (word_of_nat (Suc k) :: u32) = Suc k"
    using lt assms(4) by (simp add: unat_of_nat del: of_nat_Suc)
  then have next_name: "base @ ''-'' @ show_nat (unat (word_of_nat (Suc k) :: u32)) @ ''.wrun'' =
      default_name base (Suc k)"
    by (simp add: default_name_def del: of_nat_Suc)
  have "search_default exists_file base (word_of_nat (Suc k)) (default_name base k) =
      search_default exists_file base (word_of_nat (Suc k) + 1) (default_name base (Suc k))"
    by (subst search_default.simps) (simp only: found next_name sum.case if_True)
  also have "(word_of_nat (Suc k) + 1 :: u32) = word_of_nat (Suc (Suc k))"
    by simp
  also have "search_default exists_file base (word_of_nat (Suc (Suc k)))
      (default_name base (Suc k)) = Some (Inr (default_name base m))"
    using Suc.hyps(1)[of "Suc k"] Suc.hyps(2) Suc.prems lt by (simp del: of_nat_Suc)
  finally show ?case .
qed

lemma search_temporary_finds:
  assumes "\<forall>j < m. exists_file (path_append dir (temporary_name base (word_of_nat j))) = Inr True"
    and "exists_file (path_append dir (temporary_name base (word_of_nat m))) = Inr False"
    and "k \<le> m"
  shows "search_temporary exists_file dir base (word_of_nat k) =
    Some (Inr (path_append dir (temporary_name base (word_of_nat m))))"
  using assms(3)
proof (induction "m - k" arbitrary: k)
  case 0
  then have "k = m" by simp
  then show ?case
    using assms(2) by (subst search_temporary.simps) simp
next
  case (Suc d)
  then have "k < m" by simp
  then have found: "exists_file (path_append dir (temporary_name base (word_of_nat k))) = Inr True"
    using assms(1) by simp
  have "search_temporary exists_file dir base (word_of_nat k) =
      search_temporary exists_file dir base (word_of_nat k + 1)"
    by (subst search_temporary.simps) (simp only: Let_def found sum.case if_True)
  also have "(word_of_nat k + 1 :: u32) = word_of_nat (Suc k)"
    by simp
  also have "search_temporary exists_file dir base (word_of_nat (Suc k)) =
      Some (Inr (path_append dir (temporary_name base (word_of_nat m))))"
    using Suc.hyps(1)[of "Suc k"] Suc.hyps(2) \<open>k < m\<close> by (simp del: of_nat_Suc)
  finally show ?case .
qed

section \<open>Properties\<close>

text \<open>
  C34. If any of the first 2^32 names of this second is free (and the file system can
  answer), the search for the capsule's name returns, and with the first free one: the plain
  name, or the one with the smallest number, never an existing file.
\<close>

theorem default_path_is_free:
  assumes "\<And>p. exists_file p = Inr (taken p)" "n < 2 ^ 32"
    and "\<not> taken (default_name (''run-'' @ stamp) n)"
  shows "\<exists>m \<le> n. default_capsule_path stamp exists_file =
      Some (Inr (default_name (''run-'' @ stamp) m)) \<and>
    \<not> taken (default_name (''run-'' @ stamp) m) \<and>
    (\<forall>j < m. taken (default_name (''run-'' @ stamp) j))"
proof -
  let ?base = "''run-'' @ stamp"
  define m where "m = (LEAST m. \<not> taken (default_name ?base m))"
  have m: "\<not> taken (default_name ?base m)" "m \<le> n" "\<forall>j < m. taken (default_name ?base j)"
    using assms(3) LeastI[of "\<lambda>m. \<not> taken (default_name ?base m)" n]
      Least_le[of "\<lambda>m. \<not> taken (default_name ?base m)" n] not_less_Least
    unfolding m_def by blast+
  have "search_default exists_file ?base (word_of_nat (Suc 0)) (default_name ?base 0) =
      Some (Inr (default_name ?base m))"
    using m assms(1,2) by (intro search_default_finds) auto
  then have "default_capsule_path stamp exists_file = Some (Inr (default_name ?base m))"
    by (simp add: default_capsule_path_def default_name_def Let_def)
  with m show ?thesis by blast
qed

theorem default_path_is_free_witness:
  "default_capsule_path ''x'' (\<lambda>p. Inr (p = ''run-x.wrun'')) = Some (Inr ''run-x-1.wrun'')"
proof -
  have n: "default_name ''run-x'' 0 = ''run-x.wrun''" "default_name ''run-x'' 1 = ''run-x-1.wrun''"
    by (code_simp, code_simp)
  have "\<not> default_name (''run-'' @ ''x'') 1 = ''run-x.wrun''"
    using n by simp
  from default_path_is_free[where taken = "\<lambda>p. p = ''run-x.wrun''", OF refl _ this] obtain m where "m \<le> 1"
      "default_capsule_path ''x'' (\<lambda>p. Inr (p = ''run-x.wrun'')) =
        Some (Inr (default_name ''run-x'' m))"
      "\<not> default_name ''run-x'' m = ''run-x.wrun''"
    by auto
  moreover have "m = 0 \<or> m = 1" if "m \<le> 1" for m :: nat
    using that by auto
  ultimately show ?thesis
    using n by fastforce
qed

end
