(* ===== verification/Ordered_Map.thy ===== *)
theory Ordered_Map
  imports Main "HOL-Library.List_Lexorder" "HOL-Library.Char_ord"
begin

text \<open>
  \<open>std::map\<close> and \<open>std::set\<close> as the reports use them: an association list sorted by its keys
  with \<open>m[k] = v\<close>, and a sorted list with \<open>insert\<close>. A map is determined by its lookups, so
  the order of the assignments to different keys does not matter; the same uniqueness holds
  for query results that are ordered by a key.
\<close>

section \<open>Sorted lists are determined by their content\<close>

lemma sorted_keys_unique:
  fixes xs ys :: "('k :: linorder \<times> 'v) list"
  assumes "sorted (map fst xs)" "distinct (map fst xs)" "sorted (map fst ys)"
    "distinct (map fst ys)" "set xs = set ys"
  shows "xs = ys"
proof (rule map_sorted_distinct_set_unique)
  show "inj_on fst (set xs \<union> set ys)"
    using assms(2,5) by (simp add: distinct_map)
qed (use assms in auto)

lemma sorted_keys_map_of:
  fixes xs ys :: "('k :: linorder \<times> 'v) list"
  assumes "sorted (map fst xs)" "distinct (map fst xs)" "sorted (map fst ys)"
    "distinct (map fst ys)" "map_of xs = map_of ys"
  shows "xs = ys"
  using assms(1-4) by (rule sorted_keys_unique) (metis assms(2,4,5) map_of_inject_set)

section \<open>std::map\<close>

fun map_put :: "'k :: linorder \<Rightarrow> 'v \<Rightarrow> ('k \<times> 'v) list \<Rightarrow> ('k \<times> 'v) list" where
  "map_put k v [] = [(k, v)]"
| "map_put k v ((j, u) # m) =
     (if k = j then (k, v) # m else if k < j then (k, v) # (j, u) # m
      else (j, u) # map_put k v m)"

definition map_ok :: "('k :: linorder \<times> 'v) list \<Rightarrow> bool" where
  "map_ok m \<longleftrightarrow> sorted (map fst m) \<and> distinct (map fst m)"

lemma map_ok_Nil [simp]: "map_ok []"
  by (simp add: map_ok_def)

lemma map_put_keys: "fst ` set (map_put k v m) = insert k (fst ` set m)"
  by (induction k v m rule: map_put.induct) auto

lemma map_ok_put [simp]: "map_ok m \<Longrightarrow> map_ok (map_put k v m)"
  unfolding map_ok_def
proof (induction k v m rule: map_put.induct)
  case (1 k v)
  then show ?case by simp
next
  case (2 k v j u m)
  then show ?case
    using map_put_keys[of k v m] by (auto simp: image_iff)
qed

lemma map_of_put [simp]: "map_ok m \<Longrightarrow> map_of (map_put k v m) = (map_of m)(k \<mapsto> v)"
proof (induction k v m rule: map_put.induct)
  case (1 k v)
  then show ?case by simp
next
  case (2 k v j u m)
  then have "map_ok m" "j \<notin> fst ` set m"
    by (auto simp: map_ok_def)
  with 2 show ?case by (auto simp: map_ok_def)
qed

lemma map_ok_unique: "map_ok m \<Longrightarrow> map_ok n \<Longrightarrow> map_of m = map_of n \<Longrightarrow> m = n"
  unfolding map_ok_def using sorted_keys_map_of by blast

text \<open>Filling a map from rows.\<close>

definition map_fill ::
  "('r \<Rightarrow> bool) \<Rightarrow> ('r \<Rightarrow> 'k :: linorder) \<Rightarrow> ('r \<Rightarrow> 'v) \<Rightarrow> 'r list \<Rightarrow> ('k \<times> 'v) list" where
  "map_fill P key val rs = fold (\<lambda>r m. if P r then map_put (key r) (val r) m else m) rs []"

lemma map_fill_from:
  assumes "map_ok m"
  shows "map_ok (fold (\<lambda>r m. if P r then map_put (key r) (val r) m else m) rs m) \<and>
    (distinct (map key rs) \<longrightarrow>
      map_of (fold (\<lambda>r m. if P r then map_put (key r) (val r) m else m) rs m) =
      (\<lambda>k. case find (\<lambda>r. key r = k) rs of
         None \<Rightarrow> map_of m k | Some r \<Rightarrow> if P r then Some (val r) else map_of m k))"
  using assms
proof (induction rs arbitrary: m)
  case Nil
  then show ?case by simp
next
  case (Cons r rs)
  have none: "find (\<lambda>r'. key r' = key r) rs = None" if "distinct (map key (r # rs))"
    using that by (auto simp: find_None_iff image_iff)
  show ?case
    using Cons.IH[of "if P r then map_put (key r) (val r) m else m"] Cons.prems none
    by (auto simp: fun_eq_iff split: option.splits)
qed

lemma map_ok_fill [simp]: "map_ok (map_fill P key val rs)"
  using map_fill_from[of "[]" P key val rs] by (simp add: map_fill_def)

lemma map_of_fill:
  "distinct (map key rs) \<Longrightarrow> map_of (map_fill P key val rs) k =
     (case find (\<lambda>r. key r = k) rs of
        None \<Rightarrow> None | Some r \<Rightarrow> if P r then Some (val r) else None)"
  using map_fill_from[of "[]" P key val rs] by (simp add: map_fill_def split: option.split)

section \<open>std::set\<close>

definition set_fill :: "'k :: linorder list \<Rightarrow> 'k list" where
  "set_fill xs = fold insort_insert xs []"

lemma set_fill_from:
  "sorted s \<Longrightarrow> distinct s \<Longrightarrow>
     set (fold insort_insert xs s) = set s \<union> set xs \<and> sorted (fold insort_insert xs s) \<and>
     distinct (fold insort_insert xs s)"
  by (induction xs arbitrary: s)
    (simp_all add: set_insort_insert sorted_insort_insert distinct_insort_insert)

lemma set_set_fill [simp]: "set (set_fill xs) = set xs"
  using set_fill_from[of "[]" xs] by (simp add: set_fill_def)

lemma set_fill_ok [simp]: "sorted (set_fill xs)" "distinct (set_fill xs)"
  using set_fill_from[of "[]" xs] by (simp_all add: set_fill_def)

lemma set_fill_unique: "set xs = set ys \<Longrightarrow> set_fill xs = set_fill ys"
  using sorted_distinct_set_unique set_fill_ok set_set_fill by metis

end
