(* ===== verification/Show_Report.thy ===== *)
theory Show_Report
  imports Capsule_Store Marker_Protocol Ordered_Map
begin

text \<open>
  Reading a capsule back: \<open>validate_schema\<close> (\<open>src/capsule_reader.hpp\<close>) and the report of
  \<open>whyrun show\<close> (\<open>src/show.cpp\<close>) as the text it prints. A SELECT is a function on the rows:
  WHERE is a filter, GROUP BY sorts and removes duplicates of the keys, ORDER BY is a stable
  sort. A capsule that cannot be opened is an \<open>Inl\<close>; the calls behind the queries, and what
  becomes of the report when one of them fails, are in \<open>Show_Reading\<close>.
\<close>

section \<open>Queries\<close>

type_synonym command_filter = "int option"

definition in_command :: "command_filter \<Rightarrow> event_row \<Rightarrow> bool" where
  "in_command f r = (case f of None \<Rightarrow> True | Some i \<Rightarrow> er_command_id r = Some i)"

definition events_where :: "event_type \<Rightarrow> command_filter \<Rightarrow> capsule \<Rightarrow> event_row list" where
  "events_where t f db =
     filter (\<lambda>r. er_type r = event_type_name t \<and> in_command f r) (t_events db)"

definition group_by :: "('r \<Rightarrow> 'k :: linorder) \<Rightarrow> 'r list \<Rightarrow> ('k \<times> 'r list) list" where
  "group_by key rs = map (\<lambda>k. (k, filter (\<lambda>r. key r = k) rs)) (sort (remdups (map key rs)))"

text \<open>\<open>SUM(CASE WHEN P THEN 1 ELSE 0 END)\<close>\<close>

definition count_where :: "('r \<Rightarrow> bool) \<Rightarrow> 'r list \<Rightarrow> int" where
  "count_where P rs = int (length (filter P rs))"

text \<open>\<open>ReadStatement::text\<close> and \<open>integer\<close>: a NULL is an empty text, and zero.\<close>

definition column_text :: "string \<Rightarrow> string" where
  "column_text v = c_str v"

definition column_int :: "int option \<Rightarrow> int" where
  "column_int v = (case v of None \<Rightarrow> 0 | Some i \<Rightarrow> i)"

definition validate_schema :: "capsule \<Rightarrow> nat res" where
  "validate_schema db =
     (case map_of (t_metadata db) ''schema_version'' of
        None \<Rightarrow> Inl (Runtime_error ''not a WhyRun capsule: schema_version is missing'')
      | Some v \<Rightarrow>
          let version = column_text v in
          if version \<noteq> ''1'' \<and> version \<noteq> ''2'' \<and> version \<noteq> ''3'' then
            Inl (Runtime_error (''unsupported WhyRun capsule schema version '' @ version))
          else Inr (if version = ''1'' then 1 else if version = ''2'' then 2 else 3))"

section \<open>Pieces of text\<close>

definition errno_name :: "int \<Rightarrow> string" where
  "errno_name e =
     (if e = 13 then ''EACCES''
      else if e = 98 then ''EADDRINUSE''
      else if e = 99 then ''EADDRNOTAVAIL''
      else if e = 111 then ''ECONNREFUSED''
      else if e = 104 then ''ECONNRESET''
      else if e = 17 then ''EEXIST''
      else if e = 115 then ''EINPROGRESS''
      else if e = 22 then ''EINVAL''
      else if e = 21 then ''EISDIR''
      else if e = 24 then ''EMFILE''
      else if e = 101 then ''ENETUNREACH''
      else if e = 2 then ''ENOENT''
      else if e = 20 then ''ENOTDIR''
      else if e = 1 then ''EPERM''
      else if e = 32 then ''EPIPE''
      else if e = 110 then ''ETIMEDOUT''
      else ''ERRNO_'' @ show_int e)"

definition print_command_text :: "string \<Rightarrow> string \<Rightarrow> string" where
  "print_command_text text indent =
     concat (map (\<lambda>c. if c = newline then newline # indent else [c]) text)"

definition lines_or_none :: "string \<Rightarrow> string list \<Rightarrow> string" where
  "lines_or_none indent ls =
     (if ls = [] then indent @ ''none'' @ [newline] else concat ls) @ [newline]"

definition erase_prefix :: "string \<Rightarrow> string" where
  "erase_prefix operation =
     (if ends_with operation ''_connect'' then ''connect''
      else if CHR ''_'' \<in> set operation then tl (dropWhile (\<lambda>c. c \<noteq> CHR ''_'') operation)
      else operation)"

section \<open>Milliseconds\<close>

text \<open>
  \<open>static_cast<double>(n) / 1'000'000.0\<close> printed with three decimals: IEEE double arithmetic
  with a 53-bit significand, rounding to nearest, ties to even; then the exact binary value
  is rounded to three decimals. A double is a significand and a power of two; the numbers
  here are far from overflow and from subnormals.
\<close>

definition round_half_even :: "int \<Rightarrow> int \<Rightarrow> int" where
  "round_half_even a b =
     (let q = a div b; r = a mod b in
      if 2 * r < b then q else if b < 2 * r then q + 1 else if even q then q else q + 1)"

fun bit_length :: "nat \<Rightarrow> nat" where
  "bit_length n = (if n = 0 then 0 else Suc (bit_length (n div 2)))"

declare bit_length.simps [simp del]

text \<open>The double nearest to \<open>a / b\<close> for positive \<open>a\<close>, \<open>b\<close>: significand and exponent.\<close>

definition nearest_double :: "nat \<Rightarrow> nat \<Rightarrow> int \<times> int" where
  "nearest_double a b =
     (let scaled = (\<lambda>e :: int. if e < 0 then (int a * 2 ^ nat (- e), int b)
                               else (int a, int b * 2 ^ nat e));
          e0 = int (bit_length a) - int (bit_length b) - 52;
          (x, y) = scaled e0;
          e = (if x < 2 ^ 52 * y then e0 - 1 else e0);
          (x', y') = scaled e in
      (round_half_even x' y', e))"

definition double_times :: "int \<times> int \<Rightarrow> nat \<Rightarrow> int \<times> int" where
  "double_times d k = (case d of (m, e) \<Rightarrow>
     if e < 0 then (m * int k, 2 ^ nat (- e)) else (m * int k * 2 ^ nat e, 1))"

definition thousandths :: "nat \<Rightarrow> int" where
  "thousandths n =
     (if n = 0 then 0
      else
        let (m, e) = nearest_double n 1;
            (x, y) = (if e < 0 then (m, 1000000 * 2 ^ nat (- e)) else (m * 2 ^ nat e, 1000000));
            (u, v) = double_times (nearest_double (nat x) (nat y)) 1000 in
        round_half_even u v)"

definition show_milliseconds :: "int \<Rightarrow> string" where
  "show_milliseconds n =
     (let t = nat (thousandths (nat \<bar>n\<bar>)) in
      (if n < 0 then ''-'' else []) @ show_nat (t div 1000) @ ''.'' @
      pad_zero 3 (show_nat (t mod 1000)))"

section \<open>The report\<close>

definition file_rows :: "capsule \<Rightarrow> command_filter \<Rightarrow> bool \<Rightarrow> (string \<times> int \<times> int) list" where
  "file_rows db f rd =
     (case f of
        Some _ \<Rightarrow>
          map (\<lambda>(k, rs). (k, int (length rs), sum_list (map (\<lambda>r. max 0 (er_result r)) rs)))
            (group_by er_resource (events_where (if rd then FileRead else FileWrite) f db))
      | None \<Rightarrow>
          if rd then
            map (\<lambda>r. (f_path r, read_calls r, bytes_read r))
              (sort_key f_path (filter (\<lambda>r. 0 < read_calls r) (t_files db)))
          else
            map (\<lambda>r. (f_path r, write_calls r, bytes_written r))
              (sort_key f_path (filter (\<lambda>r. 0 < write_calls r) (t_files db))))"

definition file_line :: "string \<times> int \<times> int \<Rightarrow> string" where
  "file_line row = (case row of (path, calls, bytes) \<Rightarrow>
     ''    '' @ column_text path @ '' ('' @ show_int calls @ '' calls, '' @ show_int bytes @
     '' bytes)'' @ [newline])"

definition show_files :: "capsule \<Rightarrow> command_filter \<Rightarrow> string" where
  "show_files db f =
     ''Files'' @ [newline] @
     ''  READ'' @ [newline] @ lines_or_none ''    '' (map file_line (file_rows db f True)) @
     ''  WRITE'' @ [newline] @ lines_or_none ''    '' (map file_line (file_rows db f False))"

type_synonym network_line = "string \<times> int \<times> int \<times> int \<times> int"

definition latest_errno :: "event_row list \<Rightarrow> int" where
  "latest_errno rs =
     (if rs = [] then 0
      else er_errno (last (sort_key (\<lambda>r. (er_timestamp_ns r, er_id r)) rs)))"

definition connect_counts :: "event_row list \<Rightarrow> int \<times> int \<times> int" where
  "connect_counts rs =
     (int (length rs), count_where (\<lambda>r. er_errno r = 0) rs, count_where (\<lambda>r. 0 < er_errno r) rs)"

definition network_rows :: "capsule \<Rightarrow> command_filter \<Rightarrow> network_line list" where
  "network_rows db f =
     (case f of
        Some _ \<Rightarrow>
          map (\<lambda>(k, rs). case connect_counts rs of (n, ok, bad) \<Rightarrow> (k, n, ok, bad, latest_errno rs))
            (group_by er_resource (events_where NetworkConnect f db))
      | None \<Rightarrow>
          map (\<lambda>r. (n_endpoint r, connect_count r, success_count r, failure_count r, last_errno r))
            (sort_key n_endpoint (t_network db)))"

definition connect_text :: "string \<Rightarrow> int \<Rightarrow> int \<Rightarrow> int \<Rightarrow> string" where
  "connect_text name n ok bad =
     ''  '' @ column_text name @ '' ('' @ show_int n @ '' attempts, '' @ show_int ok @
     '' succeeded, '' @ show_int bad @ '' failed''"

definition network_text :: "network_line \<Rightarrow> string" where
  "network_text row = (case row of (name, n, ok, bad, err) \<Rightarrow>
     connect_text name n ok bad @
     (if err \<noteq> 0 then '', last '' @ errno_name (to_int32 err) else []) @ '')'' @ [newline])"

definition show_network :: "capsule \<Rightarrow> command_filter \<Rightarrow> string" where
  "show_network db f =
     ''Network'' @ [newline] @ lines_or_none ''  '' (map network_text (network_rows db f))"

definition ipc_rows :: "capsule \<Rightarrow> command_filter \<Rightarrow> (string \<times> int \<times> int \<times> int) list" where
  "ipc_rows db f =
     map (\<lambda>(k, rs). (k, connect_counts rs))
       (group_by er_resource (events_where LocalIpcConnect f db))"

definition show_local_ipc :: "capsule \<Rightarrow> command_filter \<Rightarrow> string" where
  "show_local_ipc db f =
     ''Local IPC'' @ [newline] @
     lines_or_none ''  ''
       (map (\<lambda>(k, n, ok, bad). connect_text k n ok bad @ '')'' @ [newline]) (ipc_rows db f))"

definition error_rows :: "capsule \<Rightarrow> command_filter \<Rightarrow> ((string \<times> string \<times> int) \<times> int) list" where
  "error_rows db f =
     map (\<lambda>(k, rs). (k, int (length rs)))
       (group_by (\<lambda>r. (er_resource r, er_type r, er_errno r))
         (filter (\<lambda>r. 0 < er_errno r \<and> in_command f r) (t_events db)))"

definition error_text :: "(string \<times> string \<times> int) \<times> int \<Rightarrow> string" where
  "error_text row = (case row of ((name, t, err), n) \<Rightarrow>
     ''  '' @ column_text name @ [newline] @ ''    '' @ erase_prefix (column_text t) @ '' -> '' @
     errno_name (to_int32 err) @ (if 1 < n then '' ('' @ show_int n @ '' times)'' else []) @
     [newline])"

definition show_errors :: "capsule \<Rightarrow> command_filter \<Rightarrow> string" where
  "show_errors db f =
     ''Errors'' @ [newline] @ lines_or_none ''  '' (map error_text (error_rows db f))"

definition command_text :: "command_row \<Rightarrow> string" where
  "command_text c =
     ''  '' @ show_int (c_sequence c) @ ''  '' @
     print_command_text (column_text (c_command c)) ''     '' @
     (case c_exit_code c of
        None \<Rightarrow> '' (incomplete)''
      | Some code \<Rightarrow> '' (exit '' @ show_int code @ '')'') @ [newline]"

definition show_commands :: "capsule \<Rightarrow> string" where
  "show_commands db =
     ''Commands'' @ [newline] @
     lines_or_none ''  '' (map command_text (sort_key c_sequence (t_commands db)))"

definition show_command_header :: "capsule \<Rightarrow> int \<Rightarrow> (string \<times> int) res" where
  "show_command_header db cid =
     (case find (\<lambda>c. c_id c = cid) (t_commands db) of
        None \<Rightarrow> Inl (Runtime_error (''capsule does not contain command '' @ show_int cid))
      | Some c \<Rightarrow>
          Inr (''Command '' @ show_int (c_sequence c) @ [newline] @ ''  '' @
               print_command_text (column_text (c_command c)) ''  '' @
               [newline, newline] @ ''Cwd'' @ [newline] @ ''  '' @ column_text (c_cwd c) @
               [newline, newline] @ ''Exit'' @ [newline] @ ''  '' @
               (case c_exit_code c of
                  None \<Rightarrow> ''incomplete'' | Some code \<Rightarrow> ''code '' @ show_int code) @
               [newline, newline],
               c_start_ns c))"

definition process_count :: "capsule \<Rightarrow> command_filter \<Rightarrow> nat" where
  "process_count db f =
     (case f of
        None \<Rightarrow> length (t_processes db)
      | Some _ \<Rightarrow> length (remdups (map er_pid (events_where ProcessExec f db))))"

definition show_processes :: "capsule \<Rightarrow> command_filter \<Rightarrow> string" where
  "show_processes db f =
     ''Processes'' @ [newline] @ ''  '' @ show_nat (process_count db f) @ [newline, newline]"

definition timeline_key :: "event_row \<Rightarrow> int \<times> nat \<times> nat" where
  "timeline_key r =
     (er_timestamp_ns r, if er_type r = ''command_start'' then 0 else 1, er_id r)"

definition timeline_text :: "int \<Rightarrow> event_row \<Rightarrow> string" where
  "timeline_text start_ns r =
     ''  +'' @ show_milliseconds (er_timestamp_ns r - start_ns) @ '' ms pid='' @
     show_int (er_pid r) @ '' tid='' @ show_int (er_tid r) @ '' '' @ column_text (er_type r) @
     (if column_text (er_resource r) = [] then [] else '' '' @ column_text (er_resource r)) @
     '' -> '' @ show_int (er_result r) @
     (if er_errno r \<noteq> 0 then '' ('' @ errno_name (to_int32 (er_errno r)) @ '')'' else []) @
     [newline]"

definition timeline_rows :: "capsule \<Rightarrow> command_filter \<Rightarrow> event_row list" where
  "timeline_rows db f = sort_key timeline_key (filter (in_command f) (t_events db))"

definition show_timeline :: "capsule \<Rightarrow> int \<Rightarrow> command_filter \<Rightarrow> string" where
  "show_timeline db start_ns f =
     ''Events'' @ [newline] @ concat (map (timeline_text start_ns) (timeline_rows db f))"

definition show_run_header :: "capsule \<Rightarrow> nat \<Rightarrow> (string \<times> string \<times> int) res" where
  "show_run_header db schema_version =
     (case t_runs db of
        [] \<Rightarrow> Inl (Runtime_error ''capsule does not contain a run'')
      | r # _ \<Rightarrow>
          let mode = (if 2 \<le> schema_version then column_text (run_mode_text r)
                      else ''command'') in
          Inr ((if mode = ''session''
                then ''Session'' @ [newline] @ ''  shell '' @ column_text (run_command r)
                else ''Command'' @ [newline] @ ''  '' @ column_text (run_command r)) @
               [newline, newline] @ ''Exit'' @ [newline] @ ''  code '' @
               show_int (column_int (run_exit_code r)) @
               (if column_int (run_term_signal r) \<noteq> 0
                then '' (signal '' @ show_int (column_int (run_term_signal r)) @ '')'' else []) @
               [newline, newline],
               mode, run_start_ns r))"

record report =
  std_out :: string
  std_err :: string
  exit_status :: int

record show_options =
  so_events :: bool
  so_command_id :: command_filter

definition show_body :: "capsule \<Rightarrow> show_options \<Rightarrow> string \<times> int \<Rightarrow> string" where
  "show_body db options header =
     fst header @ show_processes db (so_command_id options) @
     show_files db (so_command_id options) @ show_network db (so_command_id options) @
     show_local_ipc db (so_command_id options) @ show_errors db (so_command_id options) @
     (if so_events options then show_timeline db (snd header) (so_command_id options) else [])"

definition show_text :: "capsule \<Rightarrow> show_options \<Rightarrow> string res" where
  "show_text db options =
     bind_res (validate_schema db) (\<lambda>schema_version.
       case so_command_id options of
         Some cid \<Rightarrow>
           if schema_version < 3 then
             Inl (Runtime_error ''capsule schema does not contain per-command attribution'')
           else
             bind_res (show_command_header db cid) (\<lambda>header. Inr (show_body db options header))
       | None \<Rightarrow>
           bind_res (show_run_header db schema_version) (\<lambda>(text, mode, start).
             Inr (show_body db options
                    (text @ (if mode = ''session'' then show_commands db else []), start))))"

definition show_capsule :: "capsule res \<Rightarrow> show_options \<Rightarrow> report" where
  "show_capsule opened options =
     (case bind_res opened (\<lambda>db. show_text db options) of
        Inl e \<Rightarrow> \<lparr>std_out = [], std_err = ''whyrun show: '' @ what e @ [newline], exit_status = 1\<rparr>
      | Inr text \<Rightarrow> \<lparr>std_out = text, std_err = [], exit_status = 0\<rparr>)"

section \<open>Rows of a recorded log\<close>

text \<open>A query that looks only at the contents of rows is a query on the events.\<close>

lemma query_events:
  assumes "map row_content rows = map entry_of_event evs"
    and "\<And>r. P r = P (row_content r)" "\<And>r. g r = g (row_content r)"
  shows "map g (filter P rows) =
    map (\<lambda>e. g (entry_of_event e)) (filter (\<lambda>e. P (entry_of_event e)) evs)"
proof -
  have "map g (filter P rows) = map g (filter P (map row_content rows))"
    using assms(2,3) by (simp add: filter_map comp_def)
  also have "\<dots> = map (\<lambda>e. g (entry_of_event e)) (filter (\<lambda>e. P (entry_of_event e)) evs)"
    unfolding assms(1) by (simp add: filter_map comp_def)
  finally show ?thesis .
qed

lemma entry_of_event_simps [simp]:
  "er_type (entry_of_event e) = event_type_name (ev_type e)"
  "er_resource (entry_of_event e) = resource e"
  "er_result (entry_of_event e) = ev_result e"
  "er_errno (entry_of_event e) = errno_value e"
  "er_timestamp_ns (entry_of_event e) = as_i64 (timestamp_ns e)"
  "er_pid (entry_of_event e) = ev_pid e"
  "er_command_id (entry_of_event e) = map_option as_i64 (ev_command_id e)"
  by (simp_all add: entry_of_event_def)

lemma row_content_simps [simp]:
  "er_type (row_content r) = er_type r" "er_resource (row_content r) = er_resource r"
  "er_result (row_content r) = er_result r" "er_errno (row_content r) = er_errno r"
  "er_timestamp_ns (row_content r) = er_timestamp_ns r"
  "er_pid (row_content r) = er_pid r" "er_command_id (row_content r) = er_command_id r"
  by (simp_all add: row_content_def)

lemma group_by_keys: "map fst (group_by key rs) = sort (remdups (map key rs))"
  by (simp add: group_by_def comp_def)

lemma group_by_map:
  "map fst (map (\<lambda>(k, rs). (k, f rs)) (group_by key rows)) = sort (remdups (map key rows))"
  by (simp add: group_by_def comp_def)

lemma group_by_set:
  "set (map (\<lambda>(k, rs). (k, f rs)) (group_by key rows)) =
     (\<lambda>k. (k, f (filter (\<lambda>r. key r = k) rows))) ` (key ` set rows)"
  by (auto simp: group_by_def)

text \<open>The events table of a writer that took some events.\<close>

lemma writer_rows:
  assumes "emit_all emit_writer evs (open_writer v run) = Inr w"
  shows "map row_content (t_events (w_db w)) = map entry_of_event evs"
    and "map er_id (t_events (w_db w)) = [1 ..< Suc (length (t_events (w_db w)))]"
proof -
  have start: "writer_ok (open_writer v run)" "writer_view (open_writer v run) = []"
    by (simp_all add: writer_ok_def writer_view_def open_writer_def empty_tables_def)
  show "map row_content (t_events (w_db w)) = map entry_of_event evs"
    using capsule_sink.emit_all_view[OF assms start(1)] start(2) by (simp add: writer_view_def)
  show "map er_id (t_events (w_db w)) = [1 ..< Suc (length (t_events (w_db w)))]"
    using capsule_sink.emit_all_ok[OF assms start(1)] by (simp add: writer_ok_def)
qed

lemma events_where_key:
  "filter (\<lambda>r. er_resource r = k) (events_where t f db) =
     filter (\<lambda>r. er_resource r = k \<and> er_type r = event_type_name t \<and> in_command f r) (t_events db)"
  by (simp add: events_where_def conj_comms)

text \<open>The rows of one resource, as a query on the events.\<close>

lemma resource_query:
  assumes "map row_content (t_events db) = map entry_of_event evs"
    and "\<And>r. g r = g (row_content r)"
  shows "map g (filter (\<lambda>r. er_resource r = k) (events_where t None db)) =
    map (\<lambda>e. g (entry_of_event e)) (filter (is_file_event t k) evs)"
proof -
  let ?P = "\<lambda>r. er_resource r = k \<and> er_type r = event_type_name t \<and> in_command None r"
  have "map g (filter ?P (t_events db)) =
      map (\<lambda>e. g (entry_of_event e)) (filter (\<lambda>e. ?P (entry_of_event e)) evs)"
    by (rule query_events[OF assms(1)]) (simp add: in_command_def, rule assms(2))
  moreover have "(\<lambda>e. ?P (entry_of_event e)) = is_file_event t k"
    by (auto simp: is_file_event_def in_command_def fun_eq_iff)
  ultimately show ?thesis
    unfolding events_where_key by simp
qed

lemma resource_keys:
  assumes "map row_content (t_events db) = map entry_of_event evs"
  shows "er_resource ` set (events_where t None db) = {k. filter (is_file_event t k) evs \<noteq> []}"
proof -
  have "k \<in> er_resource ` set (events_where t None db) \<longleftrightarrow>
      filter (\<lambda>r. er_resource r = k) (events_where t None db) \<noteq> []" for k
    by (auto simp: filter_empty_conv)
  moreover have "filter (\<lambda>r. er_resource r = k) (events_where t None db) \<noteq> [] \<longleftrightarrow>
      filter (is_file_event t k) evs \<noteq> []" for k
    using resource_query[OF assms, of "\<lambda>_. ()" k t] by (metis map_is_Nil_conv)
  ultimately show ?thesis by auto
qed

lemma resource_query_length:
  assumes "map row_content (t_events db) = map entry_of_event evs"
  shows "length (filter (\<lambda>r. er_resource r = k) (events_where t None db)) =
    length (filter (is_file_event t k) evs)"
  using resource_query[OF assms, of "\<lambda>_. ()" k t] by (metis length_map)

lemma resource_query_results:
  assumes "map row_content (t_events db) = map entry_of_event evs"
  shows "map (\<lambda>r. max 0 (er_result r)) (filter (\<lambda>r. er_resource r = k) (events_where t None db)) =
    map (\<lambda>e. max 0 (ev_result e)) (filter (is_file_event t k) evs)"
  using resource_query[OF assms, of "\<lambda>r. max 0 (er_result r)" k t] by simp

lemma resource_query_errnos:
  assumes "map row_content (t_events db) = map entry_of_event evs"
  shows "map er_errno (filter (\<lambda>r. er_resource r = k) (events_where t None db)) =
    map errno_value (filter (is_file_event t k) evs)"
  using resource_query[OF assms, of er_errno k t] by simp

section \<open>The summary tables and the log give the same report\<close>

text \<open>What the query over the events gives without a command filter.\<close>

definition logged_file_rows :: "capsule \<Rightarrow> bool \<Rightarrow> (string \<times> int \<times> int) list" where
  "logged_file_rows db rd =
     map (\<lambda>(k, rs). (k, int (length rs), sum_list (map (\<lambda>r. max 0 (er_result r)) rs)))
       (group_by er_resource (events_where (if rd then FileRead else FileWrite) None db))"

lemma table_lookup_mem:
  "distinct (map key rs) \<Longrightarrow> table_lookup key k rs = Some r \<longleftrightarrow> r \<in> set rs \<and> key r = k"
  unfolding table_lookup_def
  by (induction rs) (auto simp: image_iff)

lemma sorted_table:
  assumes "distinct (map key rs)"
  shows "sorted (map fst (map (\<lambda>r. (key r, g r)) (sort_key key (filter P rs))))"
    "distinct (map fst (map (\<lambda>r. (key r, g r)) (sort_key key (filter P rs))))"
    "set (map (\<lambda>r. (key r, g r)) (sort_key key (filter P rs))) =
       {(k, x). \<exists>r. table_lookup key k rs = Some r \<and> P r \<and> x = g r}"
proof -
  have d: "distinct (map key (filter P rs))"
    using assms by (rule distinct_map_filter)
  show "sorted (map fst (map (\<lambda>r. (key r, g r)) (sort_key key (filter P rs))))"
    by (simp add: comp_def)
  have "distinct (map key (sort_key key (filter P rs)))"
    using d by (simp add: distinct_map)
  then show "distinct (map fst (map (\<lambda>r. (key r, g r)) (sort_key key (filter P rs))))"
    by (simp add: comp_def)
  show "set (map (\<lambda>r. (key r, g r)) (sort_key key (filter P rs))) =
      {(k, x). \<exists>r. table_lookup key k rs = Some r \<and> P r \<and> x = g r}"
    using table_lookup_mem[OF assms] by fastforce
qed

lemma file_rows_logged:
  assumes "map row_content (t_events db) = map entry_of_event evs" "activity_ok evs db"
  shows "file_rows db None rd = logged_file_rows db rd"
proof -
  let ?t = "if rd then FileRead else FileWrite"
  let ?evs = "\<lambda>k. filter (is_file_event ?t k) evs"
  have dist: "distinct (map f_path (t_files db))"
    and look: "\<And>p. table_lookup f_path p (t_files db) = file_summary p evs"
    using assms(2) by (simp_all add: activity_ok_def)
  define P where "P = (\<lambda>r :: file_row. 0 < (if rd then read_calls r else write_calls r))"
  define g where "g = (\<lambda>r :: file_row. if rd then (read_calls r, bytes_read r)
    else (write_calls r, bytes_written r))"
  have table: "file_rows db None rd =
      map (\<lambda>r. (f_path r, g r)) (sort_key f_path (filter P (t_files db)))"
    by (simp add: file_rows_def P_def g_def)
  define f where "f = (\<lambda>rs :: event_row list. (int (length rs), sum_list (map (\<lambda>r. max 0 (er_result r)) rs)))"
  have logd: "logged_file_rows db rd =
      map (\<lambda>(k, rs). (k, f rs)) (group_by er_resource (events_where ?t None db))"
    by (simp add: logged_file_rows_def f_def)
  note s = sorted_table[OF dist, of g P, folded table]
  have logged: "sorted (map fst (logged_file_rows db rd))"
    "distinct (map fst (logged_file_rows db rd))"
    unfolding logd group_by_map by simp_all
  have key: "(\<exists>r. file_summary k evs = Some r \<and> P r \<and> x = g r) \<longleftrightarrow>
      ?evs k \<noteq> [] \<and>
      x = (int (length (?evs k)), sum_list (map (\<lambda>e. max 0 (ev_result e)) (?evs k)))" for k x
    by (auto simp: file_summary_def P_def g_def Let_def)
  have "set (logged_file_rows db rd) =
      {(k, x). ?evs k \<noteq> [] \<and>
        x = (int (length (?evs k)), sum_list (map (\<lambda>e. max 0 (ev_result e)) (?evs k)))}"
    unfolding logd group_by_set resource_keys[OF assms(1)]
    by (auto simp: f_def resource_query_length[OF assms(1)] resource_query_results[OF assms(1)])
  then have "set (file_rows db None rd) = set (logged_file_rows db rd)"
    unfolding s(3) look key by simp
  with s(1,2) logged show ?thesis
    by (intro sorted_keys_unique)
qed

definition logged_network_rows :: "capsule \<Rightarrow> network_line list" where
  "logged_network_rows db =
     map (\<lambda>(k, rs). case connect_counts rs of (n, ok, bad) \<Rightarrow> (k, n, ok, bad, latest_errno rs))
       (group_by er_resource (events_where NetworkConnect None db))"

lemma latest_errno_sorted:
  assumes "sorted (map (\<lambda>r. (er_timestamp_ns r, er_id r)) rs)"
  shows "latest_errno rs = (if rs = [] then 0 else last (map er_errno rs))"
proof -
  have "sort_key (\<lambda>r. (er_timestamp_ns r, er_id r)) rs = rs"
    using assms by (rule sort_key_id_if_sorted)
  then show ?thesis by (simp add: latest_errno_def last_map)
qed

lemma sorted_filter_pairs:
  fixes ts :: "'a \<Rightarrow> int" and ids :: "'a \<Rightarrow> nat"
  assumes "sorted (map ts us)" "sorted_wrt (\<lambda>a b. ids a < ids b) us"
  shows "sorted (map (\<lambda>r. (ts r, ids r)) us)"
  using assms unfolding sorted_map sorted_wrt_iff_nth_less
  by (fastforce simp: less_eq_prod_def)

lemma network_rows_logged:
  assumes rows: "map row_content (t_events db) = map entry_of_event evs"
    and ids: "map er_id (t_events db) = [1 ..< Suc (length (t_events db))]"
    and ok: "activity_ok evs db"
    and times: "sorted (map (\<lambda>e. as_i64 (timestamp_ns e)) (filter (\<lambda>e. ev_type e = NetworkConnect) evs))"
    and errnos: "\<forall>e \<in> set evs. 0 \<le> errno_value e"
  shows "network_rows db None = logged_network_rows db"
proof -
  let ?evs = "\<lambda>k. filter (is_file_event NetworkConnect k) evs"
  let ?rows = "\<lambda>k. filter (\<lambda>r. er_resource r = k) (events_where NetworkConnect None db)"
  have dist: "distinct (map n_endpoint (t_network db))"
    and look: "\<And>p. table_lookup n_endpoint p (t_network db) = network_summary p evs"
    using ok by (simp_all add: activity_ok_def)
  define g where "g = (\<lambda>r :: network_row. (connect_count r, success_count r, failure_count r, last_errno r))"
  have table: "network_rows db None =
      map (\<lambda>r. (n_endpoint r, g r)) (sort_key n_endpoint (filter (\<lambda>_. True) (t_network db)))"
    by (simp add: network_rows_def g_def)
  define f where "f = (\<lambda>rs :: event_row list. case connect_counts rs of (n, ok, bad) \<Rightarrow> (n, ok, bad, latest_errno rs))"
  have logd: "logged_network_rows db =
      map (\<lambda>(k, rs). (k, f rs)) (group_by er_resource (events_where NetworkConnect None db))"
    by (simp add: logged_network_rows_def f_def connect_counts_def)
  note s = sorted_table[OF dist, of g "\<lambda>_. True", folded table]
  have logged: "sorted (map fst (logged_network_rows db))"
    "distinct (map fst (logged_network_rows db))"
    unfolding logd group_by_map by simp_all
  have id_order: "sorted_wrt (\<lambda>a b. er_id a < er_id b) (t_events db)"
  proof -
    have "sorted_wrt (<) (map er_id (t_events db))"
      unfolding ids by (rule sorted_wrt_upt)
    then show ?thesis by (simp add: sorted_wrt_map)
  qed
  have errno_list: "map er_errno (?rows k) = map errno_value (?evs k)" for k
    by (rule resource_query_errnos[OF rows])
  have count: "count_where (\<lambda>r. Q (er_errno r)) (?rows k) =
      int (length (filter (\<lambda>e. Q (errno_value e)) (?evs k)))" for Q k
  proof -
    have "length (filter Q (map er_errno (?rows k))) = length (filter Q (map errno_value (?evs k)))"
      by (simp only: errno_list)
    then show ?thesis by (simp add: count_where_def filter_map comp_def)
  qed
  have latest: "latest_errno (?rows k) = (if ?evs k = [] then 0 else errno_value (last (?evs k)))" for k
  proof -
    have "sorted (map er_timestamp_ns (?rows k))"
    proof -
      have "map er_timestamp_ns (?rows k) = map (\<lambda>e. as_i64 (timestamp_ns e)) (?evs k)"
        using resource_query[OF rows, of er_timestamp_ns k NetworkConnect] by simp
      also have "\<dots> = map (\<lambda>e. as_i64 (timestamp_ns e)) (filter (\<lambda>e. resource e = k)
          (filter (\<lambda>e. ev_type e = NetworkConnect) evs))"
        by (simp add: is_file_event_def[abs_def] conj_comms)
      finally show ?thesis
        using sorted_filter[OF times] by (simp only:)
    qed
    moreover have "sorted_wrt (\<lambda>a b. er_id a < er_id b) (?rows k)"
      using id_order unfolding events_where_def by (intro sorted_wrt_filter)
    ultimately have "latest_errno (?rows k) = (if ?rows k = [] then 0 else last (map er_errno (?rows k)))"
      by (intro latest_errno_sorted sorted_filter_pairs)
    moreover have "?rows k = [] \<longleftrightarrow> ?evs k = []"
      using errno_list[of k] by (metis map_is_Nil_conv)
    ultimately show ?thesis
      unfolding errno_list by (simp add: last_map)
  qed
  have failures: "filter (\<lambda>e. is_file_event NetworkConnect k e \<and> 0 < errno_value e) evs =
      filter (\<lambda>e. is_file_event NetworkConnect k e \<and> errno_value e \<noteq> 0) evs" for k
    using errnos by (intro filter_cong) force+
  have f_rows: "f (?rows k) = (int (length (?evs k)),
      int (length (filter (\<lambda>e. errno_value e = 0) (?evs k))),
      int (length (filter (\<lambda>e. errno_value e \<noteq> 0) (?evs k))), latest_errno (?rows k))" for k
    using count[of "\<lambda>x. x = 0" k] count[of "\<lambda>x. 0 < x" k] resource_query_length[OF rows, of k NetworkConnect]
    by (simp add: f_def connect_counts_def failures)
  have key: "(\<exists>r. network_summary k evs = Some r \<and> x = g r) \<longleftrightarrow>
      ?evs k \<noteq> [] \<and> x = f (?rows k)" for k x
    by (auto simp: network_summary_def g_def Let_def f_rows latest)
  have "set (logged_network_rows db) = {(k, x). ?evs k \<noteq> [] \<and> x = f (?rows k)}"
    unfolding logd group_by_set resource_keys[OF rows] by auto
  then have "set (network_rows db None) = set (logged_network_rows db)"
    unfolding s(3) look by (simp add: key)
  with s(1,2) logged show ?thesis
    by (intro sorted_keys_unique)
qed

section \<open>A command's view\<close>

lemma events_where_command:
  "events_where t (Some i) db =
     filter (\<lambda>r. er_type r = event_type_name t) (filter (in_command (Some i)) (t_events db))"
  by (simp add: events_where_def conj_comms)

lemma command_view:
  assumes "filter (in_command (Some i)) (t_events a) = filter (in_command (Some i)) (t_events b)"
  shows "show_body a \<lparr>so_events = ev, so_command_id = Some i\<rparr> header =
    show_body b \<lparr>so_events = ev, so_command_id = Some i\<rparr> header"
proof -
  have e: "events_where t (Some i) a = events_where t (Some i) b" for t
    by (simp only: events_where_command assms)
  have split: "filter (\<lambda>r. 0 < er_errno r \<and> in_command (Some i) r) rs =
      filter (\<lambda>r. 0 < er_errno r) (filter (in_command (Some i)) rs)" for rs
    by (simp add: conj_comms)
  have "error_rows a (Some i) = error_rows b (Some i)"
    by (simp only: error_rows_def split assms)
  with e assms show ?thesis
    by (simp add: show_body_def show_processes_def process_count_def show_files_def file_rows_def
        show_network_def network_rows_def show_local_ipc_def ipc_rows_def show_errors_def
        show_timeline_def timeline_rows_def)
qed

section \<open>Properties\<close>

text \<open>
  C22. The report without a command filter reads the summary tables, the report of one
  command groups the event log; they agree: for a capsule that the writer filled, the file and
  network lines without a filter are the lines that the grouping query gives over all events
  (for the last error of an endpoint the clock must not have run backwards).
\<close>

theorem summary_shows_the_log:
  assumes "emit_all emit_writer evs (open_writer v run) = Inr w"
    and "sorted (map (\<lambda>e. as_i64 (timestamp_ns e))
      (filter (\<lambda>e. ev_type e = NetworkConnect) evs))"
    and "\<forall>e \<in> set evs. 0 \<le> errno_value e"
  shows "file_rows (w_db w) None rd = logged_file_rows (w_db w) rd \<and>
    network_rows (w_db w) None = logged_network_rows (w_db w)"
  using file_rows_logged[OF writer_rows(1)[OF assms(1)] activity_history[OF assms(1)]]
    network_rows_logged[OF writer_rows[OF assms(1)] activity_history[OF assms(1)] assms(2,3)]
  by blast

theorem summary_shows_the_log_witness:
  "logged_file_rows (w_db sample_writer) True = file_rows (w_db sample_writer) None True \<and>
   logged_network_rows (w_db sample_writer) = []"
proof -
  have "filter (\<lambda>e. ev_type e = NetworkConnect) sample_events = []"
    "\<forall>e \<in> set sample_events. 0 \<le> errno_value e"
    by (simp_all add: sample_events_def sample_event_def)
  then have "file_rows (w_db sample_writer) None True = logged_file_rows (w_db sample_writer) True"
    "network_rows (w_db sample_writer) None = logged_network_rows (w_db sample_writer)"
    using summary_shows_the_log[OF sample_writer_emits] by simp_all
  moreover have "network_rows (w_db sample_writer) None = []"
    by code_simp
  ultimately show ?thesis by simp
qed





end
