(* ===== verification/Diff_Report.thy ===== *)
theory Diff_Report
  imports Show_Report "HOL-Library.Multiset"
begin

text \<open>
  \<open>whyrun diff\<close> (\<open>src/diff.cpp\<close>): the summary of a capsule, and the report of what differs
  between two of them as the text it prints.
\<close>

section \<open>Summaries\<close>

record counts =
  calls :: int
  successes :: int
  failures :: int
  bytes_moved :: int

definition mk_counts :: "int \<Rightarrow> int \<Rightarrow> int \<Rightarrow> int \<Rightarrow> counts" where
  "mk_counts n ok bad b = \<lparr>calls = n, successes = ok, failures = bad, bytes_moved = b\<rparr>"

type_synonym activity = "(string \<times> counts) list"

record summary =
  sm_exit_code :: int
  sm_session :: bool
  sm_reads :: activity
  sm_writes :: activity
  sm_network :: activity
  sm_local_ipc :: activity
  sm_executables :: "string list"
  sm_commands :: "string list"

definition load_reads :: "capsule \<Rightarrow> activity" where
  "load_reads db =
     map_fill (\<lambda>r. 0 < read_calls r) (\<lambda>r. column_text (f_path r))
       (\<lambda>r. mk_counts (read_calls r) 0 0 (bytes_read r)) (t_files db)"

definition load_writes :: "capsule \<Rightarrow> activity" where
  "load_writes db =
     map_fill (\<lambda>r. 0 < write_calls r) (\<lambda>r. column_text (f_path r))
       (\<lambda>r. mk_counts (write_calls r) 0 0 (bytes_written r)) (t_files db)"

definition load_network :: "capsule \<Rightarrow> activity" where
  "load_network db =
     map_fill (\<lambda>_. True) (\<lambda>r. column_text (n_endpoint r))
       (\<lambda>r. mk_counts (connect_count r) (success_count r) (failure_count r) 0) (t_network db)"

definition load_local_ipc :: "capsule \<Rightarrow> activity" where
  "load_local_ipc db =
     map_fill (\<lambda>_. True) (\<lambda>(k, n, ok, bad). column_text k)
       (\<lambda>(k, n, ok, bad). mk_counts n ok bad 0) (ipc_rows db None)"

definition load_executables :: "capsule \<Rightarrow> string list" where
  "load_executables db =
     set_fill (map column_text (sort (remdups
       (filter (\<lambda>x. x \<noteq> []) (map pr_executable (t_processes db))))))"

definition load_commands :: "capsule \<Rightarrow> string list" where
  "load_commands db =
     set_fill (map column_text (sort (remdups (map c_command (t_commands db)))))"

definition load_summary :: "capsule res \<Rightarrow> string \<Rightarrow> summary res" where
  "load_summary opened path =
     bind_res opened (\<lambda>db.
     bind_res (validate_schema db) (\<lambda>schema_version.
       case t_runs db of
         [] \<Rightarrow> Inl (Runtime_error (''capsule does not contain a run: '' @ path))
       | run # _ \<Rightarrow>
           let session = (2 \<le> schema_version \<and> column_text (run_mode_text run) = ''session'') in
           Inr \<lparr>sm_exit_code = column_int (run_exit_code run), sm_session = session,
                sm_reads = load_reads db, sm_writes = load_writes db,
                sm_network = load_network db, sm_local_ipc = load_local_ipc db,
                sm_executables = load_executables db,
                sm_commands = (if session then load_commands db else [])\<rparr>))"

section \<open>The comparison\<close>

text \<open>The lines of \<open>print_activity_diff\<close>; it returns whether it printed one.\<close>

definition change_text :: "bool \<Rightarrow> counts \<Rightarrow> counts \<Rightarrow> string" where
  "change_text network old new =
     (if network then
        '' (attempts '' @ show_int (calls old) @ '' -> '' @ show_int (calls new) @
        '', failures '' @ show_int (failures old) @ '' -> '' @ show_int (failures new) @ '')''
      else
        '' (calls '' @ show_int (calls old) @ '' -> '' @ show_int (calls new) @
        '', bytes '' @ show_int (bytes_moved old) @ '' -> '' @ show_int (bytes_moved new) @
        '')'')"

definition activity_lines :: "string \<Rightarrow> activity \<Rightarrow> activity \<Rightarrow> bool \<Rightarrow> string list" where
  "activity_lines label before after network =
     concat (map (\<lambda>(name, counts).
       case map_of after name of
         None \<Rightarrow> [''- '' @ label @ name @ [newline]]
       | Some found \<Rightarrow>
           if counts \<noteq> found
           then [''~ '' @ label @ name @ change_text network counts found @ [newline]]
           else []) before) @
     concat (map (\<lambda>(name, counts).
       if name \<notin> fst ` set before then [''+ '' @ label @ name @ [newline]] else []) after)"

definition print_activity_diff :: "string \<Rightarrow> activity \<Rightarrow> activity \<Rightarrow> bool \<Rightarrow> bool \<times> string" where
  "print_activity_diff label before after network =
     (let ls = activity_lines label before after network in (ls \<noteq> [], concat ls))"

definition set_lines :: "string list \<Rightarrow> string list \<Rightarrow> string list" where
  "set_lines before after =
     map (\<lambda>v. ''- '' @ v @ [newline]) (filter (\<lambda>v. v \<notin> set after) before) @
     map (\<lambda>v. ''+ '' @ v @ [newline]) (filter (\<lambda>v. v \<notin> set before) after)"

definition print_set_diff :: "string list \<Rightarrow> string list \<Rightarrow> bool \<times> string" where
  "print_set_diff before after = (let ls = set_lines before after in (ls \<noteq> [], concat ls))"

definition or_none :: "bool \<times> string \<Rightarrow> string" where
  "or_none r = snd r @ (if fst r then [] else ''  none'' @ [newline])"

definition diff_text :: "summary \<Rightarrow> summary \<Rightarrow> string" where
  "diff_text a b =
     ''Exit'' @ [newline] @
     (if sm_exit_code a = sm_exit_code b
      then ''  unchanged ('' @ show_int (sm_exit_code a) @ '')'' @ [newline]
      else ''- '' @ show_int (sm_exit_code a) @ [newline] @ ''+ '' @ show_int (sm_exit_code b) @
           [newline]) @ [newline] @
     (if sm_session a \<or> sm_session b
      then ''Commands'' @ [newline] @ or_none (print_set_diff (sm_commands a) (sm_commands b)) @
           [newline]
      else []) @
     ''Files'' @ [newline] @
     (let r = print_activity_diff ''READ '' (sm_reads a) (sm_reads b) False;
          w = print_activity_diff ''WRITE '' (sm_writes a) (sm_writes b) False in
      or_none (fst w \<or> fst r, snd r @ snd w)) @ [newline] @
     ''Network'' @ [newline] @
     or_none (print_activity_diff [] (sm_network a) (sm_network b) True) @ [newline] @
     ''Local IPC'' @ [newline] @
     or_none (print_activity_diff [] (sm_local_ipc a) (sm_local_ipc b) True) @ [newline] @
     ''Processes'' @ [newline] @ or_none (print_set_diff (sm_executables a) (sm_executables b))"

definition diff_capsules :: "capsule res \<Rightarrow> string \<Rightarrow> capsule res \<Rightarrow> string \<Rightarrow> report" where
  "diff_capsules before before_path after after_path =
     (case bind_res (load_summary before before_path) (\<lambda>a.
             bind_res (load_summary after after_path) (\<lambda>b. Inr (diff_text a b))) of
        Inl e \<Rightarrow> \<lparr>std_out = [], std_err = ''whyrun diff: '' @ what e @ [newline],
                  exit_status = 1\<rparr>
      | Inr text \<Rightarrow> \<lparr>std_out = text, std_err = [], exit_status = 0\<rparr>)"

section \<open>A report without changes means equal summaries\<close>

lemma activity_lines_Nil:
  assumes "map_ok before" "map_ok after"
  shows "activity_lines label before after network = [] \<longleftrightarrow> before = after"
proof
  assume none: "activity_lines label before after network = []"
  have old: "map_of after name = Some c" if "(name, c) \<in> set before" for name c
    using none that by (fastforce simp: activity_lines_def split: option.splits if_splits)
  have new: "fst ` set after \<subseteq> fst ` set before"
    using none by (fastforce simp: activity_lines_def split: if_splits)
  have "map_of before name = map_of after name" for name
  proof (cases "map_of before name")
    case (Some c)
    then show ?thesis using old map_of_SomeD by metis
  next
    case None
    then show ?thesis using new by (metis map_of_eq_None_iff subsetD)
  qed
  then show "before = after"
    using map_ok_unique[OF assms] by blast
next
  assume "before = after"
  moreover have "map_of after name = Some c" if "(name, c) \<in> set after" for name c
    using assms(2) that by (simp add: map_ok_def)
  ultimately show "activity_lines label before after network = []"
    by (auto simp: activity_lines_def image_iff) force
qed

lemma print_activity_diff_changed:
  assumes "map_ok before" "map_ok after"
  shows "fst (print_activity_diff label before after network) \<longleftrightarrow> before \<noteq> after"
  using activity_lines_Nil[OF assms] by (simp add: print_activity_diff_def)

lemma set_lines_Nil: "set_lines before after = [] \<longleftrightarrow> set before = set after"
  by (auto simp: set_lines_def filter_empty_conv)

lemma print_set_diff_changed:
  "fst (print_set_diff before after) \<longleftrightarrow> set before \<noteq> set after"
  using set_lines_Nil[of before after] by (simp add: print_set_diff_def)

lemma load_maps_ok [simp]:
  "map_ok (load_reads db)" "map_ok (load_writes db)" "map_ok (load_network db)"
  "map_ok (load_local_ipc db)"
  by (simp_all add: load_reads_def load_writes_def load_network_def load_local_ipc_def)

section \<open>The order of a recording does not matter\<close>

lemma mset_filter_eq: "mset xs = mset ys \<Longrightarrow> mset (filter P xs) = mset (filter P ys)"
  by (simp add: mset_filter)

lemma mset_length_filter: "mset xs = mset ys \<Longrightarrow> length (filter P xs) = length (filter P ys)"
  by (metis mset_filter_eq size_mset)

lemma mset_sum_filter:
  fixes f :: "'a \<Rightarrow> int"
  assumes "mset xs = mset ys"
  shows "sum_list (map f (filter P xs)) = sum_list (map f (filter P ys))"
proof -
  have "mset (map f (filter P xs)) = mset (map f (filter P ys))"
    using mset_filter_eq[OF assms] by simp
  then show ?thesis by (metis sum_mset_sum_list)
qed

lemma mset_filter_Nil: "mset xs = mset ys \<Longrightarrow> filter P xs = [] \<longleftrightarrow> filter P ys = []"
  by (metis mset_length_filter length_0_conv)

lemma file_summary_mset:
  assumes "mset evs = mset evs'"
  shows "file_summary k evs = file_summary k evs'"
  unfolding file_summary_def Let_def mset_filter_Nil[OF assms] mset_length_filter[OF assms]
    mset_sum_filter[OF assms] ..

definition network_counts :: "network_row \<Rightarrow> counts" where
  "network_counts r = mk_counts (connect_count r) (success_count r) (failure_count r) 0"

lemma network_summary_mset:
  assumes "mset evs = mset evs'"
  shows "map_option network_counts (network_summary k evs) =
    map_option network_counts (network_summary k evs')"
proof -
  have "mset (filter (is_file_event NetworkConnect k) evs) =
      mset (filter (is_file_event NetworkConnect k) evs')"
    using assms by (rule mset_filter_eq)
  from mset_length_filter[OF this] mset_length_filter[OF assms] mset_filter_Nil[OF assms]
  show ?thesis
    by (simp add: network_summary_def network_counts_def Let_def)
qed

text \<open>A table whose keys have no NUL byte fills a map by its lookups.\<close>

lemma fill_by_text:
  assumes "distinct (map key rs)" "\<forall>r \<in> set rs. CHR 0x00 \<notin> set (key r)"
  shows "map_of (map_fill P (\<lambda>r. column_text (key r)) val rs) k =
    (case table_lookup key k rs of None \<Rightarrow> None | Some r \<Rightarrow> if P r then Some (val r) else None)"
proof -
  have same: "column_text (key r) = key r" if "r \<in> set rs" for r
    using assms(2) that by (simp add: column_text_def c_str_id)
  then have eq: "map (\<lambda>r. column_text (key r)) rs = map key rs"
    by simp
  have "distinct (map (\<lambda>r. column_text (key r)) rs)"
    unfolding eq by (rule assms(1))
  moreover have "find (\<lambda>r. column_text (key r) = k) rs = table_lookup key k rs"
    unfolding table_lookup_def using same by (intro find_cong) auto
  ultimately show ?thesis by (simp add: map_of_fill)
qed

lemma table_keys_clean:
  assumes "\<And>k. table_lookup key k rs = summary_of k" "distinct (map key rs)"
    and "\<And>k. CHR 0x00 \<in> set k \<Longrightarrow> summary_of k = None"
  shows "\<forall>r \<in> set rs. CHR 0x00 \<notin> set (key r)"
proof
  fix r assume "r \<in> set rs"
  then have "summary_of (key r) = Some r"
    using assms(1,2) table_lookup_mem[of key rs "key r" r] by simp
  then show "CHR 0x00 \<notin> set (key r)"
    using assms(3)[of "key r"] by auto
qed

lemma no_event_no_summary:
  assumes "\<forall>e \<in> set evs. CHR 0x00 \<notin> set (resource e)" "CHR 0x00 \<in> set k"
  shows "file_summary k evs = None" "network_summary k evs = None"
proof -
  have "filter (is_file_event t k) evs = []" for t
    using assms by (auto simp: is_file_event_def filter_empty_conv)
  then show "file_summary k evs = None" "network_summary k evs = None"
    by (simp_all add: file_summary_def network_summary_def)
qed

lemma load_by_summary:
  assumes "activity_ok evs db" "\<forall>e \<in> set evs. CHR 0x00 \<notin> set (resource e)"
  shows "map_of (load_reads db) k = (case file_summary k evs of None \<Rightarrow> None | Some r \<Rightarrow>
      if 0 < read_calls r then Some (mk_counts (read_calls r) 0 0 (bytes_read r)) else None)"
    and "map_of (load_writes db) k = (case file_summary k evs of None \<Rightarrow> None | Some r \<Rightarrow>
      if 0 < write_calls r then Some (mk_counts (write_calls r) 0 0 (bytes_written r)) else None)"
    and "map_of (load_network db) k = map_option network_counts (network_summary k evs)"
proof -
  have ok: "distinct (map f_path (t_files db))" "distinct (map n_endpoint (t_network db))"
    "\<And>p. table_lookup f_path p (t_files db) = file_summary p evs"
    "\<And>p. table_lookup n_endpoint p (t_network db) = network_summary p evs"
    using assms(1) by (simp_all add: activity_ok_def)
  note none = no_event_no_summary[OF assms(2)]
  have files: "\<forall>r \<in> set (t_files db). CHR 0x00 \<notin> set (f_path r)"
    by (rule table_keys_clean[OF ok(3,1) none(1)])
  have nets: "\<forall>r \<in> set (t_network db). CHR 0x00 \<notin> set (n_endpoint r)"
    by (rule table_keys_clean[OF ok(4,2) none(2)])
  show "map_of (load_reads db) k = (case file_summary k evs of None \<Rightarrow> None | Some r \<Rightarrow>
      if 0 < read_calls r then Some (mk_counts (read_calls r) 0 0 (bytes_read r)) else None)"
    unfolding load_reads_def fill_by_text[OF ok(1) files] ok(3) by simp
  show "map_of (load_writes db) k = (case file_summary k evs of None \<Rightarrow> None | Some r \<Rightarrow>
      if 0 < write_calls r then Some (mk_counts (write_calls r) 0 0 (bytes_written r)) else None)"
    unfolding load_writes_def fill_by_text[OF ok(1) files] ok(3) by simp
  show "map_of (load_network db) k = map_option network_counts (network_summary k evs)"
    unfolding load_network_def fill_by_text[OF ok(2) nets] ok(4)
    by (simp add: network_counts_def split: option.split)
qed

lemma ipc_rows_logged:
  assumes "map row_content (t_events db) = map entry_of_event evs"
  shows "set (ipc_rows db None) =
    {(k, x). filter (is_file_event LocalIpcConnect k) evs \<noteq> [] \<and>
      x = (int (length (filter (is_file_event LocalIpcConnect k) evs)),
           int (length (filter (\<lambda>e. errno_value e = 0) (filter (is_file_event LocalIpcConnect k) evs))),
           int (length (filter (\<lambda>e. 0 < errno_value e) (filter (is_file_event LocalIpcConnect k) evs))))}"
proof -
  let ?rows = "\<lambda>k. filter (\<lambda>r. er_resource r = k) (events_where LocalIpcConnect None db)"
  let ?evs = "\<lambda>k. filter (is_file_event LocalIpcConnect k) evs"
  have count: "count_where (\<lambda>r. Q (er_errno r)) (?rows k) =
      int (length (filter (\<lambda>e. Q (errno_value e)) (?evs k)))" for Q k
  proof -
    have "length (filter Q (map er_errno (?rows k))) = length (filter Q (map errno_value (?evs k)))"
      by (simp only: resource_query_errnos[OF assms])
    then show ?thesis by (simp add: count_where_def filter_map comp_def)
  qed
  have "connect_counts (?rows k) = (int (length (?evs k)),
      int (length (filter (\<lambda>e. errno_value e = 0) (?evs k))),
      int (length (filter (\<lambda>e. 0 < errno_value e) (?evs k))))" for k
    using count[of "\<lambda>x. x = 0" k] count[of "\<lambda>x. 0 < x" k]
    by (simp add: connect_counts_def resource_query_length[OF assms])
  then show ?thesis
    unfolding ipc_rows_def group_by_set resource_keys[OF assms] by auto
qed

lemma ipc_rows_unique:
  assumes "set (ipc_rows a None) = set (ipc_rows b None)"
  shows "ipc_rows a None = ipc_rows b None"
proof -
  have "sorted (map fst (ipc_rows db None)) \<and> distinct (map fst (ipc_rows db None))" for db
    unfolding ipc_rows_def group_by_map by simp
  then show ?thesis
    using assms by (intro sorted_keys_unique) simp_all
qed

section \<open>Properties\<close>



text \<open>
  C31. Two recordings of the same events in different orders do not differ: the reads,
  writes, network and local endpoints of their summaries are the same.
\<close>

theorem diff_ignores_order:
  assumes "emit_all emit_writer evs (open_writer v run) = Inr w"
    and "emit_all emit_writer evs' (open_writer v' run') = Inr w'"
    and "mset evs = mset evs'" "\<forall>e \<in> set evs. CHR 0x00 \<notin> set (resource e)"
  shows "load_reads (w_db w) = load_reads (w_db w') \<and>
    load_writes (w_db w) = load_writes (w_db w') \<and>
    load_network (w_db w) = load_network (w_db w') \<and>
    load_local_ipc (w_db w) = load_local_ipc (w_db w')"
proof -
  have nul: "\<forall>e \<in> set evs'. CHR 0x00 \<notin> set (resource e)"
    using assms(3,4) by (metis set_mset_mset)
  note a = load_by_summary[OF activity_history[OF assms(1)] assms(4)]
  note b = load_by_summary[OF activity_history[OF assms(2)] nul]
  have "load_reads (w_db w) = load_reads (w_db w')"
    by (rule map_ok_unique) (simp_all add: fun_eq_iff a b file_summary_mset[OF assms(3)])
  moreover have "load_writes (w_db w) = load_writes (w_db w')"
    by (rule map_ok_unique) (simp_all add: fun_eq_iff a b file_summary_mset[OF assms(3)])
  moreover have "load_network (w_db w) = load_network (w_db w')"
    by (rule map_ok_unique) (simp_all add: fun_eq_iff a b network_summary_mset[OF assms(3)])
  moreover have "ipc_rows (w_db w) None = ipc_rows (w_db w') None"
  proof (rule ipc_rows_unique)
    have m: "mset (filter (is_file_event LocalIpcConnect k) evs) =
        mset (filter (is_file_event LocalIpcConnect k) evs')" for k
      using assms(3) by (rule mset_filter_eq)
    show "set (ipc_rows (w_db w) None) = set (ipc_rows (w_db w') None)"
      unfolding ipc_rows_logged[OF writer_rows(1)[OF assms(1)]]
        ipc_rows_logged[OF writer_rows(1)[OF assms(2)]]
        mset_filter_Nil[OF assms(3)] mset_length_filter[OF assms(3)] mset_length_filter[OF m] ..
  qed
  ultimately show ?thesis
    by (simp add: load_local_ipc_def)
qed

theorem diff_ignores_order_witness:
  "\<exists>w. emit_all emit_writer (rev sample_events) (open_writer ''2'' sample_run) = Inr w \<and>
     load_reads (w_db w) = load_reads (w_db sample_writer)"
proof -
  obtain w where w: "emit_all emit_writer (rev sample_events) (open_writer ''2'' sample_run) = Inr w"
    by (simp add: sample_events_def sample_event_def emit_writer_def emit_capsule_def Let_def)
  have "\<forall>e \<in> set (rev sample_events). CHR 0x00 \<notin> set (resource e)"
    by (simp add: sample_events_def sample_event_def)
  then have "load_reads (w_db w) = load_reads (w_db sample_writer)"
    using diff_ignores_order[OF w sample_writer_emits] by simp
  with w show ?thesis by blast
qed

end
