(* ===== verification/Sink_Relation.thy ===== *)
theory Sink_Relation
  imports Collector
begin

text \<open>
  The collector uses its sink only through \<open>emit\<close>: if two sinks are related, and \<open>emit\<close> keeps
  them related and throws the same exceptions, then two collections with the same answers of
  the kernel end alike, with related sinks.
\<close>

locale sink_relation =
  fixes emit :: "event \<Rightarrow> 's \<Rightarrow> 's res"
    and emit' :: "event \<Rightarrow> 't \<Rightarrow> 't res"
    and rel :: "'s \<Rightarrow> 't \<Rightarrow> bool"
  assumes emits: "rel s t \<Longrightarrow> rel_sum (=) rel (emit e s) (emit' e t)"

definition same_collector :: "('s \<Rightarrow> 't \<Rightarrow> bool) \<Rightarrow> 's collector \<Rightarrow> 't collector \<Rightarrow> bool" where
  "same_collector rel c d \<longleftrightarrow>
     execution c = execution d \<and> protocol c = protocol d \<and> channel c = channel d \<and>
     live_tids c = live_tids d \<and> configured_tids c = configured_tids d \<and>
     threads c = threads d \<and> root_status_seen c = root_status_seen d \<and>
     partial_result c = partial_result d \<and> resumed c = resumed d \<and>
     marker_bytes c = marker_bytes d \<and> rel (sink c) (sink d)"

lemma bind_related:
  assumes "rel_sum (=) A m n" "\<And>x y. A x y \<Longrightarrow> rel_sum (=) B (f x) (g y)"
  shows "rel_sum (=) B (bind_res m f) (bind_res n g)"
  using assms by (cases rule: rel_sum.cases) simp_all

lemma fold_related:
  assumes "\<And>x c d. A c d \<Longrightarrow> rel_sum (=) A (f x c) (g x d)" "A c d"
  shows "rel_sum (=) A (fold_res f xs c) (fold_res g xs d)"
  using assms(2)
  by (induction xs arbitrary: c d) (simp_all add: bind_related[OF assms(1)])

context sink_relation
begin

abbreviation same :: "'s collector \<Rightarrow> 't collector \<Rightarrow> bool" where
  "same \<equiv> same_collector rel"

lemma deliver_related:
  assumes "same c d"
  shows "rel_sum (=) same (deliver emit r c) (deliver emit' r d)"
  unfolding deliver_def emit_all_def
proof (rule bind_related)
  show "rel_sum (=) rel (fold_res emit (snd r) (sink c)) (fold_res emit' (snd r) (sink d))"
    using assms by (intro fold_related emits) (auto simp: same_collector_def)
  show "rel_sum (=) same (Inr (c\<lparr>execution := fst r, sink := x\<rparr>))
      (Inr (d\<lparr>execution := fst r, sink := y\<rparr>))" if "rel x y" for x y
    using assms that by (simp add: same_collector_def)
qed

lemma handle_exit_related:
  assumes "same c d"
  shows "rel_sum (=) same (handle_exit emit root tid status w c) (handle_exit emit' root tid status w d)"
proof -
  have "execution c = execution d"
    using assms by (simp add: same_collector_def)
  then show ?thesis
    unfolding handle_exit_def Let_def
    by (simp only:) (intro bind_related[OF deliver_related[OF assms]], simp add: same_collector_def)
qed

lemma deliver_markers_related:
  assumes "same c d"
  shows "rel_sum (=) same (deliver_markers emit tid ts markers c) (deliver_markers emit' tid ts markers d)"
  unfolding deliver_markers_def
proof (rule fold_related[where A = same, OF _ assms])
  fix m and c :: "'s collector" and d :: "'t collector"
  assume cd: "same c d"
  then have "execution c = execution d"
    by (simp add: same_collector_def)
  then show "rel_sum (=) same
      (bind_res (on_command_marker (execution c) tid m ts) (\<lambda>r. deliver emit r c))
      (bind_res (on_command_marker (execution d) tid m ts) (\<lambda>r. deliver emit' r d))"
    using deliver_related[OF cd] by (cases "on_command_marker (execution d) tid m ts") simp_all
qed

lemma command_write_related:
  assumes "same c d"
  shows "rel_sum (=) same (command_write emit root w sc c) (command_write emit' root w sc d)"
proof -
  have eq: "channel c = channel d" "protocol c = protocol d" "marker_bytes c = marker_bytes d"
    using assms by (simp_all add: same_collector_def)
  have markers: "rel_sum (=) same
      (deliver_markers emit tid ts markers (c\<lparr>protocol := p, marker_bytes := b\<rparr>))
      (deliver_markers emit' tid ts markers (d\<lparr>protocol := p, marker_bytes := b\<rparr>))"
    for tid ts markers p b
    using assms by (intro deliver_markers_related) (simp add: same_collector_def)
  show ?thesis
    unfolding command_write_def eq using assms
    by (auto simp: markers bind_res_def split: option.split sum.split prod.split)
qed

lemma handle_syscall_regs_related:
  assumes "same c d"
  shows "rel_sum (=) same (handle_syscall_regs emit root tid w regs c)
    (handle_syscall_regs emit' root tid w regs d)"
proof -
  define th where "th = (case threads d tid of None \<Rightarrow> new_thread | Some th \<Rightarrow> th)"
  define sc where "sc = syscall_of_stop d tid th regs (wk_now w)"
  have eq: "threads c = threads d" "syscall_of_stop c tid th regs (wk_now w) = sc"
    using assms by (simp_all add: same_collector_def syscall_of_stop_def sc_def)
  have step: "rel_sum (=) same
      (bind_res (deliver emit (on_syscall_exit (wk_host w) (execution c2) sc) c2) (\<lambda>c3.
         Inr (c3\<lparr>threads := (threads c3)(tid \<mapsto> th\<lparr>in_syscall := False\<rparr>)\<rparr>)))
      (bind_res (deliver emit' (on_syscall_exit (wk_host w) (execution d2) sc) d2) (\<lambda>d3.
         Inr (d3\<lparr>threads := (threads d3)(tid \<mapsto> th\<lparr>in_syscall := False\<rparr>)\<rparr>)))"
    if "same c2 d2" for c2 d2
  proof -
    have "execution c2 = execution d2"
      using that by (simp add: same_collector_def)
    then show ?thesis
      by (simp only:) (intro bind_related[OF deliver_related[OF that]], simp add: same_collector_def)
  qed
  show ?thesis
    unfolding handle_syscall_regs_def eq(1) th_def[symmetric] Let_def eq(2) sc_def[symmetric]
    using assms
    by (auto intro!: bind_related[OF command_write_related] step simp: same_collector_def)
qed

lemma resume_related:
  assumes "same c d"
  shows "rel_flow same (resume_or_fail strerror tid sig w c) (resume_or_fail strerror tid sig w d)"
    and "rel_flow same (fail message c) (fail message d)"
  using assms
  by (auto simp: resume_or_fail_def fail_def same_collector_def split: option.split)

lemma then_resume_related:
  assumes "rel_sum (=) same m n"
  shows "rel_sum (=) (rel_flow same)
    (bind_res m (\<lambda>c'. Inr (resume_or_fail strerror tid sig w c')))
    (bind_res n (\<lambda>c'. Inr (resume_or_fail strerror tid sig w c')))"
  using assms by (rule bind_related) (simp add: resume_related)

lemma handle_syscall_stop_related:
  assumes "same c d"
  shows "rel_sum (=) (rel_flow same) (handle_syscall_stop strerror emit root tid w c)
    (handle_syscall_stop strerror emit' root tid w d)"
  unfolding handle_syscall_stop_def
  using assms by (auto simp: resume_related then_resume_related handle_syscall_regs_related
      split: sum.split)

lemma handle_event_stop_related:
  assumes "same c d"
  shows "rel_sum (=) (rel_flow same) (handle_event_stop strerror emit tid ev w c)
    (handle_event_stop strerror emit' tid ev w d)"
proof -
  have eq: "threads c = threads d" "execution c = execution d"
    using assms by (simp_all add: same_collector_def)
  have created: "rel_sum (=) (rel_flow same)
      (bind_res (deliver emit r c) (\<lambda>c'. Inr (resume_or_fail strerror tid 0 w
         (c'\<lparr>live_tids := insert child (live_tids c')\<rparr>))))
      (bind_res (deliver emit' r d) (\<lambda>c'. Inr (resume_or_fail strerror tid 0 w
         (c'\<lparr>live_tids := insert child (live_tids c')\<rparr>))))" for r child
    by (rule bind_related[OF deliver_related[OF assms]])
      (simp add: resume_related same_collector_def)
  show ?thesis
    unfolding handle_event_stop_def eq Let_def
    using assms by (auto simp: created resume_related then_resume_related deliver_related split: sum.split)
qed

lemma handle_stop_related:
  assumes "same c d"
  shows "rel_sum (=) (rel_flow same) (handle_stop strerror emit root tid status w c)
    (handle_stop strerror emit' root tid status w d)"
proof -
  let ?add = "\<lambda>c. c\<lparr>live_tids := insert tid (live_tids c)\<rparr>"
  let ?set = "\<lambda>c. c\<lparr>configured_tids := insert tid (configured_tids c)\<rparr>"
  have c1: "same (?add c) (?add d)"
    using assms by (simp add: same_collector_def)
  then have c2: "same (?set (?add c)) (?set (?add d))"
    by (simp add: same_collector_def)
  have "configured_tids (?add c) = configured_tids (?add d)"
    using assms by (simp add: same_collector_def)
  then show ?thesis
    unfolding handle_stop_def Let_def
    using resume_related(2)[OF c1] resume_related(1)[OF c2] handle_syscall_stop_related[OF c2]
      handle_event_stop_related[OF c2]
    by (simp only: split: option.split) simp
qed

lemma loop_step_related:
  assumes "same c d"
  shows "rel_sum (=) (rel_flow same) (loop_step strerror emit root w c)
    (loop_step strerror emit' root w d)"
proof -
  have "rel_sum (=) (rel_flow same)
      (bind_res (handle_exit emit root tid status w c) (\<lambda>c'. Inr (Next c')))
      (bind_res (handle_exit emit' root tid status w d) (\<lambda>c'. Inr (Next c')))" for tid status
    by (rule bind_related[OF handle_exit_related[OF assms]]) simp
  then show ?thesis
    unfolding loop_step_def
    using assms by (auto simp: resume_related handle_stop_related split: wait_answer.split)
qed

lemma wait_loop_related:
  assumes "same c d"
  shows "rel_sum (=) (rel_loop_end same) (wait_loop strerror emit root ws c)
    (wait_loop strerror emit' root ws d)"
  using assms
proof (induction ws arbitrary: c d)
  case Nil
  then show ?case by (simp add: same_collector_def)
next
  case (Cons w ws)
  have "live_tids c = live_tids d"
    using Cons.prems by (simp add: same_collector_def)
  moreover have "rel_sum (=) (rel_loop_end same)
      (bind_res (loop_step strerror emit root w c) (\<lambda>f. case f of
         Next c' \<Rightarrow> wait_loop strerror emit root ws c' | Break c' \<Rightarrow> Inr (Finished c')
       | Return r c' \<Rightarrow> Inr (Returned r c')))
      (bind_res (loop_step strerror emit' root w d) (\<lambda>f. case f of
         Next c' \<Rightarrow> wait_loop strerror emit' root ws c' | Break c' \<Rightarrow> Inr (Finished c')
       | Return r c' \<Rightarrow> Inr (Returned r c')))"
    using loop_step_related[OF Cons.prems]
  proof (rule bind_related)
    fix f and g
    assume "rel_flow same f g"
    then show "rel_sum (=) (rel_loop_end same)
        (case f of Next c' \<Rightarrow> wait_loop strerror emit root ws c' | Break c' \<Rightarrow> Inr (Finished c')
         | Return r c' \<Rightarrow> Inr (Returned r c'))
        (case g of Next c' \<Rightarrow> wait_loop strerror emit' root ws c' | Break c' \<Rightarrow> Inr (Finished c')
         | Return r c' \<Rightarrow> Inr (Returned r c'))"
      by (cases rule: flow.rel_cases) (simp_all add: Cons.IH)
  qed
  ultimately show ?case using Cons.prems by simp
qed

lemma conclude_related:
  assumes "same c d"
  shows "rel_sum (=) (rel_collect_end rel)
    (bind_res (conclude request now c) (\<lambda>(res, s'). Inr (Collected res s')))
    (bind_res (conclude request now d) (\<lambda>(res, s'). Inr (Collected res s')))"
  using assms by (auto simp: conclude_def same_collector_def Let_def bind_res_def split: sum.split)

lemma loop_end_related:
  assumes "rel_loop_end same l m"
  shows "rel_sum (=) (rel_collect_end rel)
    (case l of
       Finished c \<Rightarrow> bind_res (conclude request now c) (\<lambda>(res, s'). Inr (Collected res s'))
     | Returned res c \<Rightarrow> Inr (Collected res (sink c)) | Waiting c \<Rightarrow> Inr Blocked)
    (case m of
       Finished c \<Rightarrow> bind_res (conclude request now c) (\<lambda>(res, s'). Inr (Collected res s'))
     | Returned res c \<Rightarrow> Inr (Collected res (sink c)) | Waiting c \<Rightarrow> Inr Blocked)"
  using assms
  by (cases rule: loop_end.rel_cases) (simp_all add: conclude_related, simp add: same_collector_def)

lemma run_tracees_related:
  assumes "rel s t"
  shows "rel_sum (=) (rel_collect_end rel) (run_tracees strerror emit request la ws root s)
    (run_tracees strerror emit' request la ws root t)"
  unfolding run_tracees_def Let_def
proof (rule bind_related)
  show "rel_sum (=) same (deliver emit r (start_collector request root st s))
      (deliver emit' r (start_collector request root st t))" for r st
    using assms by (intro deliver_related) (simp add: start_collector_def same_collector_def)
next
  fix c d
  assume cd: "same c d"
  then have "rel (sink c) (sink d)" "same (asked root 0 c) (asked root 0 d)"
    by (simp_all add: same_collector_def)
  then show "rel_sum (=) (rel_collect_end rel)
      (case resume_syscall strerror root (la_resume la) of
         Some message \<Rightarrow> Inr (Collected (initial_result\<lparr>collect_error := message\<rparr>) (sink c))
       | None \<Rightarrow> bind_res (wait_loop strerror emit root ws (asked root 0 c)) (\<lambda>l. case l of
           Finished c' \<Rightarrow> bind_res (conclude request (la_end la) c') (\<lambda>(res, s'). Inr (Collected res s'))
         | Returned res c' \<Rightarrow> Inr (Collected res (sink c')) | Waiting c' \<Rightarrow> Inr Blocked))
      (case resume_syscall strerror root (la_resume la) of
         Some message \<Rightarrow> Inr (Collected (initial_result\<lparr>collect_error := message\<rparr>) (sink d))
       | None \<Rightarrow> bind_res (wait_loop strerror emit' root ws (asked root 0 d)) (\<lambda>l. case l of
           Finished c' \<Rightarrow> bind_res (conclude request (la_end la) c') (\<lambda>(res, s'). Inr (Collected res s'))
         | Returned res c' \<Rightarrow> Inr (Collected res (sink c')) | Waiting c' \<Rightarrow> Inr Blocked))"
    by (auto split: option.split intro!: bind_related[OF wait_loop_related] loop_end_related)
qed

lemma collect_related:
  assumes "rel s t"
  shows "rel_sum (=) (rel_collect_end rel) (collect strerror emit request la ws s)
    (collect strerror emit' request la ws t)"
  unfolding collect_def Let_def
  using assms by (auto simp: run_tracees_related split: sum.split option.split)

end

end
