(* ===== verification/Sqlite_Client.thy ===== *)
theory Sqlite_Client
  imports Prelude
begin

text \<open>
  The owners of SQLite handles: \<open>Database\<close> and \<open>Statement\<close> (\<open>src/sqlite_store.cpp\<close>),
  \<open>ReadDatabase\<close> and \<open>ReadStatement\<close> (\<open>src/capsule_reader.hpp\<close>).

  SQLite itself is a parameter, the record \<open>sqlite\<close>: which calls fail and with what
  \<open>sqlite3_errmsg\<close>, and what the others do to the connection. A program is a function of a
  \<open>session\<close>, the connection with its prepared statements and the log of the calls made so far;
  it returns a value or an exception and always the session, since destructors run after an
  exception too. That the log is a legal use of the API (no handle is used after it is
  released, every handle is released) is the acceptor \<open>handles_run\<close>.
\<close>

section \<open>The library\<close>

datatype sql_value = Text string | Integer int | Null

text \<open>
  \<open>sq_open\<close>: the failure of \<open>sqlite3_open_v2\<close>, with whether it made a handle all the same.
  \<open>sq_fault n\<close>: the message with which the n-th of the other calls fails for a reason of
  SQLite's own (disk full, locked, corrupt, out of memory), after which it has had no effect;
  \<open>sq_error n\<close>: the text that \<open>sqlite3_exec\<close> returns then, if any. \<open>sq_prepare\<close> is the
  number of parameters of a statement, \<open>sq_exec\<close> and \<open>sq_step\<close> the effect of a script and of
  a statement with its parameters; \<open>sq_step\<close> returns the rows of the result.
\<close>

record 'c sqlite =
  sq_open :: "(bool \<times> string) option"
  sq_fault :: "nat \<Rightarrow> string option"
  sq_error :: "nat \<Rightarrow> string option"
  sq_prepare :: "string \<Rightarrow> string + int"
  sq_exec :: "string \<Rightarrow> 'c \<Rightarrow> string + 'c"
  sq_step :: "string \<Rightarrow> (int \<Rightarrow> sql_value) \<Rightarrow> 'c \<Rightarrow> string + (sql_value list list \<times> 'c)"
  sq_close :: "'c \<Rightarrow> 'c"

text \<open>The calls of the API, as far as they use handles; statements are numbered.\<close>

datatype sql_call =
    Opened string
  | Open_failed string
  | Configured string
  | Executed string
  | Prepared nat string
  | Prepare_failed string
  | Bound nat int sql_value
  | Stepped nat
  | Finalized nat
  | Closed

record stmt =
  st_sql :: string
  st_arity :: int
  st_params :: "int \<Rightarrow> sql_value"
  st_rows :: "sql_value list list option"

record 'c session =
  conn :: 'c
  clock :: nat
  next_stmt :: nat
  stmts :: "nat \<Rightarrow> stmt option"
  calls :: "sql_call list"

definition fresh_session :: "'c \<Rightarrow> 'c session" where
  "fresh_session c = \<lparr>conn = c, clock = 0, next_stmt = 0, stmts = (\<lambda>_. None), calls = []\<rparr>"

definition called :: "sql_call list \<Rightarrow> 'c session \<Rightarrow> 'c session" where
  "called cs s = s\<lparr>clock := clock s + length cs, calls := calls s @ cs\<rparr>"

lemma called_simps [simp]:
  "conn (called cs s) = conn s" "next_stmt (called cs s) = next_stmt s"
  "stmts (called cs s) = stmts s" "calls (called cs s) = calls s @ cs"
  "clock (called cs s) = clock s + length cs"
  by (simp_all add: called_def)

section \<open>Programs that may throw\<close>

type_synonym ('c, 'a) program = "'c session \<Rightarrow> 'a res \<times> 'c session"

definition return :: "'a \<Rightarrow> ('c, 'a) program" where
  "return x s = (Inr x, s)"

definition lift_res :: "'a res \<Rightarrow> ('c, 'a) program" where
  "lift_res r s = (r, s)"

definition bind_sql :: "('c, 'a) program \<Rightarrow> ('a \<Rightarrow> ('c, 'b) program) \<Rightarrow> ('c, 'b) program" where
  "bind_sql m f s =
     (case m s of
        (Inl e, s') \<Rightarrow> (Inl e, s')
      | (Inr x, s') \<Rightarrow> f x s')"

text \<open>A destructor at the end of a scope, and one that runs only when the scope is left by an exception.\<close>

definition at_end :: "('c, 'a) program \<Rightarrow> ('c session \<Rightarrow> 'c session) \<Rightarrow> ('c, 'a) program" where
  "at_end m d s = (case m s of (r, s') \<Rightarrow> (r, d s'))"

definition on_throw :: "('c, 'a) program \<Rightarrow> ('c session \<Rightarrow> 'c session) \<Rightarrow> ('c, 'a) program" where
  "on_throw m d s =
     (case m s of
        (Inl e, s') \<Rightarrow> (Inl e, d s')
      | (Inr x, s') \<Rightarrow> (Inr x, s'))"

lemma return_apply [simp]: "return x s = (Inr x, s)"
  by (simp add: return_def)

lemma lift_res_apply [simp]: "lift_res r s = (r, s)"
  by (simp add: lift_res_def)

lemma bind_sql_apply:
  "m s = (Inl e, s') \<Longrightarrow> bind_sql m f s = (Inl e, s')"
  "m s = (Inr x, s') \<Longrightarrow> bind_sql m f s = f x s'"
  by (simp_all add: bind_sql_def)

lemma at_end_apply [simp]: "at_end m d s = (fst (m s), d (snd (m s)))"
  by (simp add: at_end_def split: prod.split)

section \<open>Owners of handles\<close>

text \<open>A failing call is a \<open>std::runtime_error\<close> with SQLite's message.\<close>

definition open_database ::
  "string \<Rightarrow> sql_call list \<Rightarrow> 'c sqlite \<Rightarrow> string \<Rightarrow> ('c, unit) program" where
  "open_database no_handle settings lib path s =
     (case sq_open lib of
        None \<Rightarrow> (Inr (), called (Opened path # settings) s)
      | Some (has_handle, message) \<Rightarrow>
          (Inl (Runtime_error (if has_handle then message else no_handle)),
           called (if has_handle then [Opened path, Closed] else [Open_failed path]) s))"

definition database :: "'c sqlite \<Rightarrow> string \<Rightarrow> ('c, unit) program" where
  "database =
     open_database ''cannot open SQLite database''
       [Configured ''sqlite3_extended_result_codes'', Configured ''sqlite3_busy_timeout'']"

definition read_database :: "'c sqlite \<Rightarrow> string \<Rightarrow> ('c, unit) program" where
  "read_database = open_database ''cannot open capsule'' []"

definition close_database :: "'c sqlite \<Rightarrow> 'c session \<Rightarrow> 'c session" where
  "close_database lib s = called [Closed] (s\<lparr>conn := sq_close lib (conn s)\<rparr>)"

definition execute_script :: "'c sqlite \<Rightarrow> string \<Rightarrow> ('c, unit) program" where
  "execute_script lib sql s =
     (let s' = called [Executed sql] s in
      case sq_fault lib (clock s) of
        Some message \<Rightarrow>
          (Inl (Runtime_error (case sq_error lib (clock s) of None \<Rightarrow> message | Some e \<Rightarrow> e)), s')
      | None \<Rightarrow>
          (case sq_exec lib sql (conn s) of
             Inl message \<Rightarrow> (Inl (Runtime_error message), s')
           | Inr c \<Rightarrow> (Inr (), s'\<lparr>conn := c\<rparr>)))"

text \<open>The constructor of a statement returns its handle.\<close>

definition prepare :: "'c sqlite \<Rightarrow> string \<Rightarrow> ('c, nat) program" where
  "prepare lib sql s =
     (let failed = (\<lambda>message. (Inl (Runtime_error message), called [Prepare_failed sql] s)) in
      case sq_fault lib (clock s) of
        Some message \<Rightarrow> failed message
      | None \<Rightarrow>
          (case sq_prepare lib sql of
             Inl message \<Rightarrow> failed message
           | Inr n \<Rightarrow>
               let h = next_stmt s in
               (Inr h, (called [Prepared h sql] s)
                  \<lparr>next_stmt := Suc h,
                   stmts := (stmts s)(h := Some \<lparr>st_sql = sql, st_arity = n,
                     st_params = (\<lambda>_. Null), st_rows = None\<rparr>)\<rparr>)))"

definition finalize :: "nat \<Rightarrow> 'c session \<Rightarrow> 'c session" where
  "finalize h s = called [Finalized h] (s\<lparr>stmts := (stmts s)(h := None)\<rparr>)"

text \<open>A call on a statement: it needs the handle, and it may fail.\<close>

definition on_statement ::
  "'c sqlite \<Rightarrow> sql_call \<Rightarrow> nat \<Rightarrow> (stmt \<Rightarrow> 'c \<Rightarrow> string + ('a \<times> stmt \<times> 'c)) \<Rightarrow> ('c, 'a) program"
where
  "on_statement lib call h act s =
     (let s' = called [call] s in
      case sq_fault lib (clock s) of
        Some message \<Rightarrow> (Inl (Runtime_error message), s')
      | None \<Rightarrow>
          (case stmts s h of
             None \<Rightarrow> (Inl (Runtime_error ''bad parameter or other API misuse''), s')
           | Some st \<Rightarrow>
               (case act st (conn s) of
                  Inl message \<Rightarrow> (Inl (Runtime_error message), s')
                | Inr (x, st', c) \<Rightarrow> (Inr x, s'\<lparr>conn := c, stmts := (stmts s)(h := Some st')\<rparr>))))"

text \<open>\<open>Statement::bind\<close> and \<open>Statement::bind_null\<close>.\<close>

definition bind_value :: "'c sqlite \<Rightarrow> nat \<Rightarrow> int \<Rightarrow> sql_value \<Rightarrow> ('c, unit) program" where
  "bind_value lib h index val =
     on_statement lib (Bound h index val) h (\<lambda>st c.
       if 1 \<le> index \<and> index \<le> st_arity st
       then Inr ((), st\<lparr>st_params := (st_params st)(index := val)\<rparr>, c)
       else Inl ''column index out of range'')"

text \<open>\<open>sqlite3_step\<close>: the next row, or \<open>SQLITE_DONE\<close>; the first step runs the statement.\<close>

definition step_statement ::
  "'c sqlite \<Rightarrow> stmt \<Rightarrow> 'c \<Rightarrow> string + (sql_value list option \<times> stmt \<times> 'c)" where
  "step_statement lib st c =
     (let row = (\<lambda>rows c'. case rows of
            [] \<Rightarrow> Inr (None, st\<lparr>st_rows := Some []\<rparr>, c')
          | r # rs \<Rightarrow> Inr (Some r, st\<lparr>st_rows := Some rs\<rparr>, c')) in
      case st_rows st of
        Some rows \<Rightarrow> row rows c
      | None \<Rightarrow>
          (case sq_step lib (st_sql st) (st_params st) c of
             Inl message \<Rightarrow> Inl message
           | Inr (rows, c') \<Rightarrow> row rows c'))"

definition read_next :: "'c sqlite \<Rightarrow> nat \<Rightarrow> ('c, sql_value list option) program" where
  "read_next lib h = on_statement lib (Stepped h) h (step_statement lib)"

text \<open>\<open>Statement::execute\<close>: anything but \<open>SQLITE_DONE\<close> is an error.\<close>

definition step_done :: "'c sqlite \<Rightarrow> nat \<Rightarrow> ('c, unit) program" where
  "step_done lib h =
     bind_sql (read_next lib h) (\<lambda>row.
       lift_res (case row of
           None \<Rightarrow> Inr ()
         | Some r \<Rightarrow> Inl (Runtime_error ''another row available'')))"

text \<open>The scope of a statement.\<close>

definition with_statement ::
  "'c sqlite \<Rightarrow> string \<Rightarrow> (nat \<Rightarrow> ('c, 'a) program) \<Rightarrow> ('c, 'a) program" where
  "with_statement lib sql body =
     bind_sql (prepare lib sql) (\<lambda>h. at_end (body h) (finalize h))"

text \<open>
  The statements of the writer bind their parameters in order, from 1, and are executed once.
  An argument is computed just before it is bound, and computing it may throw.
\<close>

fun bind_all :: "'c sqlite \<Rightarrow> nat \<Rightarrow> int \<Rightarrow> sql_value res list \<Rightarrow> ('c, unit) program" where
  "bind_all lib h i [] = return ()"
| "bind_all lib h i (a # args) =
     bind_sql (lift_res a) (\<lambda>val.
     bind_sql (bind_value lib h i val) (\<lambda>_.
     bind_all lib h (i + 1) args))"

definition run_statement ::
  "'c sqlite \<Rightarrow> string \<Rightarrow> sql_value res list \<Rightarrow> ('c, 'a) program \<Rightarrow> ('c, 'a) program" where
  "run_statement lib sql args rest =
     with_statement lib sql (\<lambda>h.
       bind_sql (bind_all lib h 1 args) (\<lambda>_.
       bind_sql (step_done lib h) (\<lambda>_. rest)))"

section \<open>Legal use of the handles\<close>

text \<open>
  The connection is closed (\<open>None\<close>) or open with its live statements and whether each has been
  stepped. A statement is used only while it is live, parameters are bound before the first
  step, and the connection is closed only when no statement is left (\<open>sqlite3_close\<close> would
  refuse and the handle would leak).
\<close>

type_synonym handles = "(nat \<times> bool) list"

fun handle_step :: "sql_call \<Rightarrow> handles option \<Rightarrow> handles option option" where
  "handle_step (Opened path) None = Some (Some [])"
| "handle_step (Open_failed path) None = Some None"
| "handle_step (Configured setting) (Some hs) = Some (Some hs)"
| "handle_step (Executed sql) (Some hs) = Some (Some hs)"
| "handle_step (Prepared h sql) (Some hs) =
     (if h \<in> fst ` set hs then None else Some (Some ((h, False) # hs)))"
| "handle_step (Prepare_failed sql) (Some hs) = Some (Some hs)"
| "handle_step (Bound h i val) (Some hs) =
     (if map_of hs h = Some False \<and> 1 \<le> i then Some (Some hs) else None)"
| "handle_step (Stepped h) (Some hs) =
     (if h \<in> fst ` set hs
      then Some (Some (map (\<lambda>(k, b). if k = h then (k, True) else (k, b)) hs)) else None)"
| "handle_step (Finalized h) (Some hs) =
     (if h \<in> fst ` set hs then Some (Some (filter (\<lambda>(k, b). k \<noteq> h) hs)) else None)"
| "handle_step Closed (Some []) = Some None"
| "handle_step call st = None"

fun handles_run :: "sql_call list \<Rightarrow> handles option \<Rightarrow> handles option option" where
  "handles_run [] st = Some st"
| "handles_run (c # cs) st = Option.bind (handle_step c st) (handles_run cs)"

lemma handles_run_append:
  "handles_run (cs @ ds) st = Option.bind (handles_run cs st) (handles_run ds)"
  by (induction cs arbitrary: st) (simp_all split: Option.bind_split)

text \<open>The handles that are live after the calls of a session; their numbers are not reused.\<close>

definition live :: "'c session \<Rightarrow> handles \<Rightarrow> bool" where
  "live s hs \<longleftrightarrow> handles_run (calls s) None = Some (Some hs) \<and> (\<forall>h \<in> fst ` set hs. h < next_stmt s)"

lemma live_called:
  assumes "live s hs" "handles_run cs (Some hs) = Some (Some hs')" "fst ` set hs' \<subseteq> fst ` set hs"
  shows "live (called cs s) hs'"
proof -
  have "\<forall>h \<in> fst ` set hs'. h < next_stmt s"
    using assms(1,3) unfolding live_def by blast
  with assms(1,2) show ?thesis by (simp add: live_def handles_run_append)
qed

text \<open>
  A program that releases what it acquires, whatever handles are live around it.
\<close>

definition balanced :: "('c, 'a) program \<Rightarrow> bool" where
  "balanced p \<longleftrightarrow> (\<forall>s hs. live s hs \<longrightarrow> live (snd (p s)) hs)"

named_theorems balanced_intros \<open>programs that release their handles\<close>

lemma balanced_return [balanced_intros]: "balanced (return x)"
  by (simp add: balanced_def)

lemma balanced_lift [balanced_intros]: "balanced (lift_res r)"
  by (simp add: balanced_def)

lemma balanced_bind [balanced_intros]:
  fixes m :: "('c, 'a) program"
  assumes "balanced m" "\<And>x. balanced (f x)"
  shows "balanced (bind_sql m f)"
  unfolding balanced_def
proof (intro allI impI)
  fix s :: "'c session" and hs
  assume l: "live s hs"
  obtain r s' where m: "m s = (r, s')" by (cases "m s")
  then have "live s' hs"
    using assms(1) l by (force simp: balanced_def)
  then show "live (snd (bind_sql m f s)) hs"
    using assms(2) m by (cases r) (auto simp: bind_sql_def balanced_def)
qed

lemma balanced_script [balanced_intros]:
  fixes lib :: "'c sqlite"
  shows "balanced (execute_script lib sql)"
proof -
  have "live s' hs" if "live s hs" "calls s' = calls s @ [Executed sql]" "next_stmt s' = next_stmt s"
    for s s' :: "'c session" and hs
    using that by (simp add: live_def handles_run_append)
  then show ?thesis
    by (simp add: balanced_def execute_script_def Let_def split: option.splits sum.splits)
qed

lemma on_statement_log:
  "calls (snd (on_statement lib call h act s)) = calls s @ [call]"
  "next_stmt (snd (on_statement lib call h act s)) = next_stmt s"
  by (simp_all add: on_statement_def Let_def split: option.splits sum.splits prod.splits)

lemma live_bind_value:
  assumes "live s ((h, False) # hs)" "1 \<le> i"
  shows "live (snd (bind_value lib h i val s)) ((h, False) # hs)"
  using assms by (auto simp: live_def bind_value_def on_statement_log handles_run_append)

lemma live_bind_all:
  assumes "live s ((h, False) # hs)" "1 \<le> i"
  shows "live (snd (bind_all lib h i args s)) ((h, False) # hs)"
  using assms
proof (induction args arbitrary: i s)
  case Nil
  then show ?case by simp
next
  case (Cons a args)
  show ?case
  proof (cases a)
    case (Inl e)
    with Cons.prems show ?thesis by (simp add: bind_sql_def)
  next
    case (Inr val)
    obtain r s' where b: "bind_value lib h i val s = (r, s')"
      by (cases "bind_value lib h i val s")
    then have "live s' ((h, False) # hs)"
      using live_bind_value[OF Cons.prems, of lib val] by simp
    then show ?thesis
      using Inr b Cons.IH[of s' "i + 1"] Cons.prems(2) by (cases r) (simp_all add: bind_sql_def)
  qed
qed

lemma live_step:
  assumes "live s ((h, b) # hs)" "h \<notin> fst ` set hs"
  shows "live (snd (read_next lib h s)) ((h, True) # hs)"
proof -
  have "map (\<lambda>(k, b). if k = h then (k, True) else (k, b)) hs = hs"
    using assms(2) by (intro map_idI) force
  then show ?thesis
    using assms by (auto simp: live_def read_next_def on_statement_log handles_run_append)
qed

lemma live_finalize:
  assumes "live s ((h, b) # hs)" "h \<notin> fst ` set hs"
  shows "live (finalize h s) hs"
proof -
  have "filter (\<lambda>(k, b). k \<noteq> h) hs = hs"
    using assms(2) by (intro filter_True) force
  then show ?thesis
    using assms by (auto simp: live_def finalize_def handles_run_append)
qed

lemma prepare_cases:
  obtains (failed) message where
      "prepare lib sql s = (Inl (Runtime_error message), called [Prepare_failed sql] s)"
  | (prepared) n where "sq_fault lib (clock s) = None" "sq_prepare lib sql = Inr n"
      "prepare lib sql s = (Inr (next_stmt s), (called [Prepared (next_stmt s) sql] s)
         \<lparr>next_stmt := Suc (next_stmt s),
          stmts := (stmts s)(next_stmt s := Some \<lparr>st_sql = sql, st_arity = n,
            st_params = (\<lambda>_. Null), st_rows = None\<rparr>)\<rparr>)"
  by (cases "sq_fault lib (clock s)"; cases "sq_prepare lib sql")
    (auto simp: prepare_def Let_def)

text \<open>The scope of a statement is balanced if its body only works on the statement.\<close>

lemma balanced_statement:
  fixes body :: "nat \<Rightarrow> ('c, 'a) program"
  assumes "\<And>h s hs. live s ((h, False) # hs) \<Longrightarrow> h \<notin> fst ` set hs \<Longrightarrow>
      \<exists>b. live (snd (body h s)) ((h, b) # hs)"
  shows "balanced (with_statement lib sql body)"
  unfolding balanced_def
proof (intro allI impI)
  fix s :: "'c session" and hs
  assume l: "live s hs"
  show "live (snd (with_statement lib sql body s)) hs"
  proof (cases rule: prepare_cases[of lib sql s])
    case (failed message)
    have "live (called [Prepare_failed sql] s) hs"
      using l by (rule live_called) simp_all
    with failed show ?thesis
      by (simp add: with_statement_def bind_sql_def)
  next
    case (prepared n)
    define h s1 where "h = next_stmt s" and "s1 = snd (prepare lib sql s)"
    have fresh: "h \<notin> fst ` set hs"
      using l by (auto simp: live_def h_def)
    have "live s1 ((h, False) # hs)"
      using l fresh by (auto simp: live_def s1_def h_def prepared(3) handles_run_append)
    then obtain b where "live (snd (body h s1)) ((h, b) # hs)"
      using assms fresh by blast
    then have "live (finalize h (snd (body h s1))) hs"
      using fresh by (rule live_finalize)
    then show ?thesis
      using prepared(3)
      by (simp add: with_statement_def bind_sql_def h_def s1_def)
  qed
qed

lemma balanced_run [balanced_intros]:
  fixes rest :: "('c, 'a) program"
  assumes "balanced rest"
  shows "balanced (run_statement lib sql args rest)"
  unfolding run_statement_def
proof (rule balanced_statement)
  fix h hs and s :: "'c session"
  assume l: "live s ((h, False) # hs)" "h \<notin> fst ` set hs"
  let ?body = "bind_sql (bind_all lib h 1 args) (\<lambda>_. bind_sql (step_done lib h) (\<lambda>_. rest))"
  obtain r s1 where b: "bind_all lib h 1 args s = (r, s1)"
    by (cases "bind_all lib h 1 args s")
  then have l1: "live s1 ((h, False) # hs)"
    using live_bind_all[OF l(1), of 1 lib args] by simp
  obtain r' s2 where d: "step_done lib h s1 = (r', s2)"
    by (cases "step_done lib h s1")
  then have "s2 = snd (read_next lib h s1)"
    by (cases "read_next lib h s1") (auto simp: step_done_def bind_sql_def split: sum.splits)
  then have l2: "live s2 ((h, True) # hs)"
    using live_step[OF l1 l(2), of lib] by simp
  have "live (snd (rest s2)) ((h, True) # hs)"
    using assms l2 by (simp add: balanced_def)
  with l1 l2 b d show "\<exists>b. live (snd (?body s)) ((h, b) # hs)"
    by (cases r; cases r') (auto simp: bind_sql_def)
qed

text \<open>A session without a connection, and the connection's own life.\<close>

definition closed :: "'c session \<Rightarrow> bool" where
  "closed s \<longleftrightarrow> handles_run (calls s) None = Some None"

lemma closed_fresh [simp]: "closed (fresh_session c)"
  by (simp add: closed_def fresh_session_def)

lemma open_database_handles:
  assumes "closed s" "open_database no_handle (map Configured settings) lib path s = (r, s')"
  shows "case r of Inl e \<Rightarrow> closed s' | Inr u \<Rightarrow> live s' []"
proof -
  have "handles_run (map Configured settings) (Some []) = Some (Some [])"
    by (induction settings) simp_all
  then show ?thesis
    using assms
    by (auto simp: open_database_def closed_def live_def handles_run_append
        split: option.splits prod.splits if_splits)
qed

lemma read_database_handles:
  assumes "closed s" "read_database lib path s = (r, s')"
  shows "case r of Inl e \<Rightarrow> closed s' | Inr u \<Rightarrow> live s' []"
  using open_database_handles[OF assms(1), of "''cannot open capsule''" "[]" lib path r s'] assms(2)
  by (simp add: read_database_def)

lemma close_database_handles: "live s [] \<Longrightarrow> closed (close_database lib s)"
  by (simp add: live_def closed_def close_database_def handles_run_append)

section \<open>What a statement does\<close>

text \<open>No call fails for a reason of SQLite's own.\<close>

definition no_faults :: "'c sqlite \<Rightarrow> bool" where
  "no_faults lib \<longleftrightarrow> (\<forall>n. sq_fault lib n = None)"

text \<open>The values of the arguments, up to the first that throws, and the parameters they become.\<close>

fun arg_values :: "sql_value res list \<Rightarrow> sql_value list res" where
  "arg_values [] = Inr []"
| "arg_values (a # args) =
     bind_res a (\<lambda>v. bind_res (arg_values args) (\<lambda>vs. Inr (v # vs)))"

fun bound_from :: "int \<Rightarrow> sql_value list \<Rightarrow> (int \<Rightarrow> sql_value) \<Rightarrow> int \<Rightarrow> sql_value" where
  "bound_from i [] p = p"
| "bound_from i (v # vs) p = bound_from (i + 1) vs (p(i := v))"

definition failed_by_fault :: "'c sqlite \<Rightarrow> 'a res \<Rightarrow> bool" where
  "failed_by_fault lib r \<longleftrightarrow> \<not> no_faults lib \<and> (\<exists>message. r = Inl (Runtime_error message))"

lemma bind_value_cases:
  assumes "stmts s h = Some st" "1 \<le> i" "i \<le> st_arity st"
  shows "failed_by_fault lib (fst (bind_value lib h i val s)) \<and>
      conn (snd (bind_value lib h i val s)) = conn s \<or>
    (\<exists>s'. bind_value lib h i val s = (Inr (), s') \<and> conn s' = conn s \<and>
      stmts s' h = Some (st\<lparr>st_params := (st_params st)(i := val)\<rparr>))"
  using assms
  by (cases "sq_fault lib (clock s)")
    (auto simp: bind_value_def on_statement_def failed_by_fault_def no_faults_def Let_def)

lemma bind_all_cases:
  assumes "stmts s h = Some st" "1 \<le> i" "i + int (length args) \<le> st_arity st + 1"
  shows "failed_by_fault lib (fst (bind_all lib h i args s)) \<and>
      conn (snd (bind_all lib h i args s)) = conn s \<or>
    (\<exists>e. arg_values args = Inl e \<and> fst (bind_all lib h i args s) = Inl e \<and>
      conn (snd (bind_all lib h i args s)) = conn s) \<or>
    (\<exists>vs s'. arg_values args = Inr vs \<and> bind_all lib h i args s = (Inr (), s') \<and>
      conn s' = conn s \<and>
      stmts s' h = Some (st\<lparr>st_params := bound_from i vs (st_params st)\<rparr>))"
  using assms
proof (induction args arbitrary: i s st)
  case Nil
  then show ?case by simp
next
  case (Cons a args)
  show ?case
  proof (cases a)
    case (Inl e)
    then show ?thesis by (simp add: bind_sql_def)
  next
    case (Inr val)
    consider (fault) "failed_by_fault lib (fst (bind_value lib h i val s))"
        "conn (snd (bind_value lib h i val s)) = conn s"
      | (ok) s1 where "bind_value lib h i val s = (Inr (), s1)" "conn s1 = conn s"
        "stmts s1 h = Some (st\<lparr>st_params := (st_params st)(i := val)\<rparr>)"
      using bind_value_cases[OF Cons.prems(1,2), of lib val] Cons.prems(3) by auto
    then show ?thesis
    proof cases
      case fault
      then show ?thesis
        using Inr by (cases "bind_value lib h i val s") (auto simp: bind_sql_def failed_by_fault_def)
    next
      case ok
      have step: "bind_all lib h i (a # args) s = bind_all lib h (i + 1) args s1"
        using Inr ok(1) by (simp add: bind_sql_def)
      show ?thesis
        using Cons.IH[OF ok(3), of "i + 1"] Cons.prems(2,3) ok(2) Inr
        unfolding step by (auto simp: fun_upd_def)
    qed
  qed
qed

lemma step_done_cases:
  assumes "stmts s h = Some st" "st_rows st = None"
  shows "failed_by_fault lib (fst (step_done lib h s)) \<and> conn (snd (step_done lib h s)) = conn s \<or>
    (\<exists>m. sq_step lib (st_sql st) (st_params st) (conn s) = Inl m \<and>
      fst (step_done lib h s) = Inl (Runtime_error m) \<and>
      conn (snd (step_done lib h s)) = conn s) \<or>
    (\<exists>r rs c. sq_step lib (st_sql st) (st_params st) (conn s) = Inr (r # rs, c) \<and>
      fst (step_done lib h s) = Inl (Runtime_error ''another row available'')) \<or>
    (\<exists>c. sq_step lib (st_sql st) (st_params st) (conn s) = Inr ([], c) \<and>
      fst (step_done lib h s) = Inr () \<and> conn (snd (step_done lib h s)) = c)"
proof (cases "sq_fault lib (clock s)")
  case (Some message)
  then show ?thesis
    by (simp add: step_done_def bind_sql_def read_next_def on_statement_def failed_by_fault_def
        no_faults_def) force
next
  case None
  note defs = step_done_def bind_sql_def read_next_def on_statement_def step_statement_def Let_def
  show ?thesis
  proof (cases "sq_step lib (st_sql st) (st_params st) (conn s)")
    case (Inl m)
    with None assms show ?thesis by (simp add: defs)
  next
    case (Inr rc)
    obtain rows c where "rc = (rows, c)" by (cases rc)
    with Inr None assms show ?thesis by (cases rows) (simp_all add: defs)
  qed
qed

text \<open>
  A statement of the writer: it fails by a fault or at an argument, both without an effect; its
  execution fails; or it is executed and the rest of its scope runs.
\<close>

lemma run_statement_cases:
  assumes "sq_prepare lib sql = Inr (int (length args))"
  obtains (fault) "failed_by_fault lib (fst (run_statement lib sql args rest s))"
      "conn (snd (run_statement lib sql args rest s)) = conn s"
  | (arg) e where "arg_values args = Inl e" "fst (run_statement lib sql args rest s) = Inl e"
      "conn (snd (run_statement lib sql args rest s)) = conn s"
  | (step) vs m where "arg_values args = Inr vs"
      "sq_step lib sql (bound_from 1 vs (\<lambda>_. Null)) (conn s) = Inl m"
      "fst (run_statement lib sql args rest s) = Inl (Runtime_error m)"
      "conn (snd (run_statement lib sql args rest s)) = conn s"
  | (row) vs r rs c where "arg_values args = Inr vs"
      "sq_step lib sql (bound_from 1 vs (\<lambda>_. Null)) (conn s) = Inr (r # rs, c)"
      "fst (run_statement lib sql args rest s) = Inl (Runtime_error ''another row available'')"
  | (done_step) vs c s1 where "arg_values args = Inr vs"
      "sq_step lib sql (bound_from 1 vs (\<lambda>_. Null)) (conn s) = Inr ([], c)" "conn s1 = c"
      "fst (run_statement lib sql args rest s) = fst (rest s1)"
      "conn (snd (run_statement lib sql args rest s)) = conn (snd (rest s1))"
proof (cases rule: prepare_cases[of lib sql s])
  case (failed message)
  have "sq_fault lib (clock s) \<noteq> None"
    using failed assms by (auto simp: prepare_def Let_def split: option.splits)
  with failed show ?thesis
    by (intro fault) (auto simp: run_statement_def with_statement_def bind_sql_def
        failed_by_fault_def no_faults_def)
next
  case (prepared n)
  define h where "h = next_stmt s"
  define s0 where "s0 = snd (prepare lib sql s)"
  define st where "st = \<lparr>st_sql = sql, st_arity = n, st_params = (\<lambda>_. Null), st_rows = None\<rparr>"
  define body where "body = bind_sql (bind_all lib h 1 args) (\<lambda>_. bind_sql (step_done lib h) (\<lambda>_. rest))"
  have n: "n = int (length args)"
    using prepared(2) assms by simp
  have run: "fst (run_statement lib sql args rest s) = fst (body s0)"
    "conn (snd (run_statement lib sql args rest s)) = conn (snd (body s0))"
    using prepared(3)
    by (simp_all add: run_statement_def with_statement_def bind_sql_def body_def h_def s0_def
        finalize_def)
  have s0: "stmts s0 h = Some st" "conn s0 = conn s"
    by (simp_all add: s0_def h_def st_def prepared(3))
  consider (bfault) "failed_by_fault lib (fst (bind_all lib h 1 args s0))"
      "conn (snd (bind_all lib h 1 args s0)) = conn s0"
    | (barg) e where "arg_values args = Inl e" "fst (bind_all lib h 1 args s0) = Inl e"
      "conn (snd (bind_all lib h 1 args s0)) = conn s0"
    | (bok) vs s1 where "arg_values args = Inr vs" "bind_all lib h 1 args s0 = (Inr (), s1)"
      "conn s1 = conn s0" "stmts s1 h = Some (st\<lparr>st_params := bound_from 1 vs (st_params st)\<rparr>)"
    using bind_all_cases[OF s0(1), of 1 args lib] n by (auto simp: st_def)
  then show ?thesis
  proof cases
    case bfault
    then show ?thesis
      using run s0(2)
      by (intro fault; cases "bind_all lib h 1 args s0")
        (auto simp: body_def bind_sql_def failed_by_fault_def)
  next
    case barg
    then show ?thesis
      using run s0(2) by (intro arg[of e]; cases "bind_all lib h 1 args s0")
        (auto simp: body_def bind_sql_def)
  next
    case bok
    obtain r s2 where d: "step_done lib h s1 = (r, s2)"
      by (cases "step_done lib h s1")
    have body: "body s0 = (case r of Inl e \<Rightarrow> (Inl e, s2) | Inr _ \<Rightarrow> rest s2)"
      using bok(2) d by (simp add: body_def bind_sql_def split: sum.splits)
    show ?thesis
      using step_done_cases[OF bok(4), of lib] d bok(1,3) s0(2) run body
        fault arg step[of vs] row[of vs] done_step[of vs _ s2]
      by (auto simp: st_def failed_by_fault_def)
  qed
qed

lemma script_cases:
  obtains (fault) "failed_by_fault lib (fst (execute_script lib sql s))"
      "isl (fst (execute_script lib sql s))" "conn (snd (execute_script lib sql s)) = conn s"
  | (error) m where "sq_exec lib sql (conn s) = Inl m"
      "fst (execute_script lib sql s) = Inl (Runtime_error m)"
      "conn (snd (execute_script lib sql s)) = conn s"
  | (ok) c s' where "sq_exec lib sql (conn s) = Inr c" "execute_script lib sql s = (Inr (), s')"
      "conn s' = c"
proof (cases "sq_fault lib (clock s)")
  case (Some message)
  then have "\<not> no_faults lib"
    by (auto simp: no_faults_def)
  with Some show ?thesis
    by (intro fault) (simp_all add: execute_script_def failed_by_fault_def Let_def)
next
  case None
  with error ok show ?thesis
    by (cases "sq_exec lib sql (conn s)") (auto simp: execute_script_def Let_def)
qed

end
