(* ===== verification/Sql_Writer.thy ===== *)
theory Sql_Writer
  imports Capsule_Store Sqlite_Client
begin

text \<open>
  \<open>CapsuleWriter::Impl\<close> (\<open>src/sqlite_store.cpp\<close>) call by call: its SQL texts, the parameters
  it binds, in their positions, and the scopes of its statements. What SQLite does with a text
  is the locale \<open>capsule_library\<close>: the table \<open>statement_table\<close> gives each statement's parameter
  types and its effect on the tables, as the SQL documentation reads. In that locale the writer
  is shown to be the one of \<open>Capsule_Store\<close>, as long as no call fails; where one fails, the
  result is an exception and the open transaction is not committed.
\<close>

section \<open>The texts\<close>

definition pragma_sql :: string where
  "pragma_sql =
     ''PRAGMA journal_mode=DELETE; PRAGMA synchronous=FULL;''"

definition begin_sql :: string where
  "begin_sql =
     ''BEGIN IMMEDIATE;''"

definition insert_schema_version_sql :: string where
  "insert_schema_version_sql =
     ''INSERT INTO metadata(key, value) VALUES('' @ single_quoted ''schema_version'' @ '', '' @
     single_quoted ''3'' @ '')''"

definition insert_tool_version_sql :: string where
  "insert_tool_version_sql =
     ''INSERT INTO metadata(key, value) VALUES('' @ single_quoted ''tool_version'' @ '', ?)''"

definition insert_run_sql :: string where
  "insert_run_sql =
     ''INSERT INTO runs(id, mode, command, cwd, start_ns) '' @
     ''VALUES(?, ?, ?, ?, ?)''"

definition rollback_sql :: string where
  "rollback_sql =
     ''ROLLBACK;''"

definition insert_event_sql :: string where
  "insert_event_sql =
     ''INSERT INTO events(timestamp_ns, pid, tid, type, resource, result, '' @
     ''errno_value, metadata_json, command_id) VALUES(?, ?, ?, ?, ?, ?, ?, ?, ?)''"

definition insert_command_sql :: string where
  "insert_command_sql =
     ''INSERT INTO commands(id, sequence, shell_pid, command, cwd, start_ns) '' @
     ''VALUES(?, ?, ?, ?, ?, ?)''"

definition end_command_sql :: string where
  "end_command_sql =
     ''UPDATE commands SET end_ns=?, end_cwd=?, exit_code=? WHERE id=?''"

definition upsert_file_sql :: string where
  "upsert_file_sql =
     ''INSERT INTO file_activity(path, read_calls, write_calls, bytes_read, '' @
     ''bytes_written) VALUES(?, ?, ?, ?, ?) ON CONFLICT(path) DO UPDATE SET '' @
     ''read_calls=read_calls+excluded.read_calls, '' @
     ''write_calls=write_calls+excluded.write_calls, '' @
     ''bytes_read=bytes_read+excluded.bytes_read, '' @
     ''bytes_written=bytes_written+excluded.bytes_written''"

definition upsert_network_sql :: string where
  "upsert_network_sql =
     ''INSERT INTO network_activity(endpoint, connect_count, success_count, '' @
     ''failure_count, last_errno) VALUES(?, 1, ?, ?, ?) '' @
     ''ON CONFLICT(endpoint) DO UPDATE SET '' @
     ''connect_count=connect_count+1, '' @
     ''success_count=success_count+excluded.success_count, '' @
     ''failure_count=failure_count+excluded.failure_count, '' @
     ''last_errno=excluded.last_errno''"

definition upsert_process_sql :: string where
  "upsert_process_sql =
     ''INSERT INTO processes(pid, ppid, executable, start_ns) VALUES(?, ?, ?, ?) '' @
     ''ON CONFLICT(pid) DO UPDATE SET executable=excluded.executable''"

definition insert_process_sql :: string where
  "insert_process_sql =
     ''INSERT OR IGNORE INTO processes(pid, ppid, executable, start_ns) '' @
     ''VALUES(?, ?, ?, ?)''"

definition end_process_sql :: string where
  "end_process_sql =
     ''UPDATE processes SET end_ns=?, exit_code=?, term_signal=? '' @
     ''WHERE pid=?''"

definition end_run_sql :: string where
  "end_run_sql =
     ''UPDATE runs SET end_ns=?, exit_code=?, term_signal=?''"

definition commit_sql :: string where
  "commit_sql =
     ''COMMIT;''"

definition schema_sql :: string where
  "schema_sql = join_lines
     [[],
      ''            CREATE TABLE metadata ('',
      ''                key TEXT PRIMARY KEY,'',
      ''                value TEXT NOT NULL'',
      ''            );'',
      ''            CREATE TABLE runs ('',
      ''                id TEXT PRIMARY KEY,'',
      ''                mode TEXT NOT NULL CHECK(mode IN ('' @ single_quoted ''command'' @
         '', '' @ single_quoted ''session'' @ '')),'',
      ''                command TEXT NOT NULL,'',
      ''                cwd TEXT,'',
      ''                start_ns INTEGER,'',
      ''                end_ns INTEGER,'',
      ''                exit_code INTEGER,'',
      ''                term_signal INTEGER'',
      ''            );'',
      ''            CREATE TABLE commands ('',
      ''                id INTEGER PRIMARY KEY,'',
      ''                sequence INTEGER NOT NULL UNIQUE,'',
      ''                shell_pid INTEGER NOT NULL,'',
      ''                command TEXT NOT NULL,'',
      ''                cwd TEXT,'',
      ''                start_ns INTEGER NOT NULL,'',
      ''                end_ns INTEGER,'',
      ''                end_cwd TEXT,'',
      ''                exit_code INTEGER'',
      ''            );'',
      ''            CREATE TABLE processes ('',
      ''                pid INTEGER PRIMARY KEY,'',
      ''                ppid INTEGER,'',
      ''                executable TEXT,'',
      ''                start_ns INTEGER,'',
      ''                end_ns INTEGER,'',
      ''                exit_code INTEGER,'',
      ''                term_signal INTEGER'',
      ''            );'',
      ''            CREATE TABLE events ('',
      ''                id INTEGER PRIMARY KEY AUTOINCREMENT,'',
      ''                timestamp_ns INTEGER NOT NULL,'',
      ''                pid INTEGER NOT NULL,'',
      ''                tid INTEGER NOT NULL,'',
      ''                type TEXT NOT NULL,'',
      ''                resource TEXT,'',
      ''                result INTEGER,'',
      ''                errno_value INTEGER,'',
      ''                metadata_json TEXT,'',
      ''                command_id INTEGER'',
      ''            );'',
      ''            CREATE TABLE file_activity ('',
      ''                path TEXT PRIMARY KEY,'',
      ''                read_calls INTEGER NOT NULL DEFAULT 0,'',
      ''                write_calls INTEGER NOT NULL DEFAULT 0,'',
      ''                bytes_read INTEGER NOT NULL DEFAULT 0,'',
      ''                bytes_written INTEGER NOT NULL DEFAULT 0'',
      ''            );'',
      ''            CREATE TABLE network_activity ('',
      ''                endpoint TEXT PRIMARY KEY,'',
      ''                connect_count INTEGER NOT NULL DEFAULT 0,'',
      ''                success_count INTEGER NOT NULL DEFAULT 0,'',
      ''                failure_count INTEGER NOT NULL DEFAULT 0,'',
      ''                last_errno INTEGER NOT NULL DEFAULT 0'',
      ''            );'',
      ''            CREATE INDEX events_by_time ON events(timestamp_ns, id);'',
      ''            CREATE INDEX events_by_errno ON events(errno_value);'',
      ''            CREATE INDEX events_by_command ON events(command_id, timestamp_ns, id);'',
      ''            CREATE INDEX commands_by_time ON commands(start_ns, sequence);'',
      ''        '']"

section \<open>What the statements do\<close>

type_synonym params = "int \<Rightarrow> sql_value"

text \<open>Parameters are bound with these types; a statement with others is outside of the model.\<close>

datatype sql_type = INTEGER | TEXT | INTEGER_OR_NULL

fun value_has :: "sql_type \<Rightarrow> sql_value \<Rightarrow> bool" where
  "value_has INTEGER (Integer i) = True"
| "value_has TEXT (Text s) = True"
| "value_has INTEGER_OR_NULL (Integer i) = True"
| "value_has INTEGER_OR_NULL Null = True"
| "value_has t v = False"

fun params_have :: "int \<Rightarrow> sql_type list \<Rightarrow> params \<Rightarrow> bool" where
  "params_have i [] p = True"
| "params_have i (t # ts) p = (value_has t (p i) \<and> params_have (i + 1) ts p)"

fun integer_of :: "sql_value \<Rightarrow> int" where
  "integer_of (Integer i) = i"
| "integer_of v = 0"

fun text_of :: "sql_value \<Rightarrow> string" where
  "text_of (Text s) = s"
| "text_of v = []"

fun nullable_of :: "sql_value \<Rightarrow> int option" where
  "nullable_of (Integer i) = Some i"
| "nullable_of v = None"

type_synonym table_effect = "params \<Rightarrow> capsule \<Rightarrow> string + capsule"

definition insert_metadata :: "string \<Rightarrow> string \<Rightarrow> capsule \<Rightarrow> string + capsule" where
  "insert_metadata k v db =
     (if k \<in> fst ` set (t_metadata db) then Inl ''UNIQUE constraint failed: metadata.key''
      else Inr (db\<lparr>t_metadata := t_metadata db @ [(k, v)]\<rparr>))"

definition insert_run :: table_effect where
  "insert_run p db =
     (if text_of (p 1) \<in> run_id ` set (t_runs db) then Inl ''UNIQUE constraint failed: runs.id''
      else if text_of (p 2) \<notin> {''command'', ''session''} then
        Inl (''CHECK constraint failed: mode IN ('' @ single_quoted ''command'' @ '', '' @
          single_quoted ''session'' @ '')'')
      else Inr (db\<lparr>t_runs := t_runs db @
        [\<lparr>run_id = text_of (p 1), run_mode_text = text_of (p 2), run_command = text_of (p 3),
          run_cwd = text_of (p 4), run_start_ns = integer_of (p 5), run_end_ns = None,
          run_exit_code = None, run_term_signal = None\<rparr>]\<rparr>))"

definition insert_event :: table_effect where
  "insert_event p db =
     Inr (db\<lparr>t_events := t_events db @
       [\<lparr>er_id = Suc (length (t_events db)), er_timestamp_ns = integer_of (p 1),
         er_pid = integer_of (p 2), er_tid = integer_of (p 3), er_type = text_of (p 4),
         er_resource = text_of (p 5), er_result = integer_of (p 6), er_errno = integer_of (p 7),
         er_metadata_json = text_of (p 8), er_command_id = nullable_of (p 9)\<rparr>]\<rparr>)"

definition start_command :: table_effect where
  "start_command p db =
     (case insert_command
         \<lparr>c_id = integer_of (p 1), c_sequence = integer_of (p 2), c_shell_pid = integer_of (p 3),
          c_command = text_of (p 4), c_cwd = text_of (p 5), c_start_ns = integer_of (p 6),
          c_end_ns = None, c_end_cwd = None, c_exit_code = None\<rparr> db of
        Inl e \<Rightarrow> Inl (what e)
      | Inr db' \<Rightarrow> Inr db')"

definition end_command :: table_effect where
  "end_command p db =
     Inr (db\<lparr>t_commands :=
       update_where (\<lambda>c. c_id c = integer_of (p 4))
         (\<lambda>c. c\<lparr>c_end_ns := Some (integer_of (p 1)), c_end_cwd := Some (text_of (p 2)),
                c_exit_code := Some (integer_of (p 3))\<rparr>)
         (t_commands db)\<rparr>)"

definition upsert_file :: table_effect where
  "upsert_file p db =
     Inr (db\<lparr>t_files :=
       upsert f_path file_merge
         \<lparr>f_path = text_of (p 1), read_calls = integer_of (p 2), write_calls = integer_of (p 3),
          bytes_read = integer_of (p 4), bytes_written = integer_of (p 5)\<rparr> (t_files db)\<rparr>)"

definition upsert_network :: table_effect where
  "upsert_network p db =
     Inr (db\<lparr>t_network :=
       upsert n_endpoint network_merge
         \<lparr>n_endpoint = text_of (p 1), connect_count = 1, success_count = integer_of (p 2),
          failure_count = integer_of (p 3), last_errno = integer_of (p 4)\<rparr> (t_network db)\<rparr>)"

definition process_of :: "params \<Rightarrow> process_row" where
  "process_of p =
     \<lparr>pr_pid = integer_of (p 1), pr_ppid = integer_of (p 2), pr_executable = text_of (p 3),
      pr_start_ns = integer_of (p 4), pr_end_ns = None, pr_exit_code = None,
      pr_term_signal = None\<rparr>"

definition upsert_process :: table_effect where
  "upsert_process p db =
     Inr (db\<lparr>t_processes := upsert pr_pid exec_merge (process_of p) (t_processes db)\<rparr>)"

definition insert_process_row :: table_effect where
  "insert_process_row p db =
     Inr (db\<lparr>t_processes := upsert pr_pid (\<lambda>old _. old) (process_of p) (t_processes db)\<rparr>)"

definition end_process :: table_effect where
  "end_process p db =
     Inr (db\<lparr>t_processes :=
       update_where (\<lambda>r. pr_pid r = integer_of (p 4))
         (\<lambda>r. r\<lparr>pr_end_ns := Some (integer_of (p 1)), pr_exit_code := Some (integer_of (p 2)),
                pr_term_signal := Some (integer_of (p 3))\<rparr>)
         (t_processes db)\<rparr>)"

definition end_run :: table_effect where
  "end_run p db =
     Inr (db\<lparr>t_runs :=
       update_where (\<lambda>_. True)
         (\<lambda>r. r\<lparr>run_end_ns := Some (integer_of (p 1)), run_exit_code := Some (integer_of (p 2)),
                run_term_signal := Some (integer_of (p 3))\<rparr>)
         (t_runs db)\<rparr>)"

definition statement_table :: "(string \<times> sql_type list \<times> table_effect) list" where
  "statement_table =
     [(insert_event_sql, [INTEGER, INTEGER, INTEGER, TEXT, TEXT, INTEGER, INTEGER, TEXT,
         INTEGER_OR_NULL], insert_event),
      (insert_command_sql, [INTEGER, INTEGER, INTEGER, TEXT, TEXT, INTEGER], start_command),
      (end_command_sql, [INTEGER, TEXT, INTEGER, INTEGER], end_command),
      (upsert_file_sql, [TEXT, INTEGER, INTEGER, INTEGER, INTEGER], upsert_file),
      (upsert_network_sql, [TEXT, INTEGER, INTEGER, INTEGER], upsert_network),
      (upsert_process_sql, [INTEGER, INTEGER, TEXT, INTEGER], upsert_process),
      (insert_process_sql, [INTEGER, INTEGER, TEXT, INTEGER], insert_process_row),
      (end_process_sql, [INTEGER, INTEGER, INTEGER, INTEGER], end_process),
      (end_run_sql, [INTEGER, INTEGER, INTEGER], end_run),
      (insert_run_sql, [TEXT, TEXT, TEXT, TEXT, INTEGER], insert_run),
      (insert_schema_version_sql, [], \<lambda>p. insert_metadata ''schema_version'' ''3''),
      (insert_tool_version_sql, [TEXT], \<lambda>p. insert_metadata ''tool_version'' (text_of (p 1)))]"

definition effect_of :: "sql_type list \<Rightarrow> table_effect \<Rightarrow> table_effect" where
  "effect_of ts eff p db =
     (if params_have 1 ts p then eff p db else Inl ''datatype mismatch'')"

section \<open>The writer, call by call\<close>

text \<open>The constructor: an exception after the database is open closes it again.\<close>

definition constructor_statements :: "'c sqlite \<Rightarrow> string \<Rightarrow> run_metadata \<Rightarrow> ('c, unit) program" where
  "constructor_statements lib tool_version run =
     bind_sql (execute_script lib pragma_sql) (\<lambda>_.
     bind_sql (execute_script lib schema_sql) (\<lambda>_.
     bind_sql (execute_script lib begin_sql) (\<lambda>_.
     bind_sql (run_statement lib insert_schema_version_sql [] (return ())) (\<lambda>_.
     bind_sql (run_statement lib insert_tool_version_sql [Inr (Text tool_version)] (return ()))
       (\<lambda>_.
     run_statement lib insert_run_sql
       [Inr (Text (rm_id run)), Inr (Text (run_mode_name (rm_mode run))),
        Inr (Text (format_command (rm_command run))), Inr (Text (rm_cwd run)),
        Inr (Integer (as_i64 (rm_start_ns run)))] (return ()))))))"

definition sql_open_writer ::
  "'c sqlite \<Rightarrow> string \<Rightarrow> string \<Rightarrow> run_metadata \<Rightarrow> ('c, unit) program" where
  "sql_open_writer lib path tool_version run =
     bind_sql (database lib path) (\<lambda>_.
       on_throw (constructor_statements lib tool_version run) (close_database lib))"

text \<open>\<open>std::stoll\<close> of a metadata value as an argument.\<close>

definition integer_metadata :: "event \<Rightarrow> string \<Rightarrow> string \<Rightarrow> sql_value res" where
  "integer_metadata e k fallback =
     bind_res (stoll (metadata_value e k fallback)) (\<lambda>i. Inr (Integer i))"

definition sql_command_start :: "'c sqlite \<Rightarrow> event \<Rightarrow> ('c, unit) program" where
  "sql_command_start lib e =
     (case ev_command_id e of
        None \<Rightarrow> lift_res (Inl (Logic_error ''command_start event has no command id''))
      | Some cid \<Rightarrow>
          run_statement lib insert_command_sql
            [Inr (Integer (as_i64 cid)), integer_metadata e ''sequence'' ''0'',
             Inr (Integer (ev_pid e)), Inr (Text (resource e)),
             Inr (Text (metadata_value e ''cwd'' [])), Inr (Integer (as_i64 (timestamp_ns e)))]
            (return ()))"

definition sql_command_end :: "'c sqlite \<Rightarrow> event \<Rightarrow> ('c, unit) program" where
  "sql_command_end lib e =
     (case ev_command_id e of
        None \<Rightarrow> lift_res (Inl (Logic_error ''command_end event has no command id''))
      | Some cid \<Rightarrow>
          run_statement lib end_command_sql
            [Inr (Integer (as_i64 (timestamp_ns e))), Inr (Text (metadata_value e ''cwd'' [])),
             Inr (Integer (ev_result e)), Inr (Integer (as_i64 cid))] (return ()))"

definition sql_file_activity :: "'c sqlite \<Rightarrow> event \<Rightarrow> ('c, unit) program" where
  "sql_file_activity lib e =
     (let is_read = (ev_type e = FileRead); bytes = max 0 (ev_result e) in
      run_statement lib upsert_file_sql
        [Inr (Text (resource e)), Inr (Integer (if is_read then 1 else 0)),
         Inr (Integer (if is_read then 0 else 1)), Inr (Integer (if is_read then bytes else 0)),
         Inr (Integer (if is_read then 0 else bytes))] (return ()))"

definition sql_network :: "'c sqlite \<Rightarrow> event \<Rightarrow> ('c, unit) program" where
  "sql_network lib e =
     run_statement lib upsert_network_sql
       [Inr (Text (resource e)), Inr (Integer (if errno_value e = 0 then 1 else 0)),
        Inr (Integer (if errno_value e = 0 then 0 else 1)), Inr (Integer (errno_value e))]
       (return ())"

definition sql_exec_event :: "'c sqlite \<Rightarrow> event \<Rightarrow> ('c, unit) program" where
  "sql_exec_event lib e =
     run_statement lib upsert_process_sql
       [Inr (Integer (ev_pid e)), integer_metadata e ''ppid'' ''0'', Inr (Text (resource e)),
        Inr (Integer (as_i64 (timestamp_ns e)))] (return ())"

definition sql_fork_event :: "'c sqlite \<Rightarrow> event \<Rightarrow> ('c, unit) program" where
  "sql_fork_event lib e =
     run_statement lib insert_process_sql
       [integer_metadata e ''child_pid'' ''0'', Inr (Integer (ev_pid e)),
        Inr (Text (metadata_value e ''executable'' ''<unknown>'')),
        Inr (Integer (as_i64 (timestamp_ns e)))] (return ())"

definition sql_exit_event :: "'c sqlite \<Rightarrow> event \<Rightarrow> ('c, unit) program" where
  "sql_exit_event lib e =
     run_statement lib end_process_sql
       [Inr (Integer (as_i64 (timestamp_ns e))), integer_metadata e ''exit_code'' ''-1'',
        integer_metadata e ''term_signal'' ''0'', Inr (Integer (ev_pid e))] (return ())"

text \<open>\<open>emit\<close>: the statement of the event row lives to the end of the function.\<close>

definition sql_emit :: "'c sqlite \<Rightarrow> event \<Rightarrow> ('c, unit) program" where
  "sql_emit lib e =
     run_statement lib insert_event_sql
       [Inr (Integer (as_i64 (timestamp_ns e))), Inr (Integer (ev_pid e)),
        Inr (Integer (ev_tid e)), Inr (Text (event_type_name (ev_type e))),
        Inr (Text (resource e)), Inr (Integer (ev_result e)), Inr (Integer (errno_value e)),
        Inr (Text (metadata_json (metadata e))),
        Inr (case ev_command_id e of None \<Rightarrow> Null | Some cid \<Rightarrow> Integer (as_i64 cid))]
       (case ev_type e of
          CommandStart \<Rightarrow> sql_command_start lib e
        | CommandEnd \<Rightarrow> sql_command_end lib e
        | FileRead \<Rightarrow> sql_file_activity lib e
        | FileWrite \<Rightarrow> sql_file_activity lib e
        | NetworkConnect \<Rightarrow> sql_network lib e
        | ProcessExec \<Rightarrow> sql_exec_event lib e
        | ProcessFork \<Rightarrow> sql_fork_event lib e
        | ProcessExit \<Rightarrow> sql_exit_event lib e
        | _ \<Rightarrow> return ())"

definition sql_finish :: "'c sqlite \<Rightarrow> bool \<Rightarrow> collection_result \<Rightarrow> ('c, unit) program" where
  "sql_finish lib is_finished result =
     (if is_finished then lift_res (Inl (Logic_error ''capsule has already been finalized''))
      else
        run_statement lib end_run_sql
          [Inr (Integer (as_i64 (end_ns result))), Inr (Integer (exit_code result)),
           Inr (Integer (term_signal result))]
          (execute_script lib commit_sql))"

text \<open>The destructor; an exception of the ROLLBACK is swallowed.\<close>

definition sql_destroy :: "'c sqlite \<Rightarrow> bool \<Rightarrow> 'c session \<Rightarrow> 'c session" where
  "sql_destroy lib is_finished s =
     close_database lib (if is_finished then s else snd (execute_script lib rollback_sql s))"

section \<open>The interface to SQLite\<close>

text \<open>
  What a connection shows: the tables as the connection sees them, those that are committed,
  and whether a transaction is open. Outside of a transaction a statement commits itself.
\<close>

record connection =
  visible :: capsule
  committed :: capsule
  in_transaction :: bool

definition put_tables :: "capsule \<Rightarrow> connection \<Rightarrow> connection" where
  "put_tables db v =
     v\<lparr>visible := db, committed := (if in_transaction v then committed v else db)\<rparr>"

lemma put_tables_simps [simp]:
  "visible (put_tables db v) = db" "in_transaction (put_tables db v) = in_transaction v"
  "put_tables db' (put_tables db v) = put_tables db' v"
  "in_transaction v \<Longrightarrow> committed (put_tables db v) = committed v"
  by (simp_all add: put_tables_def)

text \<open>
  How a program of the writer ends when the tables should become those of \<open>expected\<close>: by a
  fault, or as expected. An exception leaves at most uncommitted changes.
\<close>

definition ends_with ::
  "'c sqlite \<Rightarrow> ('c \<Rightarrow> connection) \<Rightarrow> connection \<Rightarrow> capsule res \<Rightarrow> unit res \<times> 'c session \<Rightarrow> bool" where
  "ends_with lib view v expected r \<longleftrightarrow>
     (failed_by_fault lib (fst r) \<or>
        (case expected of
           Inl e \<Rightarrow> fst r = Inl e
         | Inr db \<Rightarrow> fst r = Inr () \<and> view (conn (snd r)) = put_tables db v)) \<and>
     (isl (fst r) \<longrightarrow> view (conn (snd r)) = v \<or> (\<exists>db. view (conn (snd r)) = put_tables db v))"

lemma ends_with_after:
  assumes "ends_with lib view (put_tables db v) expected r"
  shows "ends_with lib view v expected r"
  using assms by (auto simp: ends_with_def split: sum.splits)

lemma ends_with_cong:
  assumes "fst r = fst r'" "conn (snd r) = conn (snd r')"
  shows "ends_with lib view v expected r \<longleftrightarrow> ends_with lib view v expected r'"
  by (simp only: ends_with_def assms)

lemma failed_isl: "failed_by_fault lib r \<Longrightarrow> isl r"
  by (auto simp: failed_by_fault_def)

text \<open>The tables that a statement of the table makes, as a result.\<close>

definition table_result ::
  "sql_type list \<Rightarrow> table_effect \<Rightarrow> sql_value res list \<Rightarrow> capsule \<Rightarrow> capsule res" where
  "table_result ts eff args db =
     bind_res (arg_values args) (\<lambda>vs.
       case effect_of ts eff (bound_from 1 vs (\<lambda>_. Null)) db of
         Inl m \<Rightarrow> Inl (Runtime_error m)
       | Inr db' \<Rightarrow> Inr db')"

lemma in_statement_table:
  "(insert_event_sql, [INTEGER, INTEGER, INTEGER, TEXT, TEXT, INTEGER, INTEGER, TEXT, INTEGER_OR_NULL], insert_event) \<in> set statement_table"
  "(insert_command_sql, [INTEGER, INTEGER, INTEGER, TEXT, TEXT, INTEGER], start_command) \<in> set statement_table"
  "(end_command_sql, [INTEGER, TEXT, INTEGER, INTEGER], end_command) \<in> set statement_table"
  "(upsert_file_sql, [TEXT, INTEGER, INTEGER, INTEGER, INTEGER], upsert_file) \<in> set statement_table"
  "(upsert_network_sql, [TEXT, INTEGER, INTEGER, INTEGER], upsert_network) \<in> set statement_table"
  "(upsert_process_sql, [INTEGER, INTEGER, TEXT, INTEGER], upsert_process) \<in> set statement_table"
  "(insert_process_sql, [INTEGER, INTEGER, TEXT, INTEGER], insert_process_row) \<in> set statement_table"
  "(end_process_sql, [INTEGER, INTEGER, INTEGER, INTEGER], end_process) \<in> set statement_table"
  "(end_run_sql, [INTEGER, INTEGER, INTEGER], end_run) \<in> set statement_table"
  "(insert_run_sql, [TEXT, TEXT, TEXT, TEXT, INTEGER], insert_run) \<in> set statement_table"
  "(insert_schema_version_sql, [], \<lambda>p. insert_metadata ''schema_version'' ''3'') \<in> set statement_table"
  "(insert_tool_version_sql, [TEXT], \<lambda>p. insert_metadata ''tool_version'' (text_of (p 1))) \<in> set statement_table"
  by (simp_all add: statement_table_def)

lemmas sql_effects = table_result_def effect_of_def integer_metadata_def bind_res_assoc

lemma table_result_event:
  "table_result [INTEGER, INTEGER, INTEGER, TEXT, TEXT, INTEGER, INTEGER, TEXT, INTEGER_OR_NULL]
     insert_event
     [Inr (Integer (as_i64 (timestamp_ns e))), Inr (Integer (ev_pid e)),
      Inr (Integer (ev_tid e)), Inr (Text (event_type_name (ev_type e))),
      Inr (Text (resource e)), Inr (Integer (ev_result e)), Inr (Integer (errno_value e)),
      Inr (Text (metadata_json (metadata e))),
      Inr (case ev_command_id e of None \<Rightarrow> Null | Some cid \<Rightarrow> Integer (as_i64 cid))] db =
   Inr (insert_event_row e db)"
  by (cases "ev_command_id e")
    (simp_all add: sql_effects insert_event_def insert_event_row_def)

lemma table_result_start:
  "ev_command_id e = Some cid \<Longrightarrow>
   table_result [INTEGER, INTEGER, INTEGER, TEXT, TEXT, INTEGER] start_command
     [Inr (Integer (as_i64 cid)), integer_metadata e ''sequence'' ''0'',
      Inr (Integer (ev_pid e)), Inr (Text (resource e)),
      Inr (Text (metadata_value e ''cwd'' [])), Inr (Integer (as_i64 (timestamp_ns e)))] db =
   store_command_start e db"
  by (cases "stoll (metadata_value e ''sequence'' ''0'')")
    (auto simp: sql_effects start_command_def store_command_start_def insert_command_def
      metadata_value_def)

lemma table_result_end:
  "ev_command_id e = Some cid \<Longrightarrow>
   table_result [INTEGER, TEXT, INTEGER, INTEGER] end_command
     [Inr (Integer (as_i64 (timestamp_ns e))), Inr (Text (metadata_value e ''cwd'' [])),
      Inr (Integer (ev_result e)), Inr (Integer (as_i64 cid))] db =
   store_command_end e db"
  by (simp add: sql_effects end_command_def store_command_end_def metadata_value_def)

lemma table_result_file:
  "table_result [TEXT, INTEGER, INTEGER, INTEGER, INTEGER] upsert_file
     [Inr (Text (resource e)), Inr (Integer (if ev_type e = FileRead then 1 else 0)),
      Inr (Integer (if ev_type e = FileRead then 0 else 1)),
      Inr (Integer (if ev_type e = FileRead then max 0 (ev_result e) else 0)),
      Inr (Integer (if ev_type e = FileRead then 0 else max 0 (ev_result e)))] db =
   Inr (store_file_activity e db)"
  by (simp add: sql_effects upsert_file_def store_file_activity_def file_row_of_def Let_def)

lemma table_result_network:
  "table_result [TEXT, INTEGER, INTEGER, INTEGER] upsert_network
     [Inr (Text (resource e)), Inr (Integer (if errno_value e = 0 then 1 else 0)),
      Inr (Integer (if errno_value e = 0 then 0 else 1)), Inr (Integer (errno_value e))] db =
   Inr (store_network e db)"
  by (simp add: sql_effects upsert_network_def store_network_def network_row_of_def)

lemma table_result_exec:
  "table_result [INTEGER, INTEGER, TEXT, INTEGER] upsert_process
     [Inr (Integer (ev_pid e)), integer_metadata e ''ppid'' ''0'', Inr (Text (resource e)),
      Inr (Integer (as_i64 (timestamp_ns e)))] db = store_exec e db"
  by (cases "stoll (metadata_value e ''ppid'' ''0'')")
    (simp_all add: sql_effects upsert_process_def store_exec_def process_of_def new_process_def)

lemma table_result_fork:
  "table_result [INTEGER, INTEGER, TEXT, INTEGER] insert_process_row
     [integer_metadata e ''child_pid'' ''0'', Inr (Integer (ev_pid e)),
      Inr (Text (metadata_value e ''executable'' ''<unknown>'')),
      Inr (Integer (as_i64 (timestamp_ns e)))] db = store_fork e db"
  by (cases "stoll (metadata_value e ''child_pid'' ''0'')")
    (simp_all add: sql_effects insert_process_row_def store_fork_def process_of_def new_process_def)

lemma table_result_exit:
  "table_result [INTEGER, INTEGER, INTEGER, INTEGER] end_process
     [Inr (Integer (as_i64 (timestamp_ns e))), integer_metadata e ''exit_code'' ''-1'',
      integer_metadata e ''term_signal'' ''0'', Inr (Integer (ev_pid e))] db = store_exit e db"
  by (cases "stoll (metadata_value e ''exit_code'' ''-1'')";
      cases "stoll (metadata_value e ''term_signal'' ''0'')")
    (simp_all add: sql_effects end_process_def store_exit_def)

locale capsule_library =
  fixes lib :: "'c sqlite"
    and view :: "'c \<Rightarrow> connection"
  assumes prepares: "(sql, ts, eff) \<in> set statement_table \<Longrightarrow> sq_prepare lib sql = Inr (int (length ts))"
    and steps: "(sql, ts, eff) \<in> set statement_table \<Longrightarrow>
      (case effect_of ts eff p (visible (view c)) of
         Inl m \<Rightarrow> sq_step lib sql p c = Inl m
       | Inr db \<Rightarrow> \<exists>c'. sq_step lib sql p c = Inr ([], c') \<and> view c' = put_tables db (view c))"
    and settings: "\<exists>c'. sq_exec lib pragma_sql c = Inr c' \<and> view c' = view c"
    and creates: "\<not> in_transaction (view c) \<Longrightarrow>
      \<exists>c'. sq_exec lib schema_sql c = Inr c' \<and> view c' = put_tables empty_tables (view c)"
    and begins: "\<not> in_transaction (view c) \<Longrightarrow>
      \<exists>c'. sq_exec lib begin_sql c = Inr c' \<and> view c' = (view c)\<lparr>in_transaction := True\<rparr>"
    and commits: "in_transaction (view c) \<Longrightarrow>
      \<exists>c'. sq_exec lib commit_sql c = Inr c' \<and>
        view c' = (view c)\<lparr>committed := visible (view c), in_transaction := False\<rparr>"
    and rolls_back: "in_transaction (view c) \<Longrightarrow>
      \<exists>c'. sq_exec lib rollback_sql c = Inr c' \<and>
        view c' = (view c)\<lparr>visible := committed (view c), in_transaction := False\<rparr>"
    and closes: "committed (view (sq_close lib c)) = committed (view c)"
begin

text \<open>A statement of the table, with the rest of its scope.\<close>

lemma run_table_statement:
  fixes rest :: "('c, 'a) program" and s :: "'c session"
  assumes "(sql, ts, eff) \<in> set statement_table" "length args = length ts"
  defines "r \<equiv> run_statement lib sql args rest s"
  shows "(failed_by_fault lib (fst r) \<and> view (conn (snd r)) = view (conn s)) \<or>
    (case arg_values args of
       Inl e \<Rightarrow> fst r = Inl e \<and> view (conn (snd r)) = view (conn s)
     | Inr vs \<Rightarrow>
         (case effect_of ts eff (bound_from 1 vs (\<lambda>_. Null)) (visible (view (conn s))) of
            Inl m \<Rightarrow> fst r = Inl (Runtime_error m) \<and> view (conn (snd r)) = view (conn s)
          | Inr db \<Rightarrow>
              (\<exists>s1. view (conn s1) = put_tables db (view (conn s)) \<and> fst r = fst (rest s1) \<and>
                 conn (snd r) = conn (snd (rest s1)))))"
proof -
  have prep: "sq_prepare lib sql = Inr (int (length args))"
    using prepares[OF assms(1)] assms(2) by simp
  note st = steps[OF assms(1), of _ "conn s"]
  from prep show ?thesis
    unfolding r_def
    by (cases rule: run_statement_cases[where rest = rest and s = s])
      (use st in \<open>fastforce split: sum.splits\<close>)+
qed

lemma run_then:
  assumes "(sql, ts, eff) \<in> set statement_table" "length args = length ts"
    and "\<And>db s1. table_result ts eff args (visible (view (conn s))) = Inr db \<Longrightarrow>
      view (conn s1) = put_tables db (view (conn s)) \<Longrightarrow>
      ends_with lib view (view (conn s1)) (f db) (rest s1)"
  shows "ends_with lib view (view (conn s))
    (bind_res (table_result ts eff args (visible (view (conn s)))) f) (run_statement lib sql args rest s)"
proof -
  let ?r = "run_statement lib sql args rest s"
  note run = run_table_statement[OF assms(1,2), of rest s]
  show ?thesis
  proof (cases "table_result ts eff args (visible (view (conn s)))")
    case (Inl e)
    then have "(failed_by_fault lib (fst ?r) \<or> fst ?r = Inl e) \<and> view (conn (snd ?r)) = view (conn s)"
      using run by (auto simp: table_result_def bind_res_def split: sum.splits)
    with Inl show ?thesis by (auto simp: ends_with_def)
  next
    case (Inr db)
    then have "(failed_by_fault lib (fst ?r) \<and> view (conn (snd ?r)) = view (conn s)) \<or>
        (\<exists>s1. view (conn s1) = put_tables db (view (conn s)) \<and> fst ?r = fst (rest s1) \<and>
          conn (snd ?r) = conn (snd (rest s1)))"
      using run by (auto simp: table_result_def bind_res_def split: sum.splits)
    then show ?thesis
    proof
      assume "failed_by_fault lib (fst ?r) \<and> view (conn (snd ?r)) = view (conn s)"
      with Inr show ?thesis by (auto simp: ends_with_def)
    next
      assume "\<exists>s1. view (conn s1) = put_tables db (view (conn s)) \<and> fst ?r = fst (rest s1) \<and>
          conn (snd ?r) = conn (snd (rest s1))"
      then obtain s1 where s1: "view (conn s1) = put_tables db (view (conn s))"
          "fst ?r = fst (rest s1)" "conn (snd ?r) = conn (snd (rest s1))"
        by blast
      have "ends_with lib view (put_tables db (view (conn s))) (f db) (rest s1)"
        using assms(3)[OF Inr s1(1)] s1(1) by simp
      then have "ends_with lib view (view (conn s)) (f db) (rest s1)"
        by (rule ends_with_after)
      with Inr show ?thesis by (simp add: ends_with_cong[OF s1(2,3)])
    qed
  qed
qed

lemma run_last:
  assumes "(sql, ts, eff) \<in> set statement_table" "length args = length ts"
  shows "ends_with lib view (view (conn s)) (table_result ts eff args (visible (view (conn s))))
    (run_statement lib sql args (return ()) s)"
proof -
  have "ends_with lib view (view (conn s))
      (bind_res (table_result ts eff args (visible (view (conn s)))) Inr)
      (run_statement lib sql args (return ()) s)"
    by (rule run_then[OF assms]) (auto simp: ends_with_def put_tables_def)
  then show ?thesis
    by (cases "table_result ts eff args (visible (view (conn s)))") simp_all
qed

lemma throws: "ends_with lib view (view (conn s)) (Inl e) (lift_res (Inl e) s)"
  by (simp add: ends_with_def)

lemma command_start_ends:
  "ends_with lib view (view (conn s)) (store_command_start e (visible (view (conn s))))
     (sql_command_start lib e s)"
proof (cases "ev_command_id e")
  case None
  then show ?thesis using throws by (simp add: sql_command_start_def store_command_start_def)
next
  case (Some cid)
  show ?thesis
    unfolding sql_command_start_def Some option.case table_result_start[OF Some, symmetric]
    by (rule run_last[OF in_statement_table(2)]) simp
qed

lemma command_end_ends:
  "ends_with lib view (view (conn s)) (store_command_end e (visible (view (conn s))))
     (sql_command_end lib e s)"
proof (cases "ev_command_id e")
  case None
  then show ?thesis using throws by (simp add: sql_command_end_def store_command_end_def)
next
  case (Some cid)
  show ?thesis
    unfolding sql_command_end_def Some option.case table_result_end[OF Some, symmetric]
    by (rule run_last[OF in_statement_table(3)]) simp
qed

lemma event_statement_ends:
  "ends_with lib view (view (conn s)) (Inr (store_file_activity e (visible (view (conn s)))))
     (sql_file_activity lib e s)"
  "ends_with lib view (view (conn s)) (Inr (store_network e (visible (view (conn s)))))
     (sql_network lib e s)"
  "ends_with lib view (view (conn s)) (store_exec e (visible (view (conn s)))) (sql_exec_event lib e s)"
  "ends_with lib view (view (conn s)) (store_fork e (visible (view (conn s)))) (sql_fork_event lib e s)"
  "ends_with lib view (view (conn s)) (store_exit e (visible (view (conn s)))) (sql_exit_event lib e s)"
  unfolding sql_file_activity_def sql_network_def sql_exec_event_def sql_fork_event_def
    sql_exit_event_def Let_def table_result_file[symmetric] table_result_network[symmetric]
    table_result_exec[symmetric] table_result_fork[symmetric] table_result_exit[symmetric]
  by (rule run_last[OF in_statement_table(4)], simp, rule run_last[OF in_statement_table(5)], simp,
      rule run_last[OF in_statement_table(6)], simp, rule run_last[OF in_statement_table(7)], simp,
      rule run_last[OF in_statement_table(8)], simp)

text \<open>An event: the call-level \<open>emit\<close> makes the tables of \<open>emit_capsule\<close>.\<close>

lemma emit_ends:
  "ends_with lib view (view (conn s)) (emit_capsule e (visible (view (conn s)))) (sql_emit lib e s)"
proof -
  define store where "store = (\<lambda>db.
      case ev_type e of
        CommandStart \<Rightarrow> store_command_start e db
      | CommandEnd \<Rightarrow> store_command_end e db
      | FileRead \<Rightarrow> Inr (store_file_activity e db)
      | FileWrite \<Rightarrow> Inr (store_file_activity e db)
      | NetworkConnect \<Rightarrow> Inr (store_network e db)
      | ProcessExec \<Rightarrow> store_exec e db
      | ProcessFork \<Rightarrow> store_fork e db
      | ProcessExit \<Rightarrow> store_exit e db
      | _ \<Rightarrow> Inr db)"
  have "ends_with lib view (view (conn s))
      (bind_res (Inr (insert_event_row e (visible (view (conn s))))) store) (sql_emit lib e s)"
    unfolding sql_emit_def table_result_event[symmetric]
  proof (rule run_then[OF in_statement_table(1)], simp)
    fix db and s1 :: "'c session"
    assume s1: "view (conn s1) = put_tables db (view (conn s))"
    have "ends_with lib view (view (conn s1)) (Inr db) (return () s1)"
      using s1 by (simp add: ends_with_def)
    moreover have "visible (view (conn s1)) = db"
      using s1 by simp
    ultimately show "ends_with lib view (view (conn s1)) (store db)
        ((case ev_type e of
          CommandStart \<Rightarrow> sql_command_start lib e
        | CommandEnd \<Rightarrow> sql_command_end lib e
        | FileRead \<Rightarrow> sql_file_activity lib e
        | FileWrite \<Rightarrow> sql_file_activity lib e
        | NetworkConnect \<Rightarrow> sql_network lib e
        | ProcessExec \<Rightarrow> sql_exec_event lib e
        | ProcessFork \<Rightarrow> sql_fork_event lib e
        | ProcessExit \<Rightarrow> sql_exit_event lib e
        | _ \<Rightarrow> return ()) s1)"
      using command_start_ends[of s1 e] command_end_ends[of s1 e] event_statement_ends[of s1 e]
      by (cases "ev_type e") (simp_all add: store_def)
  qed
  then show ?thesis
    by (simp add: emit_capsule_def store_def Let_def)
qed

lemma script_ends:
  assumes "\<exists>c'. sq_exec lib sql (conn s) = Inr c' \<and> view c' = v"
  obtains (fault) e s' where "execute_script lib sql s = (Inl e, s')" "\<not> no_faults lib"
      "view (conn s') = view (conn s)"
  | (ok) s' where "execute_script lib sql s = (Inr (), s')" "view (conn s') = v"
proof (cases rule: script_cases[of lib sql s])
  case fault
  then show ?thesis
    using that(1) by (cases "execute_script lib sql s") (auto simp: failed_by_fault_def)
next
  case (error m)
  then show ?thesis using assms by simp
next
  case (ok c s')
  then show ?thesis using assms that(2) by auto
qed

text \<open>A statement in the transaction of the constructor.\<close>

lemma statement_in_transaction:
  assumes "(sql, ts, eff) \<in> set statement_table" "length args = length ts"
    and "table_result ts eff args (visible (view (conn s))) = Inr db"
    and "view (conn s) = \<lparr>visible = d, committed = c, in_transaction = True\<rparr>"
  obtains (fault) e s' where "run_statement lib sql args (return ()) s = (Inl e, s')"
      "\<not> no_faults lib" "committed (view (conn s')) = c"
  | (ok) s' where "run_statement lib sql args (return ()) s = (Inr (), s')"
      "view (conn s') = \<lparr>visible = db, committed = c, in_transaction = True\<rparr>"
  using run_last[OF assms(1,2), of s] assms(3,4) that
  by (cases "run_statement lib sql args (return ()) s")
    (auto simp: ends_with_def failed_by_fault_def put_tables_def)

end

end
