(* ===== verification/Sql_Recording.thy ===== *)
theory Sql_Recording
  imports Sql_Writer
begin

text \<open>
  The life of a \<open>CapsuleWriter\<close> on a connection: the constructor, the events, \<open>finish\<close> and the
  destructor, each in the terms of the writer of \<open>Capsule_Store\<close>, and the whole as one program.
  \<open>documented_sqlite\<close> is SQLite as its documentation describes the statements of the writer,
  with any failures to open and any faults; it is the model of the interface
  \<open>capsule_library\<close> on which the results about recordings rest.
\<close>

section \<open>Steps of a connection\<close>

text \<open>
  From the connection \<open>v\<close>, the program ends without an exception in \<open>v'\<close>, or by a fault with a
  connection in \<open>kept\<close>.
\<close>

definition leads_to ::
  "'c sqlite \<Rightarrow> ('c \<Rightarrow> connection) \<Rightarrow> (connection \<Rightarrow> bool) \<Rightarrow> connection \<Rightarrow> ('c, unit) program \<Rightarrow>
   connection \<Rightarrow> bool" where
  "leads_to lib view kept v m v' \<longleftrightarrow>
     (\<forall>s. view (conn s) = v \<longrightarrow>
        (case m s of
           (Inl e, s') \<Rightarrow> \<not> no_faults lib \<and> kept (view (conn s'))
         | (Inr u, s') \<Rightarrow> view (conn s') = v'))"

lemma leads_to_bind:
  fixes m m' :: "('c, unit) program"
  assumes "leads_to lib view kept v m v1" "leads_to lib view kept v1 m' v2"
  shows "leads_to lib view kept v (bind_sql m (\<lambda>_. m')) v2"
  unfolding leads_to_def
proof (intro allI impI)
  fix s :: "'c session"
  assume v: "view (conn s) = v"
  obtain r s1 where m: "m s = (r, s1)" by (cases "m s")
  show "case bind_sql m (\<lambda>_. m') s of
      (Inl e, s') \<Rightarrow> \<not> no_faults lib \<and> kept (view (conn s'))
    | (Inr u, s') \<Rightarrow> view (conn s') = v2"
    using assms(1)[unfolded leads_to_def, rule_format, OF v] assms(2) m
    by (cases r) (simp_all add: bind_sql_def leads_to_def)
qed

text \<open>The connection of a writer: its transaction is open until \<open>finish\<close> commits it.\<close>

definition writer_connection :: "capsule_writer \<Rightarrow> connection" where
  "writer_connection w =
     \<lparr>visible = w_db w, committed = w_file w, in_transaction = (\<not> finished w)\<rparr>"

lemma writer_connection_simps [simp]:
  "visible (writer_connection w) = w_db w" "committed (writer_connection w) = w_file w"
  "in_transaction (writer_connection w) = (\<not> finished w)"
  by (simp_all add: writer_connection_def)

lemma put_writer_tables:
  "put_tables db (writer_connection w) =
   writer_connection (w\<lparr>w_db := db, w_file := (if finished w then db else w_file w)\<rparr>)"
  by (simp add: put_tables_def writer_connection_def)

section \<open>Constructor, events, finish and destructor\<close>

context capsule_library
begin

lemma script_leads:
  assumes "\<And>c. view c = v \<Longrightarrow> \<exists>c'. sq_exec lib sql c = Inr c' \<and> view c' = v'" "kept v"
  shows "leads_to lib view kept v (execute_script lib sql) v'"
  unfolding leads_to_def
proof (intro allI impI)
  fix s :: "'c session"
  assume v: "view (conn s) = v"
  show "case execute_script lib sql s of
      (Inl e, s') \<Rightarrow> \<not> no_faults lib \<and> kept (view (conn s'))
    | (Inr u, s') \<Rightarrow> view (conn s') = v'"
    by (rule script_ends[where s = s and v = v', OF assms(1)[OF v]]) (simp_all add: v assms(2))
qed

lemma statement_leads:
  assumes "(sql, ts, eff) \<in> set statement_table" "length args = length ts"
    and "table_result ts eff args (visible v) = Inr db" "kept v"
    and "leads_to lib view kept (put_tables db v) rest v'"
  shows "leads_to lib view kept v (run_statement lib sql args rest) v'"
  unfolding leads_to_def
proof (intro allI impI)
  fix s :: "'c session"
  assume v: "view (conn s) = v"
  obtain r s' where r: "run_statement lib sql args rest s = (r, s')"
    by (cases "run_statement lib sql args rest s")
  consider (fault) "failed_by_fault lib r" "view (conn s') = v"
    | (rest) s1 where "view (conn s1) = put_tables db v" "r = fst (rest s1)"
      "conn s' = conn (snd (rest s1))"
    using run_table_statement[OF assms(1,2), of rest s] assms(3) r v
    by (auto simp: table_result_def res_simps split: sum.splits)
  then show "case run_statement lib sql args rest s of
      (Inl e, s') \<Rightarrow> \<not> no_faults lib \<and> kept (view (conn s'))
    | (Inr u, s') \<Rightarrow> view (conn s') = v'"
  proof cases
    case fault
    with r assms(4) show ?thesis by (auto simp: failed_by_fault_def)
  next
    case rest
    with r assms(5) show ?thesis
      by (cases "rest s1") (auto simp: leads_to_def split: sum.splits)
  qed
qed

lemma return_leads: "leads_to lib view kept v (return ()) v"
  by (simp add: leads_to_def)

text \<open>The constructor leaves the tables of \<open>open_writer\<close> in an open transaction.\<close>

lemma constructor_leads:
  assumes "\<not> in_transaction v"
  shows "leads_to lib view (\<lambda>v'. committed v' \<in> {committed v, empty_tables}) v
    (constructor_statements lib tool_version run)
    (writer_connection (open_writer tool_version run))"
proof -
  define v1 where "v1 = put_tables empty_tables v"
  define v2 where "v2 = v1\<lparr>in_transaction := True\<rparr>"
  define db1 where "db1 = empty_tables\<lparr>t_metadata := [(''schema_version'', ''3'')]\<rparr>"
  define db2 where "db2 = empty_tables\<lparr>t_metadata :=
    [(''schema_version'', ''3''), (''tool_version'', tool_version)]\<rparr>"
  have v: "v1 = \<lparr>visible = empty_tables, committed = empty_tables, in_transaction = False\<rparr>"
      "v2 = \<lparr>visible = empty_tables, committed = empty_tables, in_transaction = True\<rparr>"
    using assms by (simp_all add: v1_def v2_def put_tables_def)
  have effects: "table_result [] (\<lambda>p. insert_metadata ''schema_version'' ''3'') [] empty_tables = Inr db1"
    "table_result [TEXT] (\<lambda>p. insert_metadata ''tool_version'' (text_of (p 1)))
       [Inr (Text tool_version)] db1 = Inr db2"
    by (simp_all add: sql_effects insert_metadata_def db1_def db2_def empty_tables_def)
  have run: "table_result [TEXT, TEXT, TEXT, TEXT, INTEGER] insert_run
      [Inr (Text (rm_id run)), Inr (Text (run_mode_name (rm_mode run))),
       Inr (Text (format_command (rm_command run))), Inr (Text (rm_cwd run)),
       Inr (Integer (as_i64 (rm_start_ns run)))] db2 = Inr (w_db (open_writer tool_version run))"
    by (cases "rm_mode run")
      (simp_all add: sql_effects insert_run_def db2_def empty_tables_def open_writer_def)
  have last: "put_tables (w_db (open_writer tool_version run)) (put_tables db2 (put_tables db1 v2)) =
      writer_connection (open_writer tool_version run)"
    by (simp add: put_tables_def writer_connection_def v open_writer_def)
  let ?kept = "\<lambda>v'. committed v' \<in> {committed v, empty_tables}"
  show ?thesis
    unfolding constructor_statements_def
  proof (intro leads_to_bind)
    show "leads_to lib view ?kept v (execute_script lib pragma_sql) v"
      using settings by (intro script_leads) auto
    show "leads_to lib view ?kept v (execute_script lib schema_sql) v1"
      using creates assms by (intro script_leads) (auto simp: v1_def)
    show "leads_to lib view ?kept v1 (execute_script lib begin_sql) v2"
    proof (rule script_leads)
      fix c
      assume c: "view c = v1"
      then have "\<not> in_transaction (view c)"
        by (simp add: v)
      from begins[OF this] c show "\<exists>c'. sq_exec lib begin_sql c = Inr c' \<and> view c' = v2"
        by (simp add: v2_def)
    qed (simp add: v)
    show "leads_to lib view ?kept v2 (run_statement lib insert_schema_version_sql [] (return ()))
        (put_tables db1 v2)"
      by (rule statement_leads[OF in_statement_table(11)], simp, simp add: effects v, simp add: v,
          rule return_leads)
    show "leads_to lib view ?kept (put_tables db1 v2)
        (run_statement lib insert_tool_version_sql [Inr (Text tool_version)] (return ()))
        (put_tables db2 (put_tables db1 v2))"
      by (rule statement_leads[OF in_statement_table(12)], simp, simp add: effects v, simp add: v,
          rule return_leads)
    show "leads_to lib view ?kept (put_tables db2 (put_tables db1 v2))
        (run_statement lib insert_run_sql
          [Inr (Text (rm_id run)), Inr (Text (run_mode_name (rm_mode run))),
           Inr (Text (format_command (rm_command run))), Inr (Text (rm_cwd run)),
           Inr (Integer (as_i64 (rm_start_ns run)))] (return ()))
        (writer_connection (open_writer tool_version run))"
      unfolding last[symmetric]
      by (rule statement_leads[OF in_statement_table(10)], simp, simp add: run v, simp add: v,
          rule return_leads)
  qed
qed

text \<open>Opening the capsule, on a connection without a transaction.\<close>

lemma writer_starts:
  fixes s :: "'c session"
  assumes "\<not> in_transaction (view (conn s))"
  obtains (failed) e s' where "sql_open_writer lib path tool_version run s = (Inl e, s')"
      "sq_open lib \<noteq> None \<or> \<not> no_faults lib"
      "committed (view (conn s')) \<in> {committed (view (conn s)), empty_tables}"
  | (ok) s' where "sql_open_writer lib path tool_version run s = (Inr (), s')"
      "view (conn s') = writer_connection (open_writer tool_version run)"
proof (cases "sq_open lib")
  case (Some he)
  then obtain e s' where "database lib path s = (Inl e, s')" "conn s' = conn s"
    by (cases he) (simp add: database_def open_database_def)
  with Some show ?thesis
    by (intro failed[of e s']) (simp_all add: sql_open_writer_def bind_sql_def)
next
  case None
  then obtain s1 where s1: "database lib path s = (Inr (), s1)" "conn s1 = conn s"
    by (simp add: database_def open_database_def)
  obtain r s2 where b: "constructor_statements lib tool_version run s1 = (r, s2)"
    by (cases "constructor_statements lib tool_version run s1")
  have body: "case r of
      Inl e \<Rightarrow> \<not> no_faults lib \<and> committed (view (conn s2)) \<in> {committed (view (conn s)), empty_tables}
    | Inr u \<Rightarrow> view (conn s2) = writer_connection (open_writer tool_version run)"
    using constructor_leads[OF assms, of tool_version run, unfolded leads_to_def, rule_format, of s1]
      s1(2) b
    by simp
  show ?thesis
  proof (cases r)
    case (Inl e)
    with body b s1 show ?thesis
      by (intro failed[of e "close_database lib s2"])
        (simp_all add: sql_open_writer_def bind_sql_def on_throw_def close_database_def closes)
  next
    case (Inr u)
    with body b s1 show ?thesis
      by (intro ok[of s2]) (simp_all add: sql_open_writer_def bind_sql_def on_throw_def)
  qed
qed

text \<open>An event of a writer.\<close>

lemma writer_emits:
  fixes s :: "'c session"
  assumes "view (conn s) = writer_connection w"
  obtains (failed) x s' where "sql_emit lib e s = (Inl x, s')"
      "\<not> no_faults lib \<or> emit_writer e w = Inl x"
      "\<not> finished w \<Longrightarrow> committed (view (conn s')) = w_file w \<and> in_transaction (view (conn s'))"
  | (ok) w' s' where "sql_emit lib e s = (Inr (), s')" "emit_writer e w = Inr w'"
      "view (conn s') = writer_connection w'" "finished w' = finished w"
      "\<not> finished w \<Longrightarrow> w_file w' = w_file w"
proof -
  obtain r s' where r: "sql_emit lib e s = (r, s')"
    by (cases "sql_emit lib e s")
  have ends: "ends_with lib view (writer_connection w) (emit_capsule e (w_db w)) (r, s')"
    using emit_ends[of s e] assms r by simp
  show ?thesis
  proof (cases r)
    case (Inl x)
    with ends have "\<not> no_faults lib \<or> emit_writer e w = Inl x"
      by (auto simp: ends_with_def failed_by_fault_def emit_writer_def bind_res_def split: sum.splits)
    moreover have "committed (view (conn s')) = w_file w \<and> in_transaction (view (conn s'))"
      if "\<not> finished w"
      using ends Inl that by (auto simp: ends_with_def put_writer_tables)
    ultimately show ?thesis
      using r Inl failed by blast
  next
    case (Inr u)
    with ends obtain db where db: "emit_capsule e (w_db w) = Inr db"
        "view (conn s') = put_tables db (writer_connection w)"
      by (auto simp: ends_with_def failed_by_fault_def split: sum.splits)
    then show ?thesis
      using r Inr
      by (intro ok[of s' "w\<lparr>w_db := db, w_file := (if finished w then db else w_file w)\<rparr>"])
        (simp_all add: emit_writer_def put_writer_tables)
  qed
qed

text \<open>\<open>finish\<close>: the row of the run and the COMMIT.\<close>

lemma commit_leads:
  assumes "in_transaction v"
  shows "leads_to lib view (\<lambda>v'. in_transaction v' \<and> committed v' = committed v)
    (put_tables db v) (execute_script lib commit_sql)
    \<lparr>visible = db, committed = db, in_transaction = False\<rparr>"
proof (rule script_leads)
  fix c
  assume c: "view c = put_tables db v"
  then have "in_transaction (view c)"
    using assms by simp
  from commits[OF this] c
  show "\<exists>c'. sq_exec lib commit_sql c = Inr c' \<and>
      view c' = \<lparr>visible = db, committed = db, in_transaction = False\<rparr>"
    by (auto simp: put_tables_def)
qed (simp add: assms)

lemma writer_finishes:
  fixes s :: "'c session"
  assumes "view (conn s) = writer_connection w" "\<not> finished w"
  obtains (failed) x s' where "sql_finish lib False result s = (Inl x, s')" "\<not> no_faults lib"
      "committed (view (conn s')) = w_file w" "in_transaction (view (conn s'))"
  | (ok) w' s' where "sql_finish lib False result s = (Inr (), s')"
      "finish_writer result w = Inr w'" "view (conn s') = writer_connection w'" "finished w'"
proof -
  define db where "db = (w_db w)\<lparr>t_runs :=
    update_where (\<lambda>_. True)
      (\<lambda>r. r\<lparr>run_end_ns := Some (as_i64 (end_ns result)),
             run_exit_code := Some (exit_code result),
             run_term_signal := Some (term_signal result)\<rparr>)
      (t_runs (w_db w))\<rparr>"
  have row: "table_result [INTEGER, INTEGER, INTEGER] end_run
      [Inr (Integer (as_i64 (end_ns result))), Inr (Integer (exit_code result)),
       Inr (Integer (term_signal result))] (w_db w) = Inr db"
    by (simp add: sql_effects end_run_def db_def)
  have open_tx: "in_transaction (writer_connection w)"
    using assms(2) by simp
  have "leads_to lib view (\<lambda>v'. in_transaction v' \<and> committed v' = committed (writer_connection w))
      (writer_connection w) (sql_finish lib False result)
      \<lparr>visible = db, committed = db, in_transaction = False\<rparr>"
    unfolding sql_finish_def if_False
    by (rule statement_leads[OF in_statement_table(9)], simp, simp add: row,
        simp add: assms(2), rule commit_leads[OF open_tx])
  moreover obtain r s' where "sql_finish lib False result s = (r, s')"
    by (cases "sql_finish lib False result s")
  ultimately show ?thesis
    using assms failed ok[of s' "\<lparr>w_db = db, w_file = db, finished = True\<rparr>"]
    by (cases r) (auto simp: leads_to_def finish_writer_def db_def writer_connection_def Let_def)
qed

text \<open>The destructor: an open transaction is not committed, whatever its ROLLBACK does.\<close>

lemma destroy_keeps:
  fixes s :: "'c session"
  assumes "is_finished \<or> in_transaction (view (conn s))"
  shows "committed (view (conn (sql_destroy lib is_finished s))) = committed (view (conn s))"
proof (cases is_finished)
  case True
  then show ?thesis
    by (simp add: sql_destroy_def close_database_def closes)
next
  case False
  with assms have "in_transaction (view (conn s))"
    by simp
  from rolls_back[OF this] show ?thesis
    by (rule script_ends[where s = s])
      (simp_all add: sql_destroy_def False close_database_def closes)
qed

end

section \<open>The life of a writer\<close>

fun sql_emit_all :: "'c sqlite \<Rightarrow> event list \<Rightarrow> ('c, unit) program" where
  "sql_emit_all lib [] = return ()"
| "sql_emit_all lib (e # es) = bind_sql (sql_emit lib e) (\<lambda>_. sql_emit_all lib es)"

definition sql_recording ::
  "'c sqlite \<Rightarrow> string \<Rightarrow> string \<Rightarrow> run_metadata \<Rightarrow> event list \<Rightarrow> collection_result \<Rightarrow>
   ('c, unit) program" where
  "sql_recording lib path tool_version run evs result =
     bind_sql (sql_open_writer lib path tool_version run) (\<lambda>_ s.
       case bind_sql (sql_emit_all lib evs) (\<lambda>_. sql_finish lib False result) s of
         (Inl e, s') \<Rightarrow> (Inl e, sql_destroy lib False s')
       | (Inr u, s') \<Rightarrow> (Inr (), sql_destroy lib True s'))"

text \<open>The file that the writer of \<open>Capsule_Store\<close> leaves.\<close>

definition recorded_file ::
  "string \<Rightarrow> run_metadata \<Rightarrow> event list \<Rightarrow> collection_result \<Rightarrow> capsule res" where
  "recorded_file tool_version run evs result =
     bind_res (emit_all emit_writer evs (open_writer tool_version run)) (\<lambda>w.
     bind_res (finish_writer result w) (\<lambda>w'. Inr (close_writer w')))"

context capsule_library
begin

lemma writer_emits_all:
  fixes s :: "'c session"
  assumes "view (conn s) = writer_connection w" "\<not> finished w"
  shows "case sql_emit_all lib evs s of
      (Inl x, s') \<Rightarrow> (\<not> no_faults lib \<or> emit_all emit_writer evs w = Inl x) \<and>
        committed (view (conn s')) = w_file w \<and> in_transaction (view (conn s'))
    | (Inr u, s') \<Rightarrow> \<exists>w'. emit_all emit_writer evs w = Inr w' \<and>
        view (conn s') = writer_connection w' \<and> \<not> finished w' \<and> w_file w' = w_file w"
  using assms
proof (induction evs arbitrary: s w)
  case Nil
  then show ?case by (simp add: emit_all_def)
next
  case (Cons e evs)
  from Cons.prems(1) show ?case
  proof (cases rule: writer_emits[where e = e])
    case (failed x s')
    with Cons.prems(2) show ?thesis
      by (auto simp: bind_sql_def emit_all_def bind_res_def)
  next
    case (ok w1 s1)
    with Cons.prems(2) Cons.IH[of s1 w1] show ?thesis
      by (simp add: bind_sql_def emit_all_def split: prod.splits sum.splits)
  qed
qed

text \<open>
  An exception leaves the committed tables as they were, or just created; without one the file
  is that of the writer in \<open>Capsule_Store\<close>.
\<close>

lemma recording_atomic:
  fixes s :: "'c session"
  assumes "\<not> in_transaction (view (conn s))"
  shows "case sql_recording lib path tool_version run evs result s of
      (Inl e, s') \<Rightarrow>
        (sq_open lib \<noteq> None \<or> \<not> no_faults lib \<or> recorded_file tool_version run evs result = Inl e) \<and>
        committed (view (conn s')) \<in> {committed (view (conn s)), empty_tables}
    | (Inr u, s') \<Rightarrow> recorded_file tool_version run evs result = Inr (committed (view (conn s')))"
  using assms
proof (cases rule: writer_starts[where path = path and tool_version = tool_version and run = run])
  case (failed e s')
  then show ?thesis by (auto simp: sql_recording_def bind_sql_def)
next
  case (ok s1)
  define w where "w = open_writer tool_version run"
  have w: "\<not> finished w" "w_file w = empty_tables"
    by (simp_all add: w_def open_writer_def)
  obtain r2 s2 where e: "sql_emit_all lib evs s1 = (r2, s2)"
    by (cases "sql_emit_all lib evs s1")
  note emitted = writer_emits_all[OF ok(2)[folded w_def] w(1), of evs, unfolded e prod.case]
  show ?thesis
  proof (cases r2)
    case (Inl x)
    with emitted w e ok(1) show ?thesis
      by (auto simp: sql_recording_def bind_sql_def destroy_keeps recorded_file_def w_def[symmetric])
  next
    case (Inr u)
    with emitted obtain w2 where w2: "emit_all emit_writer evs w = Inr w2"
        "view (conn s2) = writer_connection w2" "\<not> finished w2" "w_file w2 = empty_tables"
      using w(2) by auto
    from w2(2,3) show ?thesis
    proof (cases rule: writer_finishes[where result = result])
      case (failed x s3)
      with Inr e ok(1) w2(4) show ?thesis
        by (simp add: sql_recording_def bind_sql_def destroy_keeps)
    next
      case (ok w3 s3)
      with Inr e \<open>sql_open_writer lib path tool_version run s = (Inr (), s1)\<close> w2(1) show ?thesis
        by (simp add: sql_recording_def bind_sql_def destroy_keeps recorded_file_def
            w_def[symmetric] close_writer_def)
    qed
  qed
qed

end

text \<open>
  The writer as an event sink: an exception of \<open>emit\<close> ends the collection, so that the state
  that it leaves to the destructor is not looked at.
\<close>

definition emit_sink :: "'c sqlite \<Rightarrow> event \<Rightarrow> 'c session \<Rightarrow> 'c session res" where
  "emit_sink lib e s =
     (case sql_emit lib e s of
        (Inl x, s') \<Rightarrow> Inl x
      | (Inr u, s') \<Rightarrow> Inr s')"

context capsule_library
begin

lemma sink_emits_all:
  fixes s s' :: "'c session"
  assumes "emit_all (emit_sink lib) evs s = Inr s'" "view (conn s) = writer_connection w"
    and "\<not> finished w"
  shows "\<exists>w'. emit_all emit_writer evs w = Inr w' \<and> view (conn s') = writer_connection w' \<and>
    \<not> finished w'"
  using assms
proof (induction evs arbitrary: s w)
  case Nil
  then show ?case by simp
next
  case (Cons e evs)
  from Cons.prems(2) show ?case
  proof (cases rule: writer_emits[where e = e])
    case (failed x s1)
    with Cons.prems(1) show ?thesis by (simp add: emit_sink_def)
  next
    case (ok w1 s1)
    then have "emit_all (emit_sink lib) evs s1 = Inr s'"
      using Cons.prems(1) by (simp add: emit_sink_def[abs_def])
    with ok Cons.IH[of s1 w1] Cons.prems(3) show ?thesis by simp
  qed
qed

end

section \<open>Handles\<close>

text \<open>With any library and any faults, the calls of the writer are a legal use of the handles.\<close>

lemma balanced_writer [balanced_intros]:
  "balanced (constructor_statements lib tool_version run)" "balanced (sql_emit lib e)"
  "balanced (sql_finish lib is_finished result)"
proof -
  show "balanced (constructor_statements lib tool_version run)"
    unfolding constructor_statements_def by (intro balanced_intros)
  have "balanced (sql_command_start lib e)" "balanced (sql_command_end lib e)"
      "balanced (sql_file_activity lib e)" "balanced (sql_network lib e)"
      "balanced (sql_exec_event lib e)" "balanced (sql_fork_event lib e)"
      "balanced (sql_exit_event lib e)"
    by (cases "ev_command_id e";
        simp add: sql_command_start_def sql_command_end_def sql_file_activity_def sql_network_def
          sql_exec_event_def sql_fork_event_def sql_exit_event_def Let_def balanced_intros)+
  then show "balanced (sql_emit lib e)"
    unfolding sql_emit_def
    by (intro balanced_intros) (cases "ev_type e"; simp add: balanced_intros)
  show "balanced (sql_finish lib is_finished result)"
    by (simp add: sql_finish_def balanced_intros)
qed

lemma balanced_emit_all [balanced_intros]: "balanced (sql_emit_all lib evs)"
proof (induction evs)
  case Nil
  show ?case unfolding sql_emit_all.simps by (rule balanced_return)
next
  case (Cons e evs)
  then show ?case unfolding sql_emit_all.simps by (intro balanced_intros)
qed

lemma destroy_closes:
  assumes "live s []"
  shows "closed (sql_destroy lib is_finished s)"
proof -
  have "live (snd (execute_script lib rollback_sql s)) []"
    using balanced_script[of lib rollback_sql] assms by (simp add: balanced_def)
  with assms show ?thesis
    by (simp add: sql_destroy_def close_database_handles)
qed

lemma open_writer_handles:
  assumes "closed s" "sql_open_writer lib path tool_version run s = (r, s')"
  shows "case r of Inl e \<Rightarrow> closed s' | Inr u \<Rightarrow> live s' []"
proof -
  obtain rd s1 where d: "database lib path s = (rd, s1)"
    by (cases "database lib path s")
  then have l1: "case rd of Inl e \<Rightarrow> closed s1 | Inr u \<Rightarrow> live s1 []"
    using open_database_handles[OF assms(1), of "''cannot open SQLite database''"
        "[''sqlite3_extended_result_codes'', ''sqlite3_busy_timeout'']" lib path rd s1]
    by (simp add: database_def)
  obtain rb s2 where b: "constructor_statements lib tool_version run s1 = (rb, s2)"
    by (cases "constructor_statements lib tool_version run s1")
  have "live s2 []" if "live s1 []"
    using balanced_writer(1)[of lib tool_version run] that b unfolding balanced_def by (metis snd_conv)
  with assms(2) d b l1 show ?thesis
    by (cases rd; cases rb)
      (auto simp: sql_open_writer_def bind_sql_def on_throw_def close_database_handles)
qed

lemma recording_handles:
  fixes s :: "'c session"
  assumes "closed s"
  shows "closed (snd (sql_recording lib path tool_version run evs result s))"
proof -
  obtain r s1 where o: "sql_open_writer lib path tool_version run s = (r, s1)"
    by (cases "sql_open_writer lib path tool_version run s")
  let ?body = "bind_sql (sql_emit_all lib evs) (\<lambda>_. sql_finish lib False result)"
  have "balanced ?body"
    by (intro balanced_intros)
  then have "live (snd (?body s1)) []" if "live s1 []"
    using that by (simp add: balanced_def)
  with open_writer_handles[OF assms o] o show ?thesis
    by (cases r) (auto simp: sql_recording_def bind_sql_def destroy_closes split: prod.splits sum.splits)
qed

section \<open>SQLite as documented\<close>

text \<open>The connection to a database that does not exist yet.\<close>

definition no_database :: connection where
  "no_database =
     \<lparr>visible = empty_tables, committed = empty_tables, in_transaction = False\<rparr>"

definition documented_script :: "string \<Rightarrow> connection \<Rightarrow> string + connection" where
  "documented_script sql v =
     (if sql = pragma_sql then Inr v
      else if sql = schema_sql then Inr (put_tables empty_tables v)
      else if sql = begin_sql then
        if in_transaction v then Inl ''cannot start a transaction within a transaction''
        else Inr (v\<lparr>in_transaction := True\<rparr>)
      else if sql = commit_sql then
        if in_transaction v then Inr (v\<lparr>committed := visible v, in_transaction := False\<rparr>)
        else Inl ''cannot commit - no transaction is active''
      else if sql = rollback_sql then
        if in_transaction v then Inr (v\<lparr>visible := committed v, in_transaction := False\<rparr>)
        else Inl ''cannot rollback - no transaction is active''
      else Inl ''SQL logic error'')"

definition documented_statement ::
  "string \<Rightarrow> params \<Rightarrow> connection \<Rightarrow> string + (sql_value list list \<times> connection)" where
  "documented_statement sql p v =
     (case map_of statement_table sql of
        None \<Rightarrow> Inl ''SQL logic error''
      | Some (ts, eff) \<Rightarrow>
          (case effect_of ts eff p (visible v) of
             Inl message \<Rightarrow> Inl message
           | Inr db \<Rightarrow> Inr ([], put_tables db v)))"

definition documented_arity :: "string \<Rightarrow> string + int" where
  "documented_arity sql =
     (case map_of statement_table sql of
        None \<Rightarrow> Inl ''SQL logic error''
      | Some (ts, eff) \<Rightarrow> Inr (int (length ts)))"

text \<open>The failures to open and the faults are arbitrary.\<close>

definition documented_sqlite ::
  "(bool \<times> string) option \<Rightarrow> (nat \<Rightarrow> string option) \<Rightarrow> (nat \<Rightarrow> string option) \<Rightarrow> connection sqlite" where
  "documented_sqlite cannot_open faults errors =
     \<lparr>sq_open = cannot_open, sq_fault = faults, sq_error = errors,
      sq_prepare = documented_arity, sq_exec = documented_script, sq_step = documented_statement,
      sq_close = (\<lambda>v. v\<lparr>visible := committed v, in_transaction := False\<rparr>)\<rparr>"

lemmas sql_texts = insert_event_sql_def insert_command_sql_def end_command_sql_def
  upsert_file_sql_def upsert_network_sql_def upsert_process_sql_def insert_process_sql_def
  end_process_sql_def end_run_sql_def insert_run_sql_def insert_schema_version_sql_def
  insert_tool_version_sql_def

lemma distinct_statements: "distinct (map fst statement_table)"
  by code_simp

lemma distinct_scripts: "distinct [pragma_sql, schema_sql, begin_sql, commit_sql, rollback_sql]"
  by code_simp

text \<open>A text has as many question marks as its statement has parameters.\<close>

lemma parameter_marks:
  "list_all (\<lambda>(sql, ts, eff). length (filter (\<lambda>c. c = CHR ''?'') sql) = length ts) statement_table"
  by code_simp

interpretation documented: capsule_library "documented_sqlite cannot_open faults errors" "\<lambda>v. v"
proof
  fix sql ts eff p and v :: connection
  assume "(sql, ts, eff) \<in> set statement_table"
  then have row: "map_of statement_table sql = Some (ts, eff)"
    using distinct_statements by simp
  then show "sq_prepare (documented_sqlite cannot_open faults errors) sql = Inr (int (length ts))"
    by (simp add: documented_sqlite_def documented_arity_def)
  from row show "case effect_of ts eff p (visible v) of
      Inl m \<Rightarrow> sq_step (documented_sqlite cannot_open faults errors) sql p v = Inl m
    | Inr db \<Rightarrow> \<exists>v'. sq_step (documented_sqlite cannot_open faults errors) sql p v = Inr ([], v') \<and>
        v' = put_tables db v"
    by (simp add: documented_sqlite_def documented_statement_def split: sum.split)
qed (use distinct_scripts in \<open>auto simp: documented_sqlite_def documented_script_def\<close>)

lemma documented_no_faults [simp]:
  "no_faults (documented_sqlite cannot_open faults errors) \<longleftrightarrow> faults = (\<lambda>_. None)"
  "sq_open (documented_sqlite cannot_open faults errors) = cannot_open"
  by (auto simp: no_faults_def documented_sqlite_def)

lemma fresh_database [simp]: "conn (fresh_session c) = c" "\<not> in_transaction no_database"
  "committed no_database = empty_tables"
  by (simp_all add: fresh_session_def no_database_def)

section \<open>Properties\<close>

text \<open>
  C4. Whatever call of SQLite fails (opening, a script, preparing, binding or executing a
  statement, the COMMIT, the ROLLBACK of the destructor), a writer that throws leaves a file
  whose tables are empty; only a writer that returns leaves rows, and then all of them: those
  that the events and the result of the collection stand for.
\<close>

theorem writer_survives_faults:
  "case sql_recording (documented_sqlite cannot_open faults errors) path tool_version run evs result
       (fresh_session no_database) of
     (Inl e, s) \<Rightarrow> committed (conn s) = empty_tables
   | (Inr u, s) \<Rightarrow> recorded_file tool_version run evs result = Inr (committed (conn s))"
  using documented.recording_atomic[where s = "fresh_session no_database" and
      cannot_open = cannot_open and faults = faults and errors = errors and path = path and
      tool_version = tool_version and run = run and evs = evs and result = result]
  by (auto split: prod.splits sum.splits)

lemma locked_database:
  assumes "sql_recording (documented_sqlite None (\<lambda>n. if n = 5 then Some ''database is locked''
      else None) (\<lambda>_. None)) path tool_version run evs result (fresh_session no_database) = (r, s)"
  shows "r = Inl (Runtime_error ''database is locked'')"
  using assms distinct_scripts
  by (auto simp: sql_recording_def sql_open_writer_def database_def open_database_def
      constructor_statements_def bind_sql_def execute_script_def documented_sqlite_def
      documented_script_def fresh_session_def called_def on_throw_def close_database_def Let_def
      no_database_def)

theorem writer_survives_faults_witness:
  "\<exists>s. sql_recording (documented_sqlite None (\<lambda>n. if n = 5 then Some ''database is locked'' else None)
       (\<lambda>_. None)) ''run.wrun'' ''1'' sample_run sample_events initial_result
       (fresh_session no_database) = (Inl (Runtime_error ''database is locked''), s) \<and>
     committed (conn s) = empty_tables"
proof -
  let ?lib = "documented_sqlite None (\<lambda>n. if n = 5 then Some ''database is locked'' else None) (\<lambda>_. None)"
  obtain r s where run: "sql_recording ?lib ''run.wrun'' ''1'' sample_run sample_events initial_result
      (fresh_session no_database) = (r, s)"
    by (cases "sql_recording ?lib ''run.wrun'' ''1'' sample_run sample_events initial_result
      (fresh_session no_database)")
  have "r = Inl (Runtime_error ''database is locked'')"
    using run by (rule locked_database)
  with run writer_survives_faults[where cannot_open = None and
      faults = "\<lambda>n. if n = 5 then Some ''database is locked'' else None" and errors = "\<lambda>_. None" and
      path = "''run.wrun''" and tool_version = "''1''" and run = sample_run and
      evs = sample_events and result = initial_result]
  show ?thesis by simp
qed


lemma sample_recorded_file:
  "\<exists>c. recorded_file ''1'' sample_run sample_events initial_result = Inr c \<and>
     length (t_events c) = length sample_events"
proof -
  have "(case recorded_file ''1'' sample_run sample_events initial_result of
      Inl e \<Rightarrow> False | Inr c \<Rightarrow> length (t_events c) = length sample_events)"
    by code_simp
  then show ?thesis by (simp split: sum.splits)
qed


text \<open>
  C15. With any SQLite, whatever its calls answer, the calls of a writer are a legal use of
  the handles: a statement is bound before its first step and used only while it is live, and
  in the end every statement is finalized and the connection closed.
\<close>

theorem writer_releases_handles:
  "handles_run (calls (snd (sql_recording lib path tool_version run evs result (fresh_session c))))
     None = Some None"
  using recording_handles[OF closed_fresh] by (simp add: closed_def)

end
