(* ===== verification/Cli.thy ===== *)
theory Cli
  imports Collector Bash_Hooks Capsule_Paths Show_Report Diff_Report Sink_Relation Sql_Recording
begin

text \<open>
  The command line (\<open>src/main.cpp\<close>): \<open>main\<close> and its sub-commands, with what they print and the
  exit status as a \<open>report\<close>, and the file system as the capsules it holds. \<open>record\<close> puts the
  session, the collector, the writer and the publication of the capsule together.

  The world of one invocation (a record) holds the answers of the system: the clock, the
  names that exist, the launch of the tracee and its wait statuses, and the version string that
  the build generates.
\<close>

section \<open>The world\<close>

record world =
  wo_version :: string
  wo_strerror :: "int \<Rightarrow> string"
  wo_null_fd :: "int + int"
  wo_context_fd :: "int + int"
  wo_stamp :: string
  wo_exists :: "string \<Rightarrow> bool res"
  wo_temp_dir :: "string + string"
  wo_temp_exists :: "string \<Rightarrow> string + bool"
  wo_pid :: int
  wo_cwd :: "string option"
  wo_start :: u64
  wo_sql_open :: "(bool \<times> string) option"
  wo_sql_fault :: "nat \<Rightarrow> string option"
  wo_sql_error :: "nat \<Rightarrow> string option"
  wo_launch :: launch
  wo_wakeups :: "wakeup list"
  wo_copy_error :: "string option"
  wo_read_error :: "string \<Rightarrow> string"

definition mk_report :: "string \<Rightarrow> string \<Rightarrow> int \<Rightarrow> report" where
  "mk_report out err code = \<lparr>std_out = out, std_err = err, exit_status = code\<rparr>"

section \<open>Help\<close>

definition nl :: string where
  "nl = [newline]"

definition is_help_flag :: "string \<Rightarrow> bool" where
  "is_help_flag v \<longleftrightarrow> v = ''--help'' \<or> v = ''-h''"

definition general_help :: "string \<Rightarrow> string" where
  "general_help version =
     ''WhyRun '' @ version @ '' - semantic Linux execution recorder'' @ nl @ nl @
     ''Usage:'' @ nl @
     ''  whyrun <command> [options]'' @ nl @ nl @
     ''Commands:'' @ nl @
     ''  record   Record a command or interactive Bash session'' @ nl @
     ''  show     Show a capsule summary or semantic event timeline'' @ nl @
     ''  diff     Compare two execution capsules'' @ nl @
     ''  help     Show general or command-specific help'' @ nl @
     ''  version  Show the WhyRun version'' @ nl @ nl @
     ''Run '' @ [CHR 0x27] @ ''whyrun help <command>'' @ [CHR 0x27] @
     '' for command-specific help.'' @ nl"

definition command_help :: "string \<Rightarrow> string \<Rightarrow> string option" where
  "command_help version cmd =
     (let title = ''WhyRun '' @ version @ nl @ nl in
      if cmd = ''record'' then
        Some (title @ ''Usage:'' @ nl @ ''  whyrun record'' @ nl @
              ''  whyrun record -- <command> [args...]'' @ nl @ nl @
              ''Without a command, record an interactive Bash session.'' @ nl @
              ''With --, record one command and its process tree.'' @ nl)
      else if cmd = ''show'' then
        Some (title @ ''Usage:'' @ nl @
              ''  whyrun show <capsule.wrun> [--events] [--command <id>]'' @ nl @ nl @
              ''Options:'' @ nl @
              ''  --events        Include the semantic event timeline'' @ nl @
              ''  --command <id>  Show effects attributed to one command'' @ nl)
      else if cmd = ''diff'' then
        Some (title @ ''Usage:'' @ nl @ ''  whyrun diff <a.wrun> <b.wrun>'' @ nl @ nl @
              ''Compare exit status, files, network, local IPC, and processes.'' @ nl)
      else if cmd = ''help'' then
        Some (title @ ''Usage:'' @ nl @ ''  whyrun help [command]'' @ nl @ nl @
              ''Show general help or detailed help for one command.'' @ nl)
      else if cmd = ''version'' then
        Some (title @ ''Usage:'' @ nl @ ''  whyrun version'' @ nl @ nl @
              ''Show the WhyRun version.'' @ nl)
      else None)"

definition help_command :: "string \<Rightarrow> string list \<Rightarrow> report" where
  "help_command version argv =
     (if length argv = 2 \<or> (length argv = 3 \<and> is_help_flag (argv ! 2)) then
        mk_report (general_help version) [] 0
      else if length argv \<noteq> 3 then
        mk_report [] (''whyrun help: expected at most one command'' @ nl) 2
      else
        (case command_help version (argv ! 2) of
           None \<Rightarrow> mk_report [] (''whyrun help: unknown command: '' @ argv ! 2 @ nl) 2
         | Some text \<Rightarrow> mk_report text [] 0))"

section \<open>show\<close>

text \<open>The option loop: the first bad option ends it with its message.\<close>

fun show_option_loop :: "string list \<Rightarrow> show_options \<Rightarrow> string + show_options" where
  "show_option_loop [] options = Inr options"
| "show_option_loop (option # args) options =
     (if option = ''--events'' then show_option_loop args (options\<lparr>so_events := True\<rparr>)
      else if option = ''--command'' then
        (if so_command_id options \<noteq> None then
           Inl (''whyrun show: --command may only be specified once'' @ nl)
         else
           case args of
             [] \<Rightarrow> Inl (''whyrun show: --command requires an id'' @ nl)
           | arg # rest \<Rightarrow>
               (let (ec, cid, left) = from_chars_signed 64 arg in
                if ec \<noteq> Errc_ok \<or> left \<noteq> [] \<or> cid \<le> 0 then
                  Inl (''whyrun show: invalid command id: '' @ arg @ nl)
                else show_option_loop rest (options\<lparr>so_command_id := Some cid\<rparr>)))
      else
        Inl (''whyrun show: unknown option: '' @ option @ nl @ ''Try '' @ [CHR 0x27] @
             ''whyrun help show'' @ [CHR 0x27] @ ''.'' @ nl))"

definition default_options :: show_options where
  "default_options = \<lparr>so_events = False, so_command_id = None\<rparr>"

definition open_capsule :: "world \<Rightarrow> file_system \<Rightarrow> string \<Rightarrow> capsule res" where
  "open_capsule wo fs path =
     (case fs path of None \<Rightarrow> Inl (Runtime_error (wo_read_error wo path)) | Some c \<Rightarrow> Inr c)"

definition show_command :: "world \<Rightarrow> string list \<Rightarrow> file_system \<Rightarrow> report" where
  "show_command wo argv fs =
     (if length argv < 3 then
        mk_report [] (''whyrun show: expected a capsule path'' @ nl @ ''Try '' @ [CHR 0x27] @
          ''whyrun help show'' @ [CHR 0x27] @ ''.'' @ nl) 2
      else
        case show_option_loop (drop 3 argv) default_options of
          Inl message \<Rightarrow> mk_report [] message 2
        | Inr options \<Rightarrow> show_capsule (open_capsule wo fs (argv ! 2)) options)"

section \<open>record\<close>

definition banner :: string where
  "banner = ''WhyRun session'' @ nl @ ''  shell /bin/bash'' @ nl @
     ''  use exit or Ctrl-D to finish'' @ nl @ nl"

text \<open>\<open>path::stem\<close> of a name without a separator: up to its last dot.\<close>

definition stem :: "string \<Rightarrow> string" where
  "stem name =
     (if name = ''.'' \<or> name = ''..'' \<or> CHR ''.'' \<notin> set (tl name) then name
      else rev (tl (dropWhile (\<lambda>c. c \<noteq> CHR ''.'') (rev name))))"

definition command_request :: "string list \<Rightarrow> collection_request" where
  "command_request argv =
     \<lparr>command = argv, environment = [], root_command = Some (format_command argv),
      command_channel_fd = None\<rparr>"

text \<open>
  The scope of the writer, on a database that does not exist yet: opening the capsule,
  collecting into it, finishing and closing it. The result is the collection's and what the
  closed file holds; an exception leaves a file that the temporary guard then removes.
\<close>

definition sqlite_of :: "world \<Rightarrow> connection sqlite" where
  "sqlite_of wo = documented_sqlite (wo_sql_open wo) (wo_sql_fault wo) (wo_sql_error wo)"

definition record_capsule ::
  "world \<Rightarrow> collection_request \<Rightarrow> run_metadata \<Rightarrow> string \<Rightarrow>
   (collection_result \<times> capsule) res option" where
  "record_capsule wo request run temporary_path =
     (case sql_open_writer (sqlite_of wo) temporary_path (wo_version wo) run
             (fresh_session no_database) of
        (Inl e, s) \<Rightarrow> Some (Inl e)
      | (Inr u, s) \<Rightarrow>
          (case collect (wo_strerror wo) (emit_sink (sqlite_of wo)) request (wo_launch wo)
                  (wo_wakeups wo) s of
             Inl e \<Rightarrow> Some (Inl e)
           | Inr Blocked \<Rightarrow> None
           | Inr (Collected res s1) \<Rightarrow>
               Some (case sql_finish (sqlite_of wo) False res s1 of
                   (Inl e, s2) \<Rightarrow> Inl e
                 | (Inr v, s2) \<Rightarrow>
                     Inr (res, committed (conn (sql_destroy (sqlite_of wo) True s2))))))"

definition exception_report :: "string \<Rightarrow> exn \<Rightarrow> report" where
  "exception_report out e = mk_report out (''whyrun record: '' @ what e @ nl) 1"

text \<open>From the temporary path on: the guard removes the file unless the capsule is published.\<close>

definition record_to ::
  "world \<Rightarrow> string \<Rightarrow> collection_request \<Rightarrow> run_metadata \<Rightarrow> string \<Rightarrow> string \<Rightarrow> file_system \<Rightarrow>
   (report \<times> file_system) option" where
  "record_to wo out request run temporary_path capsule_path fs =
     (let removed = fs(temporary_path := None) in
      case record_capsule wo request run temporary_path of
        None \<Rightarrow> None
      | Some (Inl e) \<Rightarrow> Some (exception_report out e, removed)
      | Some (Inr (res, c)) \<Rightarrow>
          (case publish_capsule (wo_copy_error wo) temporary_path capsule_path
                  (fs(temporary_path \<mapsto> c)) of
             Inl e \<Rightarrow> Some (exception_report out e, removed)
           | Inr fs' \<Rightarrow>
               Some (if \<not> collector_ok res then
                       mk_report out (''whyrun record: '' @ collect_error res @ nl @
                         ''partial capsule: '' @ capsule_path @ nl) 1
                     else
                       mk_report (out @ nl @ ''Capsule'' @ nl @ ''  '' @ capsule_path @ nl) []
                         (exit_code res), fs')))"

definition requested :: "world \<Rightarrow> string list \<Rightarrow> collection_request res" where
  "requested wo argv =
     (if length argv = 2 then bash_session (wo_strerror wo) (wo_null_fd wo) (wo_context_fd wo)
      else Inr (command_request (drop 3 argv)))"

definition new_run :: "world \<Rightarrow> string list \<Rightarrow> collection_request \<Rightarrow> string \<Rightarrow> run_metadata" where
  "new_run wo argv request capsule_path =
     \<lparr>rm_id = stem capsule_path,
      rm_mode = (if length argv = 2 then Session else Command),
      rm_command = (if length argv = 2 then [''/bin/bash''] else command request),
      rm_cwd = (case wo_cwd wo of None \<Rightarrow> [] | Some d \<Rightarrow> d),
      rm_start_ns = wo_start wo\<rparr>"

definition record_at ::
  "world \<Rightarrow> string \<Rightarrow> collection_request \<Rightarrow> run_metadata \<Rightarrow> string \<Rightarrow> file_system \<Rightarrow>
   (report \<times> file_system) option" where
  "record_at wo out request run capsule_path fs =
     (case temporary_capsule_path (wo_temp_dir wo) (wo_pid wo) (wo_temp_exists wo) (rm_id run) of
        None \<Rightarrow> None
      | Some (Inl e) \<Rightarrow> Some (exception_report out e, fs)
      | Some (Inr temporary_path) \<Rightarrow>
          record_to wo out request run temporary_path capsule_path fs)"

definition record_command ::
  "world \<Rightarrow> string list \<Rightarrow> file_system \<Rightarrow> (report \<times> file_system) option" where
  "record_command wo argv fs =
     (if length argv \<noteq> 2 \<and> (length argv < 4 \<or> argv ! 2 \<noteq> ''--'') then
        Some (mk_report []
          (''whyrun record: expected no arguments or -- followed by a command'' @ nl @ ''Try '' @
           [CHR 0x27] @ ''whyrun help record'' @ [CHR 0x27] @ ''.'' @ nl) 2, fs)
      else
        case requested wo argv of
          Inl e \<Rightarrow> Some (exception_report [] e, fs)
        | Inr request \<Rightarrow>
            (case default_capsule_path (wo_stamp wo) (wo_exists wo) of
               None \<Rightarrow> None
             | Some (Inl e) \<Rightarrow> Some (exception_report [] e, fs)
             | Some (Inr capsule_path) \<Rightarrow>
                 record_at wo (if length argv = 2 then banner else []) request
                   (new_run wo argv request capsule_path) capsule_path fs))"

section \<open>main\<close>

definition with_files :: "report \<Rightarrow> file_system \<Rightarrow> (report \<times> file_system) option" where
  "with_files r fs = Some (r, fs)"

definition run_main :: "world \<Rightarrow> string list \<Rightarrow> file_system \<Rightarrow> (report \<times> file_system) option" where
  "run_main wo argv fs =
     (if length argv < 2 then with_files (mk_report [] (general_help (wo_version wo)) 2) fs
      else
        let cmd = argv ! 1 in
        if cmd = ''help'' then with_files (help_command (wo_version wo) argv) fs
        else if cmd = ''--help'' \<or> cmd = ''-h'' then
          with_files
            (if length argv \<noteq> 2
             then mk_report [] (''whyrun: global help does not accept arguments'' @ nl) 2
             else mk_report (general_help (wo_version wo)) [] 0) fs
        else if cmd = ''version'' \<or> cmd = ''--version'' then
          with_files
            (if length argv \<noteq> 2 then mk_report [] (''whyrun version: unexpected argument'' @ nl) 2
             else mk_report (''WhyRun '' @ wo_version wo @ nl) [] 0) fs
        else if (cmd = ''record'' \<or> cmd = ''show'' \<or> cmd = ''diff'') \<and>
                length argv = 3 \<and> is_help_flag (argv ! 2) then
          with_files (mk_report (case command_help (wo_version wo) cmd of
                                   None \<Rightarrow> [] | Some text \<Rightarrow> text) [] 0) fs
        else if cmd = ''record'' then record_command wo argv fs
        else if cmd = ''show'' then with_files (show_command wo argv fs) fs
        else if cmd = ''diff'' then
          with_files
            (if length argv \<noteq> 4 then
               mk_report [] (''whyrun diff: expected two capsule paths'' @ nl @ ''Try '' @
                 [CHR 0x27] @ ''whyrun help diff'' @ [CHR 0x27] @ ''.'' @ nl) 2
             else diff_capsules (open_capsule wo fs (argv ! 2)) (argv ! 2)
                    (open_capsule wo fs (argv ! 3)) (argv ! 3)) fs
        else
          with_files
            (mk_report [] (''whyrun: unknown command: '' @ cmd @ nl @ ''Try '' @
               [CHR 0x27] @ ''whyrun help'' @ [CHR 0x27] @ ''.'' @ nl) 2) fs)"

section \<open>What a recording leaves\<close>

lemma search_temporary_free:
  assumes "search_temporary exists_file dir base k = Some (Inr p)"
  shows "exists_file p = Inr False"
proof -
  have "\<forall>p. r = Inr p \<longrightarrow> exists_file p = Inr False"
    if "search_temporary exists_file dir base k = Some r" for r
  proof (rule search_temporary.raw_induct
      [where P = "\<lambda>exists_file dir base k r. \<forall>p. r = Inr p \<longrightarrow> exists_file p = Inr False",
       OF _ that])
    fix f ex d b n r
    assume IH: "\<And>ex d b n r. f ex d b n = Some r \<Longrightarrow> \<forall>p. r = Inr p \<longrightarrow> ex p = Inr False"
      and eq: "(let candidate = path_append d (temporary_name b n) in
        case ex candidate of
          Inl message \<Rightarrow>
            Some (Inl (System_error (''inspect temporary capsule path: '' @ message)))
        | Inr found \<Rightarrow> if found then f ex d b (n + 1) else Some (Inr candidate)) = Some r"
    show "\<forall>p. r = Inr p \<longrightarrow> ex p = Inr False"
      using eq IH by (auto simp: Let_def split: sum.splits if_splits)
  qed
  with assms show ?thesis by blast
qed

lemma temporary_path_free:
  assumes "temporary_capsule_path dir pid exists_file run = Some (Inr p)"
  shows "exists_file p = Inr False"
  using assms search_temporary_free
  by (fastforce simp: temporary_capsule_path_def split: sum.splits)

lemma publish_new:
  assumes "publish_capsule copy_error t p (fs(t \<mapsto> c)) = Inr fs'" "fs t = None"
  shows "fs p = None \<and> fs' = fs(p \<mapsto> c)"
  using assms
  by (auto simp: publish_capsule_def Let_def fun_eq_iff split: if_splits option.splits)

text \<open>The events of a run of the callbacks from the initial process on.\<close>

definition run_of_callbacks :: "collection_request \<Rightarrow> launch \<Rightarrow> event list \<Rightarrow> bool" where
  "run_of_callbacks request la evs \<longleftrightarrow>
     (\<exists>root dir st0 evs0 tr st. la_fork la = Inr root \<and>
        add_initial_process empty_execution root dir (root_command request) (la_now la) =
          (st0, evs0) \<and>
        exec_trace st0 tr st \<and> evs = evs0 @ trace_events tr)"

text \<open>A finished capsule: what a writer holds that took the events and the result.\<close>

definition holds_recording ::
  "string \<Rightarrow> run_metadata \<Rightarrow> event list \<Rightarrow> collection_result \<Rightarrow> capsule \<Rightarrow> bool" where
  "holds_recording version run evs res c \<longleftrightarrow>
     (\<exists>w w'. emit_all emit_writer evs (open_writer version run) = Inr w \<and>
        finish_writer res w = Inr w' \<and> c = close_writer w')"

definition kernel_ok :: "world \<Rightarrow> bool" where
  "kernel_ok wo \<longleftrightarrow>
     (\<forall>root. la_fork (wo_launch wo) = Inr root \<longrightarrow>
        (\<forall>w \<in> set (wo_wakeups wo). fresh_child root w))"

text \<open>What the writer of the tables collected, given what the session collected.\<close>

lemma session_collects:
  assumes "collect strerror (emit_sink (sqlite_of wo)) request la ws s = Inr (Collected res s1)"
    and "\<forall>root. la_fork la = Inr root \<longrightarrow> (\<forall>w \<in> set ws. fresh_child root w)"
    and "conn s = writer_connection w0" "\<not> finished w0"
  obtains evs w where "emit_all emit_writer evs w0 = Inr w" "conn s1 = writer_connection w"
    "\<not> finished w" "run_of_callbacks request la evs \<or> evs = [] \<and> \<not> collector_ok res"
proof -
  consider (none) "\<not> collector_ok res" "s1 = s"
    | (some) evs where "run_of_callbacks request la evs"
      "emit_all (emit_sink (sqlite_of wo)) evs s = Inr s1"
    using collect_runs[OF assms(1,2)] unfolding run_of_callbacks_def by blast
  then show ?thesis
  proof cases
    case none
    with assms(3,4) that[of "[]" w0] show ?thesis by simp
  next
    case some
    obtain w where "emit_all emit_writer evs w0 = Inr w" "conn s1 = writer_connection w"
        "\<not> finished w"
      using documented.sink_emits_all[OF some(2)[unfolded sqlite_of_def] assms(3,4)] by blast
    with some(1) that show ?thesis by blast
  qed
qed

lemma record_capsule_holds:
  assumes "record_capsule wo request run path = Some (Inr (res, c))" "kernel_ok wo"
  shows "\<exists>evs. holds_recording (wo_version wo) run evs res c \<and>
    (run_of_callbacks request (wo_launch wo) evs \<or> evs = [] \<and> \<not> collector_ok res)"
proof -
  let ?w0 = "open_writer (wo_version wo) run"
  obtain s where s: "sql_open_writer (sqlite_of wo) path (wo_version wo) run
      (fresh_session no_database) = (Inr (), s)"
    using assms(1) by (auto simp: record_capsule_def split: sum.splits prod.splits)
  obtain s1 where s1: "collect (wo_strerror wo) (emit_sink (sqlite_of wo)) request (wo_launch wo)
      (wo_wakeups wo) s = Inr (Collected res s1)"
    using assms(1) s
    by (auto simp: record_capsule_def split: sum.splits prod.splits collect_end.splits)
  obtain s2 where s2: "sql_finish (sqlite_of wo) False res s1 = (Inr (), s2)"
      "c = committed (conn (sql_destroy (sqlite_of wo) True s2))"
    using assms(1) s s1 by (auto simp: record_capsule_def split: sum.splits prod.splits)
  have "\<not> in_transaction (conn (fresh_session no_database))"
    by simp
  then have "conn s = writer_connection ?w0"
    using s unfolding sqlite_of_def
    by (cases rule: documented.writer_starts[where path = path and tool_version = "wo_version wo"
          and run = run and cannot_open = "wo_sql_open wo" and faults = "wo_sql_fault wo"
          and errors = "wo_sql_error wo"]) simp_all
  moreover have "\<not> finished ?w0"
    by (simp add: open_writer_def)
  ultimately obtain evs w where evs: "emit_all emit_writer evs ?w0 = Inr w"
      "conn s1 = writer_connection w" "\<not> finished w"
      "run_of_callbacks request (wo_launch wo) evs \<or> evs = [] \<and> \<not> collector_ok res"
    using session_collects[OF s1 assms(2)[unfolded kernel_ok_def]] by blast
  from evs(2,3) obtain w' where w': "finish_writer res w = Inr w'" "conn s2 = writer_connection w'"
      "finished w'"
    using s2(1) unfolding sqlite_of_def
    by (cases rule: documented.writer_finishes[where result = res and cannot_open = "wo_sql_open wo"
          and faults = "wo_sql_fault wo" and errors = "wo_sql_error wo"]) simp_all
  then have "c = close_writer w'"
    using s2(2) documented.destroy_keeps[of True s2] by (simp add: sqlite_of_def close_writer_def)
  with evs w'(1) show ?thesis
    unfolding holds_recording_def by blast
qed

text \<open>Without faults of SQLite, a recording is one into the tables.\<close>

definition table_recording ::
  "world \<Rightarrow> collection_request \<Rightarrow> run_metadata \<Rightarrow> (collection_result \<times> capsule) res option" where
  "table_recording wo request run =
     (case collect (wo_strerror wo) emit_writer request (wo_launch wo) (wo_wakeups wo)
             (open_writer (wo_version wo) run) of
        Inl e \<Rightarrow> Some (Inl e)
      | Inr Blocked \<Rightarrow> None
      | Inr (Collected res w) \<Rightarrow>
          Some (bind_res (finish_writer res w) (\<lambda>w'. Inr (res, close_writer w'))))"

definition same_tables :: "connection session \<Rightarrow> capsule_writer \<Rightarrow> bool" where
  "same_tables s w \<longleftrightarrow> conn s = writer_connection w \<and> \<not> finished w"

interpretation session_sink:
  sink_relation "emit_sink (documented_sqlite cannot_open (\<lambda>_. None) errors)" emit_writer same_tables
proof
  fix s w e
  assume "same_tables s w"
  then have "conn s = writer_connection w" "\<not> finished w"
    by (simp_all add: same_tables_def)
  then show "rel_sum (=) same_tables
      (emit_sink (documented_sqlite cannot_open (\<lambda>_. None) errors) e s) (emit_writer e w)"
    by (cases rule: documented.writer_emits[where e = e and cannot_open = cannot_open and
          faults = "\<lambda>_. None" and errors = errors])
      (simp_all add: emit_sink_def same_tables_def)
qed

lemma record_capsule_tables:
  assumes "wo_sql_open wo = None" "wo_sql_fault wo = (\<lambda>_. None)"
  shows "record_capsule wo request run path = table_recording wo request run"
proof -
  let ?lib = "documented_sqlite None (\<lambda>_. None) (wo_sql_error wo)"
  have lib: "sqlite_of wo = ?lib"
    by (simp add: sqlite_of_def assms)
  have "\<not> in_transaction (conn (fresh_session no_database))"
    by simp
  then obtain s where s: "sql_open_writer ?lib path (wo_version wo) run
      (fresh_session no_database) = (Inr (), s)"
      "conn s = writer_connection (open_writer (wo_version wo) run)"
    by (cases rule: documented.writer_starts[where path = path and tool_version = "wo_version wo"
          and run = run and cannot_open = None and faults = "\<lambda>_. None"
          and errors = "wo_sql_error wo"]) auto
  have finish: "(case sql_finish ?lib False res s1 of
         (Inl e, s2) \<Rightarrow> Inl e
       | (Inr v, s2) \<Rightarrow> Inr (res, committed (conn (sql_destroy ?lib True s2)))) =
      bind_res (finish_writer res w) (\<lambda>w'. Inr (res, close_writer w'))"
    if "same_tables s1 w" for s1 w res
  proof -
    have "conn s1 = writer_connection w" "\<not> finished w"
      using that by (simp_all add: same_tables_def)
    then show ?thesis
      by (cases rule: documented.writer_finishes[where result = res and cannot_open = None
            and faults = "\<lambda>_. None" and errors = "wo_sql_error wo"])
        (simp_all add: documented.destroy_keeps close_writer_def)
  qed
  have "same_tables s (open_writer (wo_version wo) run)"
    using s(2) by (simp add: same_tables_def open_writer_def)
  then have "rel_sum (=) (rel_collect_end same_tables)
      (collect (wo_strerror wo) (emit_sink ?lib) request (wo_launch wo) (wo_wakeups wo) s)
      (collect (wo_strerror wo) emit_writer request (wo_launch wo) (wo_wakeups wo)
        (open_writer (wo_version wo) run))"
    by (rule session_sink.collect_related)
  then show ?thesis
    unfolding record_capsule_def table_recording_def lib s(1) prod.case sum.case
    by (cases rule: rel_sum.cases)
      (auto simp: finish split: collect_end.splits elim: collect_end.rel_cases)
qed

text \<open>The two ends of \<open>record\<close>: an error that leaves the files alone, or a new capsule.\<close>

definition record_failed :: "report \<Rightarrow> bool" where
  "record_failed r \<longleftrightarrow> (exit_status r = 1 \<or> exit_status r = 2) \<and> std_err r \<noteq> []"

definition success_report :: "string \<Rightarrow> string \<Rightarrow> collection_result \<Rightarrow> report" where
  "success_report out path res =
     (if collector_ok res then
        mk_report (out @ nl @ ''Capsule'' @ nl @ ''  '' @ path @ nl) [] (exit_code res)
      else
        mk_report out (''whyrun record: '' @ collect_error res @ nl @ ''partial capsule: '' @
          path @ nl) 1)"

definition published ::
  "world \<Rightarrow> string \<Rightarrow> collection_request \<Rightarrow> run_metadata \<Rightarrow> string \<Rightarrow> file_system \<Rightarrow>
   report \<Rightarrow> file_system \<Rightarrow> bool" where
  "published wo out request run p fs r fs' \<longleftrightarrow>
     (\<exists>evs res c. fs p = None \<and> fs' = fs(p \<mapsto> c) \<and> r = success_report out p res \<and>
        holds_recording (wo_version wo) run evs res c \<and>
        (run_of_callbacks request (wo_launch wo) evs \<or> evs = [] \<and> \<not> collector_ok res))"

lemma exception_failed [simp]: "record_failed (exception_report out e)"
  by (simp add: record_failed_def exception_report_def mk_report_def)

lemma record_to_ends:
  assumes "record_to wo out request run t p fs = Some (r, fs')" "fs t = None" "kernel_ok wo"
  shows "(record_failed r \<and> fs' = fs) \<or> published wo out request run p fs r fs'"
proof -
  have removed: "fs(t := None) = fs"
    using assms(2) by auto
  obtain q where q: "record_capsule wo request run t = Some q"
    using assms(1) by (cases "record_capsule wo request run t") (auto simp: record_to_def)
  show ?thesis
  proof (cases q)
    case (Inl e)
    with assms(1) q removed show ?thesis by (auto simp: record_to_def Let_def)
  next
    case (Inr rc)
    obtain res c where rc: "q = Inr (res, c)"
      using Inr by (cases rc) simp
    show ?thesis
    proof (cases "publish_capsule (wo_copy_error wo) t p (fs(t \<mapsto> c))")
      case (Inl e)
      with assms(1) q rc removed show ?thesis by (auto simp: record_to_def Let_def)
    next
      case (Inr fs2)
      then have "r = success_report out p res" "fs' = fs2"
        using assms(1) q rc by (auto simp: record_to_def success_report_def Let_def)
      with publish_new[OF Inr assms(2)] record_capsule_holds[OF _ assms(3)] q rc
      show ?thesis unfolding published_def by blast
    qed
  qed
qed

lemma record_at_ends:
  assumes "record_at wo out request run p fs = Some (r, fs')" "kernel_ok wo"
    and "\<And>p. wo_temp_exists wo p = Inr False \<Longrightarrow> fs p = None"
  shows "(record_failed r \<and> fs' = fs) \<or> published wo out request run p fs r fs'"
proof -
  obtain q where q: "temporary_capsule_path (wo_temp_dir wo) (wo_pid wo) (wo_temp_exists wo)
      (rm_id run) = Some q"
    using assms(1) by (auto simp: record_at_def split: option.splits)
  show ?thesis
  proof (cases q)
    case (Inl e)
    with assms(1) q show ?thesis by (auto simp: record_at_def)
  next
    case (Inr t)
    then have "fs t = None"
      using assms(3) temporary_path_free q by blast
    moreover have "record_to wo out request run t p fs = Some (r, fs')"
      using assms(1) q Inr by (simp add: record_at_def)
    ultimately show ?thesis
      using record_to_ends assms(2) by blast
  qed
qed

lemma record_command_ends:
  assumes "record_command wo argv fs = Some (r, fs')" "kernel_ok wo"
    and "\<And>p. wo_temp_exists wo p = Inr False \<Longrightarrow> fs p = None"
  shows "(record_failed r \<and> fs' = fs) \<or>
    (\<exists>request p. requested wo argv = Inr request \<and>
      default_capsule_path (wo_stamp wo) (wo_exists wo) = Some (Inr p) \<and>
      published wo (if length argv = 2 then banner else []) request
        (new_run wo argv request p) p fs r fs')"
proof (cases "length argv \<noteq> 2 \<and> (length argv < 4 \<or> argv ! 2 \<noteq> ''--'')")
  case True
  with assms(1) show ?thesis
    by (auto simp: record_command_def record_failed_def mk_report_def)
next
  case args: False
  show ?thesis
  proof (cases "requested wo argv")
    case (Inl e)
    with assms(1) args show ?thesis by (auto simp: record_command_def)
  next
    case req: (Inr request)
    obtain q where path: "default_capsule_path (wo_stamp wo) (wo_exists wo) = Some q"
      using assms(1) args req by (auto simp: record_command_def split: option.splits)
    show ?thesis
    proof (cases q)
      case (Inl e)
      with assms(1) args req path show ?thesis by (auto simp: record_command_def)
    next
      case (Inr p)
      then have "record_at wo (if length argv = 2 then banner else []) request
          (new_run wo argv request p) p fs = Some (r, fs')"
        using assms(1) args req path unfolding record_command_def by (simp only: if_False) simp
      from record_at_ends[OF this assms(2,3)] req path Inr show ?thesis by blast
    qed
  qed
qed

section \<open>Showing a recording\<close>

lemma holds_recording_tables:
  assumes "holds_recording version run evs res c"
  shows "\<exists>r. t_runs c = [r] \<and> run_mode_text r = run_mode_name (rm_mode run) \<and>
      run_command r = format_command (rm_command run) \<and> run_exit_code r = Some (exit_code res) \<and>
      run_term_signal r = Some (term_signal res)"
    and "validate_schema c = Inr 3"
    and "map row_content (t_events c) = map entry_of_event evs"
proof -
  obtain w w' where w: "emit_all emit_writer evs (open_writer version run) = Inr w"
      "finish_writer res w = Inr w'" "c = close_writer w'"
    using assms by (auto simp: holds_recording_def)
  have u: "t_runs (w_db w) = t_runs (w_db (open_writer version run))"
    using emit_all_unfinished[OF w(1)] by blast
  have meta: "t_metadata (w_db w) = t_metadata (w_db (open_writer version run))"
    using w(1)
  proof (rule emit_all_history)
    show "t_metadata db' = t_metadata (w_db (open_writer version run))"
      if "emit_capsule e db = Inr db'" "t_metadata db = t_metadata (w_db (open_writer version run))"
      for e db db'
      using emit_capsule_events[OF that(1)] that(2) by simp
  qed simp
  have c: "c = (w_db w)\<lparr>t_runs :=
      update_where (\<lambda>_. True)
        (\<lambda>r. r\<lparr>run_end_ns := Some (as_i64 (end_ns res)), run_exit_code := Some (exit_code res),
               run_term_signal := Some (term_signal res)\<rparr>) (t_runs (w_db w))\<rparr>"
    using w(2,3) by (auto simp: finish_writer_def close_writer_def Let_def split: if_splits)
  show "\<exists>r. t_runs c = [r] \<and> run_mode_text r = run_mode_name (rm_mode run) \<and>
      run_command r = format_command (rm_command run) \<and> run_exit_code r = Some (exit_code res) \<and>
      run_term_signal r = Some (term_signal res)"
    unfolding c u by (simp add: open_writer_def update_where_def)
  have "c_str ''3'' = ''3''" by code_simp
  then show "validate_schema c = Inr 3"
    unfolding c by (simp add: meta validate_schema_def open_writer_def column_text_def Let_def)
  show "map row_content (t_events c) = map entry_of_event evs"
    unfolding c using event_log[OF w(1)] by simp
qed

definition result_text :: "string list \<Rightarrow> bool \<Rightarrow> collection_result \<Rightarrow> string" where
  "result_text cmd session res =
     (if session then ''Session'' @ nl @ ''  shell '' else ''Command'' @ nl @ ''  '') @
     format_command cmd @ nl @ nl @ ''Exit'' @ nl @ ''  code '' @ show_int (exit_code res) @
     (if term_signal res \<noteq> 0 then '' (signal '' @ show_int (term_signal res) @ '')'' else [])"

lemma show_holds_recording:
  assumes "holds_recording version run evs res c" "CHR 0x00 \<notin> set (format_command (rm_command run))"
    and "so_command_id options = None"
  shows "\<exists>rest. show_capsule (Inr c) options =
    mk_report (result_text (rm_command run) (rm_mode run = Session) res @ rest) [] 0"
proof -
  obtain r where r: "t_runs c = [r]" "run_mode_text r = run_mode_name (rm_mode run)"
      "run_command r = format_command (rm_command run)" "run_exit_code r = Some (exit_code res)"
      "run_term_signal r = Some (term_signal res)"
    using holds_recording_tables(1)[OF assms(1)] by blast
  have mode: "c_str (run_mode_name (rm_mode run)) = ''session'' \<longleftrightarrow> rm_mode run = Session"
    by (cases "rm_mode run") (simp_all add: c_str_def)
  show ?thesis
    using r assms(2,3) holds_recording_tables(2)[OF assms(1)] mode
    by (auto simp: show_capsule_def show_text_def show_run_header_def show_body_def mk_report_def
        result_text_def column_text_def column_int_def c_str_id nl_def Let_def)
qed

lemma shell_quote_no_nul: "CHR 0x00 \<notin> set v \<Longrightarrow> CHR 0x00 \<notin> set (shell_quote v)"
  by (auto simp: shell_quote_def apostrophe_def backslash_def split: if_splits)

lemma format_command_no_nul:
  assumes "list_all (\<lambda>v. CHR 0x00 \<notin> set v) args"
  shows "CHR 0x00 \<notin> set (format_command args)"
proof -
  have "CHR 0x00 \<notin> set (join_space ws)" if "list_all (\<lambda>w. CHR 0x00 \<notin> set w) ws" for ws
    using that by (induction ws rule: join_space.induct) simp_all
  then show ?thesis
    using assms by (simp add: format_command_def list.pred_map comp_def list_all_iff shell_quote_no_nul)
qed

section \<open>The options of show\<close>

text \<open>
  The grammar of the options, as the help text gives it: words of one or two arguments, at
  most one of them a command id, a decimal number from 1 to \<open>2^63 - 1\<close>.
\<close>

datatype show_word = Events_word | Command_word string

fun word_args :: "show_word \<Rightarrow> string list" where
  "word_args Events_word = [''--events'']"
| "word_args (Command_word v) = [''--command'', v]"

definition id_of :: "string \<Rightarrow> int option" where
  "id_of v =
     (let (ec, i, left) = from_chars_signed 64 v in
      if ec = Errc_ok \<and> left = [] \<and> 0 < i then Some i else None)"

fun word_ok :: "show_word \<Rightarrow> bool" where
  "word_ok Events_word \<longleftrightarrow> True"
| "word_ok (Command_word v) \<longleftrightarrow> id_of v \<noteq> None"

fun apply_word :: "show_options \<Rightarrow> show_word \<Rightarrow> show_options" where
  "apply_word options Events_word = options\<lparr>so_events := True\<rparr>"
| "apply_word options (Command_word v) = options\<lparr>so_command_id := id_of v\<rparr>"

definition is_command_word :: "show_word \<Rightarrow> bool" where
  "is_command_word w \<longleftrightarrow> (case w of Events_word \<Rightarrow> False | Command_word _ \<Rightarrow> True)"

definition words_ok :: "show_options \<Rightarrow> show_word list \<Rightarrow> bool" where
  "words_ok options ws \<longleftrightarrow> list_all word_ok ws \<and>
     length (filter is_command_word ws) \<le> (if so_command_id options = None then 1 else 0)"

lemma option_words [simp]:
  "show_option_loop (''--events'' # args) options = show_option_loop args (options\<lparr>so_events := True\<rparr>)"
  "show_option_loop (''--command'' # v # args) options =
     (if so_command_id options \<noteq> None then
        Inl (''whyrun show: --command may only be specified once'' @ nl)
      else case id_of v of
        None \<Rightarrow> Inl (''whyrun show: invalid command id: '' @ v @ nl)
      | Some i \<Rightarrow> show_option_loop args (options\<lparr>so_command_id := Some i\<rparr>))"
  by (auto simp: id_of_def Let_def split: prod.splits)

declare show_option_loop.simps(2) [simp del]

lemma show_option_words:
  assumes "words_ok options ws"
  shows "show_option_loop (concat (map word_args ws)) options = Inr (foldl apply_word options ws)"
  using assms
proof (induction ws arbitrary: options)
  case Nil
  then show ?case by simp
next
  case (Cons w ws)
  show ?case
  proof (cases w)
    case Events_word
    with Cons show ?thesis by (simp add: words_ok_def is_command_word_def)
  next
    case (Command_word v)
    then have none: "so_command_id options = None" "id_of v \<noteq> None" "filter is_command_word ws = []"
      using Cons.prems by (auto simp: words_ok_def is_command_word_def split: if_splits)
    then obtain i where i: "id_of v = Some i" by blast
    have "words_ok (options\<lparr>so_command_id := Some i\<rparr>) ws"
      using Cons.prems none(3) by (simp add: words_ok_def)
    from Cons.IH[OF this] Command_word none(1) i show ?thesis by simp
  qed
qed

lemma show_option_accepts:
  assumes "show_option_loop args options = Inr result"
  shows "\<exists>ws. args = concat (map word_args ws) \<and> words_ok options ws \<and>
    result = foldl apply_word options ws"
  using assms
proof (induction args options rule: show_option_loop.induct)
  case (1 options)
  then show ?case by (intro exI[of _ "[]"]) (simp add: words_ok_def)
next
  case (2 option args options)
  show ?case
  proof (cases "option = ''--events''")
    case True
    with 2 obtain ws where "args = concat (map word_args ws)"
        "words_ok (options\<lparr>so_events := True\<rparr>) ws"
        "result = foldl apply_word (options\<lparr>so_events := True\<rparr>) ws"
      by auto
    with True show ?thesis
      by (intro exI[of _ "Events_word # ws"]) (simp add: words_ok_def is_command_word_def)
  next
    case ev: False
    then have cmd: "option = ''--command''" "so_command_id options = None" "args \<noteq> []"
      using "2.prems" by (auto simp: show_option_loop.simps(2) split: if_splits list.splits)
    then obtain v rest where args: "args = v # rest"
      by (cases args) auto
    obtain i where i: "id_of v = Some i"
        "show_option_loop rest (options\<lparr>so_command_id := Some i\<rparr>) = Inr result"
      using "2.prems" cmd args by (auto split: option.splits)
    obtain ec left where fc: "from_chars_signed 64 v = (ec, i, left)" "ec = Errc_ok" "left = []" "0 < i"
      using i(1) by (auto simp: id_of_def Let_def split: prod.splits if_splits)
    obtain ws where "rest = concat (map word_args ws)"
        "words_ok (options\<lparr>so_command_id := Some i\<rparr>) ws"
        "result = foldl apply_word (options\<lparr>so_command_id := Some i\<rparr>) ws"
      using "2.IH"(2)[OF ev cmd(1) _ args fc(1)[symmetric] refl] cmd(2) fc i(2) by auto
    with cmd args i(1) show ?thesis
      by (intro exI[of _ "Command_word v # ws"]) (simp add: words_ok_def is_command_word_def)
  qed
qed

section \<open>A recording of a command that is killed\<close>

definition sample_world :: world where
  "sample_world = \<lparr>wo_version = ''1'', wo_strerror = (\<lambda>_. []), wo_null_fd = Inr 3,
     wo_context_fd = Inr 10, wo_stamp = ''x'', wo_exists = (\<lambda>_. Inr False),
     wo_temp_dir = Inr ''/tmp'', wo_temp_exists = (\<lambda>_. Inr False), wo_pid = 7,
     wo_cwd = Some ''/'', wo_start = 1, wo_sql_open = None,
     wo_sql_fault = (\<lambda>_. None), wo_sql_error = (\<lambda>_. None), wo_launch = sample_launch,
     wo_wakeups = sample_wakeups, wo_copy_error = None, wo_read_error = (\<lambda>_. [])\<rparr>"

definition sample_argv :: "string list" where
  "sample_argv = [''whyrun'', ''record'', ''--'', ''true'']"

definition sample_capsule :: "(collection_result \<times> capsule) res option" where
  "sample_capsule = table_recording sample_world (command_request [''true''])
     (new_run sample_world sample_argv (command_request [''true'']) ''run-x.wrun'')"

lemma sample_capsule_recorded:
  "\<exists>res c. sample_capsule = Some (Inr (res, c)) \<and> collector_ok res \<and> exit_code res = 137"
proof -
  have "(case sample_capsule of
      Some (Inr (res, c)) \<Rightarrow> collector_ok res \<and> exit_code res = 137 | _ \<Rightarrow> False)"
    by code_simp
  then show ?thesis
    by (auto split: option.splits sum.splits)
qed

lemma sample_capsule_session:
  "record_capsule sample_world (command_request [''true''])
     (new_run sample_world sample_argv (command_request [''true'']) ''run-x.wrun'') t = sample_capsule"
  by (simp add: record_capsule_tables sample_capsule_def sample_world_def)

lemma sample_paths:
  "default_capsule_path (wo_stamp sample_world) (wo_exists sample_world) = Some (Inr ''run-x.wrun'')"
  "\<exists>t. temporary_capsule_path (wo_temp_dir sample_world) (wo_pid sample_world)
     (wo_temp_exists sample_world) run = Some (Inr t) \<and> t \<noteq> ''run-x.wrun''"
proof -
  show "default_capsule_path (wo_stamp sample_world) (wo_exists sample_world) =
      Some (Inr ''run-x.wrun'')"
    by (simp add: sample_world_def default_capsule_path_def search_default.simps)
  have "path_append ''/tmp'' s \<noteq> ''run-x.wrun''" if "s \<noteq> [] \<and> hd s = CHR ''.''" for s
    using that by (auto simp: path_append_def is_absolute_def slash_def split: if_splits list.splits)
  then show "\<exists>t. temporary_capsule_path (wo_temp_dir sample_world) (wo_pid sample_world)
     (wo_temp_exists sample_world) run = Some (Inr t) \<and> t \<noteq> ''run-x.wrun''"
    by (simp add: sample_world_def temporary_capsule_path_def search_temporary.simps temporary_name_def)
qed

lemma sample_records:
  "\<exists>r c. record_command sample_world sample_argv Map.empty =
     Some (r, [''run-x.wrun'' \<mapsto> c]) \<and> exit_status r = 137"
proof -
  obtain res c where rc: "sample_capsule = Some (Inr (res, c))" "collector_ok res" "exit_code res = 137"
    using sample_capsule_recorded by blast
  define run where "run = new_run sample_world sample_argv (command_request [''true'']) ''run-x.wrun''"
  obtain t where t: "temporary_capsule_path (wo_temp_dir sample_world) (wo_pid sample_world)
      (wo_temp_exists sample_world) (rm_id run) = Some (Inr t)" "t \<noteq> ''run-x.wrun''"
    using sample_paths(2) by blast
  have copy: "wo_copy_error sample_world = None"
    by (simp add: sample_world_def)
  have "publish_capsule (wo_copy_error sample_world) t ''run-x.wrun'' [t \<mapsto> c] =
      Inr [''run-x.wrun'' \<mapsto> c]"
    using t(2) by (auto simp: publish_capsule_def copy fun_eq_iff)
  moreover have "record_capsule sample_world (command_request [''true'']) run t = Some (Inr (res, c))"
    unfolding run_def sample_capsule_session by (rule rc(1))
  ultimately have "record_at sample_world [] (command_request [''true'']) run ''run-x.wrun'' Map.empty =
      Some (mk_report (nl @ ''Capsule'' @ nl @ ''  '' @ ''run-x.wrun'' @ nl) [] 137,
        [''run-x.wrun'' \<mapsto> c])"
    using t(1) rc(2,3) by (simp add: record_at_def record_to_def Let_def)
  then have "record_command sample_world sample_argv Map.empty =
      Some (mk_report (nl @ ''Capsule'' @ nl @ ''  '' @ ''run-x.wrun'' @ nl) [] 137,
        [''run-x.wrun'' \<mapsto> c])"
    using sample_paths(1) by (simp add: record_command_def sample_argv_def requested_def run_def)
  then show ?thesis
    by (auto simp: mk_report_def)
qed

lemma sample_kernel: "kernel_ok sample_world"
  using sample_fresh by (simp add: kernel_ok_def sample_world_def)

section \<open>Properties\<close>



text \<open>
  C14. A capsule that record has published can be shown: show of its path prints to the
  standard output, with status 0 and no error, a report that begins with the recorded command
  line and the exit code and signal that the collection ended with.
\<close>

theorem record_then_show:
  assumes "record_command wo argv fs = Some (r, fs')" "kernel_ok wo" "fs' \<noteq> fs"
    and "\<And>p. wo_temp_exists wo p = Inr False \<Longrightarrow> fs p = None"
    and "list_all (\<lambda>v. CHR 0x00 \<notin> set v) argv"
  shows "\<exists>p res rest. fs p = None \<and>
    r = success_report (if length argv = 2 then banner else []) p res \<and>
    show_command wo2 [prog, ''show'', p] fs' =
      mk_report (result_text (if length argv = 2 then [''/bin/bash''] else drop 3 argv)
        (length argv = 2) res @ rest) [] 0"
proof -
  obtain request p evs res c where rec: "requested wo argv = Inr request" "fs p = None"
      "fs' = fs(p \<mapsto> c)" "r = success_report (if length argv = 2 then banner else []) p res"
      "holds_recording (wo_version wo) (new_run wo argv request p) evs res c"
    using record_command_ends[OF assms(1,2,4)] assms(3) unfolding published_def by blast
  let ?run = "new_run wo argv request p"
  have cmd: "rm_command ?run = (if length argv = 2 then [''/bin/bash''] else drop 3 argv)"
      "rm_mode ?run = Session \<longleftrightarrow> length argv = 2"
    using rec(1) by (auto simp: new_run_def requested_def command_request_def)
  have "list_all (\<lambda>v. CHR 0x00 \<notin> set v) (drop 3 argv)"
    using assms(5) by (auto simp: list_all_iff dest: in_set_dropD)
  then have "CHR 0x00 \<notin> set (format_command (rm_command ?run))"
    unfolding cmd by (intro format_command_no_nul) simp
  from show_holds_recording[OF rec(5) this, of default_options] obtain rest where
      "show_capsule (Inr c) default_options =
        mk_report (result_text (rm_command ?run) (rm_mode ?run = Session) res @ rest) [] 0"
    by (auto simp: default_options_def)
  then have "show_command wo2 [prog, ''show'', p] fs' =
      mk_report (result_text (if length argv = 2 then [''/bin/bash''] else drop 3 argv)
        (length argv = 2) res @ rest) [] 0"
    unfolding cmd using rec(3) by (simp add: show_command_def open_capsule_def)
  with rec(2,4) show ?thesis by blast
qed

theorem record_then_show_witness:
  "\<exists>p fs' rest r res. record_command sample_world sample_argv Map.empty = Some (r, fs') \<and>
     show_command sample_world [''whyrun'', ''show'', p] fs' =
       mk_report (result_text [''true''] False res @ rest) [] 0 \<and> exit_code res = 137"
proof -
  obtain r c where rec: "record_command sample_world sample_argv Map.empty =
      Some (r, [''run-x.wrun'' \<mapsto> c])" "exit_status r = 137"
    using sample_records by blast
  have nul: "list_all (\<lambda>v. CHR 0x00 \<notin> set v) sample_argv"
    by (simp add: sample_argv_def)
  obtain p res rest where s: "r = success_report (if length sample_argv = 2 then banner else []) p res"
      "show_command sample_world [''whyrun'', ''show'', p] [''run-x.wrun'' \<mapsto> c] =
      mk_report (result_text (if length sample_argv = 2 then [''/bin/bash''] else drop 3 sample_argv)
        (length sample_argv = 2) res @ rest) [] 0"
    using record_then_show[OF rec(1) sample_kernel _ _ nul, of sample_world "''whyrun''"] by auto
  have "exit_code res = 137"
    using rec(2) s(1) by (auto simp: success_report_def mk_report_def split: if_splits)
  moreover have "show_command sample_world [''whyrun'', ''show'', p] [''run-x.wrun'' \<mapsto> c] =
       mk_report (result_text [''true''] False res @ rest) [] 0"
    using s(2) by (simp add: sample_argv_def)
  ultimately show ?thesis using rec(1) by blast
qed



text \<open>
  C36. The option loop of show accepts exactly the grammar of its help text: any number of
  --events and at most one --command with a decimal id from 1 to 2^63 - 1, in any order; and
  the options it returns are those that the words say.
\<close>

theorem show_options_grammar:
  "show_option_loop args default_options = Inr options \<longleftrightarrow>
     (\<exists>ws. args = concat (map word_args ws) \<and> list_all word_ok ws \<and>
        length (filter is_command_word ws) \<le> 1 \<and>
        options = foldl apply_word default_options ws)"
  using show_option_words[of default_options] show_option_accepts[of args default_options options]
  by (auto simp: words_ok_def default_options_def)

end
