(* ===== verification/Sqlite_Reading.thy ===== *)
theory Sqlite_Reading
  imports Sqlite_Client
begin

text \<open>
  Programs that read with \<open>ReadStatement\<close> (\<open>src/capsule_reader.hpp\<close>): scopes of statements with
  loops over their rows. With any library such a program returns and releases its handles
  (\<open>tidy\<close>); where the library answers the queries as a table of rows says, it computes a
  function of those rows (\<open>reads\<close>), or part of it up to a fault.
\<close>

section \<open>Reading\<close>

text \<open>
  A reader works on an accumulator, such as the text printed so far, which an exception does
  not undo; it may also not return.
\<close>

type_synonym ('c, 'a) reader = "'a \<Rightarrow> 'c session \<Rightarrow> (unit res \<times> 'a \<times> 'c session) option"

text \<open>\<open>while (statement.next())\<close> with a body that works on the row.\<close>

partial_function (option) read_loop ::
  "'c sqlite \<Rightarrow> nat \<Rightarrow> (sql_value list \<Rightarrow> 'a \<Rightarrow> 'a) \<Rightarrow> 'a \<Rightarrow> 'c session \<Rightarrow>
   (unit res \<times> 'a \<times> 'c session) option" where
  "read_loop lib h body acc s =
     (case read_next lib h s of
        (r, s') \<Rightarrow>
          (case r of
             Inl e \<Rightarrow> Some (Inl e, acc, s')
           | Inr row \<Rightarrow>
               (case row of
                  None \<Rightarrow> Some (Inr (), acc, s')
                | Some vals \<Rightarrow> read_loop lib h body (body vals acc) s')))"

definition work :: "('a \<Rightarrow> 'a) \<Rightarrow> ('c, 'a) reader" where
  "work f acc s = Some (Inr (), f acc, s)"

definition stop_with :: "exn \<Rightarrow> ('c, 'a) reader" where
  "stop_with e acc s = Some (Inl e, acc, s)"

definition then_read :: "('c, 'a) reader \<Rightarrow> ('c, 'a) reader \<Rightarrow> ('c, 'a) reader" where
  "then_read m n acc s =
     (case m acc s of
        None \<Rightarrow> None
      | Some (r, acc', s') \<Rightarrow>
          (case r of
             Inl e \<Rightarrow> Some (Inl e, acc', s')
           | Inr u \<Rightarrow> n acc' s'))"

text \<open>A value that is computed first, on the accumulator's side of the exceptions.\<close>

definition obtain_then :: "('c, 'b) program \<Rightarrow> ('b \<Rightarrow> ('c, 'a) reader) \<Rightarrow> ('c, 'a) reader" where
  "obtain_then m k acc s =
     (case m s of
        (Inl e, s') \<Rightarrow> Some (Inl e, acc, s')
      | (Inr x, s') \<Rightarrow> k x acc s')"

text \<open>
  The scope of a \<open>ReadStatement\<close>: a loop over all rows and the rest of the scope, one
  \<open>next\<close> and the rest of the scope, and one \<open>next\<close> alone.
\<close>

definition scoped :: "'c sqlite \<Rightarrow> string \<Rightarrow> (nat \<Rightarrow> ('c, 'a) reader) \<Rightarrow> ('c, 'a) reader" where
  "scoped lib sql body =
     obtain_then (prepare lib sql) (\<lambda>h acc s.
       map_option (\<lambda>(r, acc', s'). (r, acc', finalize h s')) (body h acc s))"

definition query ::
  "'c sqlite \<Rightarrow> string \<Rightarrow> (sql_value list \<Rightarrow> 'a \<Rightarrow> 'a) \<Rightarrow> ('c, 'a) reader \<Rightarrow> ('c, 'a) reader" where
  "query lib sql body rest = scoped lib sql (\<lambda>h. then_read (read_loop lib h body) rest)"

definition with_row ::
  "'c sqlite \<Rightarrow> string \<Rightarrow> (sql_value list option \<Rightarrow> ('c, 'a) reader) \<Rightarrow> ('c, 'a) reader" where
  "with_row lib sql rest = scoped lib sql (\<lambda>h. obtain_then (read_next lib h) rest)"

definition first_row ::
  "'c sqlite \<Rightarrow> string \<Rightarrow> (sql_value list option \<Rightarrow> 'b res) \<Rightarrow> ('c, 'b) program" where
  "first_row lib sql f =
     with_statement lib sql (\<lambda>h. bind_sql (read_next lib h) (\<lambda>row. lift_res (f row)))"

text \<open>The rows that a statement still has to give, and the connection once it has been run.\<close>

definition result_rows :: "'c sqlite \<Rightarrow> stmt \<Rightarrow> 'c \<Rightarrow> string + (sql_value list list \<times> 'c)" where
  "result_rows lib st c =
     (case st_rows st of
        Some rows \<Rightarrow> Inr (rows, c)
      | None \<Rightarrow> sq_step lib (st_sql st) (st_params st) c)"

lemma result_rows_pending [simp]: "result_rows lib (st\<lparr>st_rows := Some rows\<rparr>) c = Inr (rows, c)"
  by (simp add: result_rows_def)

lemma read_next_cases:
  assumes "stmts s h = Some st"
  obtains (fault) "failed_by_fault lib (fst (read_next lib h s))" "isl (fst (read_next lib h s))"
      "conn (snd (read_next lib h s)) = conn s"
  | (error) m where "result_rows lib st (conn s) = Inl m"
      "fst (read_next lib h s) = Inl (Runtime_error m)" "conn (snd (read_next lib h s)) = conn s"
  | (rows) rows c s' where "result_rows lib st (conn s) = Inr (rows, c)"
      "read_next lib h s = (Inr (case rows of [] \<Rightarrow> None | r # rs \<Rightarrow> Some r), s')" "conn s' = c"
      "stmts s' h = Some (st\<lparr>st_rows := Some (tl rows)\<rparr>)"
proof (cases "sq_fault lib (clock s)")
  case (Some message)
  then have "read_next lib h s = (Inl (Runtime_error message), called [Stepped h] s)"
    by (simp add: read_next_def on_statement_def)
  moreover have "\<not> no_faults lib"
    using Some by (auto simp: no_faults_def)
  ultimately show ?thesis
    by (intro fault) (simp_all add: failed_by_fault_def)
next
  case None
  note defs = read_next_def on_statement_def step_statement_def Let_def
  show ?thesis
  proof (cases "result_rows lib st (conn s)")
    case (Inl m)
    then show ?thesis
      using None assms
      by (intro error[OF Inl]) (simp_all add: defs result_rows_def split: option.splits)
  next
    case (Inr rc)
    obtain rs c where rc: "rc = (rs, c)" by (cases rc)
    with Inr None assms show ?thesis
      by (intro rows[of rs c "snd (read_next lib h s)"]; cases rs)
        (auto simp: defs result_rows_def split: option.splits)
  qed
qed

text \<open>The loop always ends: at a fault, or with the last row.\<close>

lemma read_loop_rows:
  assumes "stmts s h = Some st" "result_rows lib st (conn s) = Inr (rows, c)"
  shows "\<exists>r n s'. read_loop lib h body acc s = Some (r, fold body (take n rows) acc, s') \<and>
    conn s' \<in> {conn s, c} \<and> (r = Inr () \<and> length rows \<le> n \<or> failed_by_fault lib r)"
  using assms
proof (induction rows arbitrary: s st acc)
  case Nil
  from Nil(1) show ?case
  proof (cases rule: read_next_cases[where lib = lib])
    case fault
    then show ?thesis
      by (subst read_loop.simps; cases "read_next lib h s") (auto simp: failed_by_fault_def)
  next
    case (error m)
    with Nil(2) show ?thesis by simp
  next
    case (rows rs c' s')
    with Nil(2) show ?thesis by (subst read_loop.simps) auto
  qed
next
  case (Cons row rows)
  consider (fault) e s1 where "read_next lib h s = (Inl e, s1)" "failed_by_fault lib (Inl e :: unit res)"
      "conn s1 = conn s"
    | (row) s1 where "read_next lib h s = (Inr (Some row), s1)" "conn s1 = c"
      "stmts s1 h = Some (st\<lparr>st_rows := Some rows\<rparr>)"
    using Cons.prems
    by (cases rule: read_next_cases[OF Cons.prems(1), of lib]; cases "read_next lib h s")
      (auto simp: failed_by_fault_def)
  then show ?case
  proof cases
    case fault
    then show ?thesis
      by (subst read_loop.simps) (auto intro!: exI[of _ 0])
  next
    case row
    obtain r n s' where "read_loop lib h body (body row acc) s1 =
        Some (r, fold body (take n rows) (body row acc), s')" "conn s' \<in> {conn s1, c}"
        "r = Inr () \<and> length rows \<le> n \<or> failed_by_fault lib r"
      using Cons.IH[OF row(3), of "body row acc"] row(2) by auto
    with row(1,2) show ?thesis
      by (subst read_loop.simps) (auto intro!: exI[of _ "Suc n"])
  qed
qed

lemma read_loop_error:
  assumes "stmts s h = Some st" "result_rows lib st (conn s) = Inl m"
  shows "\<exists>r s'. read_loop lib h body acc s = Some (r, acc, s') \<and> conn s' = conn s \<and>
    (r = Inl (Runtime_error m) \<or> failed_by_fault lib r)"
  using assms(1)
proof (cases rule: read_next_cases[where lib = lib])
  case fault
  then show ?thesis
    by (subst read_loop.simps; cases "read_next lib h s") (auto simp: failed_by_fault_def)
next
  case (error m')
  with assms(2) show ?thesis
    by (subst read_loop.simps; cases "read_next lib h s") auto
next
  case (rows rows c s')
  with assms(2) show ?thesis by simp
qed

section \<open>Return and release, with any library\<close>

definition tidy :: "('c, 'a) reader \<Rightarrow> bool" where
  "tidy m \<longleftrightarrow>
     (\<forall>acc s hs. live s hs \<longrightarrow> (\<exists>r acc' s'. m acc s = Some (r, acc', s') \<and> live s' hs))"

named_theorems tidy_intros \<open>readers that return and release their handles\<close>

lemma tidyE:
  assumes "tidy m" "live s hs"
  obtains r acc' s' where "m acc s = Some (r, acc', s')" "live s' hs"
  using assms unfolding tidy_def by blast

lemma tidy_work [tidy_intros]: "tidy (work f)" "tidy (stop_with e)"
  by (simp_all add: tidy_def work_def stop_with_def)

lemma tidy_cases [tidy_intros]:
  "tidy m \<Longrightarrow> tidy n \<Longrightarrow> tidy (if P then m else n)"
  "(\<And>a b. tidy (k a b)) \<Longrightarrow> tidy (case x of (a, b) \<Rightarrow> k a b)"
  by (simp_all split: prod.split)

lemma tidy_then [tidy_intros]:
  fixes m n :: "('c, 'a) reader"
  assumes "tidy m" "tidy n"
  shows "tidy (then_read m n)"
  unfolding tidy_def
proof (intro allI impI)
  fix acc and s :: "'c session" and hs
  assume "live s hs"
  then obtain r a s' where m: "m acc s = Some (r, a, s')" "live s' hs"
    using tidyE[OF assms(1)] by metis
  obtain r2 a2 s2 where "n a s' = Some (r2, a2, s2)" "live s2 hs"
    using tidyE[OF assms(2) m(2)] by metis
  with m show "\<exists>r acc' s'. then_read m n acc s = Some (r, acc', s') \<and> live s' hs"
    by (cases r) (simp_all add: then_read_def)
qed

lemma tidy_obtain [tidy_intros]:
  fixes m :: "('c, 'b) program" and k :: "'b \<Rightarrow> ('c, 'a) reader"
  assumes "balanced m" "\<And>x. tidy (k x)"
  shows "tidy (obtain_then m k)"
  unfolding tidy_def
proof (intro allI impI)
  fix acc and s :: "'c session" and hs
  assume l: "live s hs"
  obtain r s1 where m: "m s = (r, s1)" by (cases "m s")
  then have l1: "live s1 hs"
    using assms(1) l by (force simp: balanced_def)
  show "\<exists>r acc' s'. obtain_then m k acc s = Some (r, acc', s') \<and> live s' hs"
  proof (cases r)
    case (Inl e)
    with m l1 show ?thesis by (simp add: obtain_then_def)
  next
    case (Inr x)
    with m tidyE[OF assms(2) l1, of x acc] show ?thesis
      by (simp add: obtain_then_def) metis
  qed
qed

lemma read_next_none:
  assumes "stmts s h = None"
  shows "isl (fst (read_next lib h s))"
  using assms by (simp add: read_next_def on_statement_def Let_def split: option.split)

lemma read_loop_step:
  fixes lib :: "'c sqlite" and acc :: 'a and s :: "'c session"
  assumes "read_loop lib h body acc s = Some (r, acc', s')"
    and "live s ((h, b) # hs)" "h \<notin> fst ` set hs"
  shows "live s' ((h, True) # hs)"
proof -
  have "\<forall>b. live s ((h, b) # hs) \<longrightarrow> h \<notin> fst ` set hs \<longrightarrow> live (snd (snd x)) ((h, True) # hs)"
    if "read_loop lib h body acc s = Some x" for x
  proof (rule read_loop.raw_induct[where P = "\<lambda>lib h body acc s x.
      \<forall>b. live s ((h, b) # hs) \<longrightarrow> h \<notin> fst ` set hs \<longrightarrow> live (snd (snd x)) ((h, True) # hs)",
      OF _ that], intro allI impI)
    fix f h body x b and lib :: "'c sqlite" and acc :: 'a and s :: "'c session"
    assume IH: "\<And>(lib :: 'c sqlite) h body (acc :: 'a) s x. f lib h body acc s = Some x \<Longrightarrow>
        \<forall>b. live s ((h, b) # hs) \<longrightarrow> h \<notin> fst ` set hs \<longrightarrow> live (snd (snd x)) ((h, True) # hs)"
      and eq: "(case read_next lib h s of (r, s') \<Rightarrow> case r of
          Inl e \<Rightarrow> Some (Inl e, acc, s')
        | Inr None \<Rightarrow> Some (Inr (), acc, s')
        | Inr (Some vals) \<Rightarrow> f lib h body (body vals acc) s') = Some x"
      and l: "live s ((h, b) # hs)" "h \<notin> fst ` set hs"
    obtain r s1 where n: "read_next lib h s = (r, s1)"
      by (cases "read_next lib h s")
    then have l1: "live s1 ((h, True) # hs)"
      using live_step[OF l, of lib] by simp
    show "live (snd (snd x)) ((h, True) # hs)"
    proof (cases "\<exists>vals. r = Inr (Some vals)")
      case True
      then obtain vals where "f lib h body (body vals acc) s1 = Some x"
        using eq n by auto
      from IH[OF this] l1 l(2) show ?thesis by blast
    next
      case False
      with eq n l1 show ?thesis by (auto split: sum.splits option.splits)
    qed
  qed
  with assms show ?thesis by fastforce
qed

lemma read_loop_returns: "\<exists>x. read_loop lib h body acc s = Some x"
proof (cases "stmts s h")
  case None
  from read_next_none[OF this, of lib] show ?thesis
    by (subst read_loop.simps; cases "read_next lib h s"; cases "fst (read_next lib h s)") auto
next
  case (Some st)
  then show ?thesis
  proof (cases "result_rows lib st (conn s)")
    case (Inl m)
    from read_loop_error[OF Some this, of body acc] show ?thesis by auto
  next
    case (Inr rc)
    then show ?thesis
      using read_loop_rows[OF Some, of lib "fst rc" "snd rc"] by fastforce
  qed
qed

text \<open>The scope of a statement whose body keeps the other handles.\<close>

lemma tidy_scoped:
  fixes lib :: "'c sqlite" and body :: "nat \<Rightarrow> ('c, 'a) reader"
  assumes "\<And>h acc s hs. live s ((h, False) # hs) \<Longrightarrow> h \<notin> fst ` set hs \<Longrightarrow>
      \<exists>r a s' b. body h acc s = Some (r, a, s') \<and> live s' ((h, b) # hs)"
  shows "tidy (scoped lib sql body)"
  unfolding tidy_def
proof (intro allI impI)
  fix acc and s :: "'c session" and hs
  assume l: "live s hs"
  show "\<exists>r acc' s'. scoped lib sql body acc s = Some (r, acc', s') \<and> live s' hs"
  proof (cases rule: prepare_cases[of lib sql s])
    case (failed message)
    have "live (called [Prepare_failed sql] s) hs"
      using l by (rule live_called) simp_all
    with failed show ?thesis by (simp add: scoped_def obtain_then_def)
  next
    case (prepared n)
    define h s1 where "h = next_stmt s" and "s1 = snd (prepare lib sql s)"
    have fresh: "h \<notin> fst ` set hs"
      using l by (auto simp: live_def h_def)
    have "live s1 ((h, False) # hs)"
      using l fresh by (auto simp: live_def s1_def h_def prepared(3) handles_run_append)
    from assms[OF this fresh] obtain r a s2 b where
        body: "body h acc s1 = Some (r, a, s2)" "live s2 ((h, b) # hs)"
      by blast
    have "prepare lib sql s = (Inr h, s1)"
      by (simp add: h_def s1_def prepared(3))
    with body live_finalize[OF body(2) fresh] show ?thesis
      by (simp add: scoped_def obtain_then_def)
  qed
qed

lemma tidy_query [tidy_intros]:
  fixes lib :: "'c sqlite" and rest :: "('c, 'a) reader"
  assumes "tidy rest"
  shows "tidy (query lib sql body rest)"
  unfolding query_def
proof (rule tidy_scoped)
  fix h acc hs and s :: "'c session"
  assume l: "live s ((h, False) # hs)" "h \<notin> fst ` set hs"
  obtain r a s2 where loop: "read_loop lib h body acc s = Some (r, a, s2)"
    using read_loop_returns[of lib h body acc s] by auto
  then have l2: "live s2 ((h, True) # hs)"
    using l by (rule read_loop_step)
  obtain r3 a3 s3 where "rest a s2 = Some (r3, a3, s3)" "live s3 ((h, True) # hs)"
    using tidyE[OF assms l2] by metis
  with loop l2 show "\<exists>r a s' b. then_read (read_loop lib h body) rest acc s = Some (r, a, s') \<and>
      live s' ((h, b) # hs)"
    by (cases r) (auto simp: then_read_def)
qed

lemma tidy_with_row [tidy_intros]:
  fixes lib :: "'c sqlite" and rest :: "sql_value list option \<Rightarrow> ('c, 'a) reader"
  assumes "\<And>row. tidy (rest row)"
  shows "tidy (with_row lib sql rest)"
  unfolding with_row_def
proof (rule tidy_scoped)
  fix h acc hs and s :: "'c session"
  assume l: "live s ((h, False) # hs)" "h \<notin> fst ` set hs"
  obtain r s1 where n: "read_next lib h s = (r, s1)"
    by (cases "read_next lib h s")
  then have l1: "live s1 ((h, True) # hs)"
    using live_step[OF l, of lib] by simp
  show "\<exists>r a s' b. obtain_then (read_next lib h) rest acc s = Some (r, a, s') \<and> live s' ((h, b) # hs)"
  proof (cases r)
    case (Inl e)
    with n l1 show ?thesis by (auto simp: obtain_then_def)
  next
    case (Inr row)
    with n tidyE[OF assms l1, of row acc] show ?thesis
      by (simp add: obtain_then_def) metis
  qed
qed

lemma balanced_first_row [balanced_intros]:
  fixes lib :: "'c sqlite"
  shows "balanced (first_row lib sql f)"
  unfolding first_row_def
proof (rule balanced_statement)
  fix h hs and s :: "'c session"
  assume l: "live s ((h, False) # hs)" "h \<notin> fst ` set hs"
  obtain r s1 where n: "read_next lib h s = (r, s1)"
    by (cases "read_next lib h s")
  then have "live s1 ((h, True) # hs)"
    using live_step[OF l, of lib] by simp
  with n show "\<exists>b. live (snd (bind_sql (read_next lib h) (\<lambda>row. lift_res (f row)) s)) ((h, b) # hs)"
    by (cases r) (auto simp: bind_sql_def)
qed

section \<open>What is read\<close>

text \<open>
  The library answers some queries with rows, as long as the connection is \<open>ok\<close>. The order
  \<open>le\<close> on accumulators says what a part of a result is.
\<close>

locale row_reader =
  fixes lib :: "'c sqlite"
    and ok :: "'c \<Rightarrow> bool"
    and rows :: "string \<Rightarrow> sql_value list list option"
    and le :: "'a \<Rightarrow> 'a \<Rightarrow> bool"
  assumes answers: "rows sql = Some rs \<Longrightarrow> ok c \<Longrightarrow>
      \<exists>n c'. sq_prepare lib sql = Inr n \<and> sq_step lib sql (\<lambda>_. Null) c = Inr (rs, c') \<and> ok c'"
    and le_refl: "le a a"
    and le_trans: "le a b \<Longrightarrow> le b d \<Longrightarrow> le a d"

definition reads ::
  "'c sqlite \<Rightarrow> ('c \<Rightarrow> bool) \<Rightarrow> ('a \<Rightarrow> 'a \<Rightarrow> bool) \<Rightarrow> ('c, 'a) reader \<Rightarrow>
   ('a \<Rightarrow> unit res \<times> 'a) \<Rightarrow> bool" where
  "reads lib ok le m f \<longleftrightarrow>
     (\<forall>acc. le acc (snd (f acc))) \<and>
     (\<forall>acc s. ok (conn s) \<longrightarrow>
        (\<exists>r a s'. m acc s = Some (r, a, s') \<and> ok (conn s') \<and>
           ((r, a) = f acc \<or> failed_by_fault lib r \<and> le acc a \<and> le a (snd (f acc)))))"

lemma readsE:
  assumes "reads lib ok le m f" "ok (conn s)"
  obtains r a s' where "m acc s = Some (r, a, s')" "ok (conn s')"
    "(r, a) = f acc \<or> failed_by_fault lib r \<and> le acc a \<and> le a (snd (f acc))"
  using assms unfolding reads_def by blast

definition first_of :: "'r list \<Rightarrow> 'r option" where
  "first_of rs = (case rs of [] \<Rightarrow> None | r # _ \<Rightarrow> Some r)"

definition read_first :: "('r option \<Rightarrow> 'b res) \<Rightarrow> ('b \<Rightarrow> 'a \<Rightarrow> unit res \<times> 'a) \<Rightarrow> 'r list \<Rightarrow> 'a \<Rightarrow>
   unit res \<times> 'a" where
  "read_first f g rs acc =
     (case f (first_of rs) of
        Inl e \<Rightarrow> (Inl e, acc)
      | Inr x \<Rightarrow> g x acc)"

definition read_both :: "('a \<Rightarrow> unit res \<times> 'a) \<Rightarrow> ('a \<Rightarrow> unit res \<times> 'a) \<Rightarrow> 'a \<Rightarrow> unit res \<times> 'a" where
  "read_both f g acc =
     (case f acc of
        (Inl e, a) \<Rightarrow> (Inl e, a)
      | (Inr u, a) \<Rightarrow> g a)"

context row_reader
begin

lemma reads_work: "(\<And>a. le a (f a)) \<Longrightarrow> reads lib ok le (work f) (\<lambda>acc. (Inr (), f acc))"
  by (simp add: reads_def work_def)

lemma reads_stop: "reads lib ok le (stop_with e) (\<lambda>acc. (Inl e, acc))"
  by (simp add: reads_def stop_with_def le_refl)

lemma reads_then:
  assumes "reads lib ok le m f" "reads lib ok le n g"
  shows "reads lib ok le (then_read m n) (read_both f g)"
  unfolding reads_def
proof (intro conjI allI impI)
  have inc: "le acc (snd (f acc))" "le acc (snd (g acc))" for acc
    using assms by (simp_all add: reads_def)
  show up: "le acc (snd (read_both f g acc))" for acc
    using inc(1)[of acc] inc(2)[of "snd (f acc)"] le_trans
    by (auto simp: read_both_def split: prod.splits sum.splits)
  have after: "le (snd (f acc)) (snd (read_both f g acc))" for acc
    using inc(2)[of "snd (f acc)"] le_refl
    by (auto simp: read_both_def split: prod.splits sum.splits)
  fix acc and s :: "'c session"
  assume "ok (conn s)"
  then obtain r a s1 where m: "m acc s = Some (r, a, s1)" "ok (conn s1)"
      "(r, a) = f acc \<or> failed_by_fault lib r \<and> le acc a \<and> le a (snd (f acc))"
    using readsE[OF assms(1)] by metis
  obtain r2 a2 s2 where n: "n a s1 = Some (r2, a2, s2)" "ok (conn s2)"
      "(r2, a2) = g a \<or> failed_by_fault lib r2 \<and> le a a2 \<and> le a2 (snd (g a))"
    using readsE[OF assms(2) m(2)] by metis
  show "\<exists>r a s'. then_read m n acc s = Some (r, a, s') \<and> ok (conn s') \<and>
      ((r, a) = read_both f g acc \<or>
       failed_by_fault lib r \<and> le acc a \<and> le a (snd (read_both f g acc)))"
  proof (cases r)
    case (Inl e)
    moreover from m(3) Inl have "(Inl e, a) = read_both f g acc \<or>
        failed_by_fault lib r \<and> le acc a \<and> le a (snd (read_both f g acc))"
      using le_trans after[of acc] by (auto simp: read_both_def split: prod.splits)
    ultimately show ?thesis
      using m(1,2) by (simp add: then_read_def failed_by_fault_def)
  next
    case (Inr u)
    with m(3) have fa: "f acc = (Inr (), a)"
      by (auto simp: failed_by_fault_def)
    then have "read_both f g acc = g a"
      by (simp add: read_both_def)
    moreover have "le acc a"
      using inc(1)[of acc] fa by simp
    then have "le acc a2" if "le a a2"
      using le_trans that by blast
    ultimately show ?thesis
      using m(1) n Inr by (auto simp: then_read_def)
  qed
qed

text \<open>A statement of the library: it cannot be prepared because of a fault, or it is ready.\<close>

lemma prepare_select:
  fixes s :: "'c session"
  assumes "rows sql = Some rs" "ok (conn s)"
  obtains (fault) e s' where "prepare lib sql s = (Inl e, s')" "ok (conn s')"
      "failed_by_fault lib (Inl e :: unit res)"
  | (ready) h st s' c' where "prepare lib sql s = (Inr h, s')" "stmts s' h = Some st"
      "result_rows lib st (conn s') = Inr (rs, c')" "ok (conn s')" "ok c'"
proof (cases rule: prepare_cases[of lib sql s])
  case (failed message)
  have "\<not> no_faults lib"
    using failed answers[OF assms]
    by (auto simp: prepare_def no_faults_def Let_def split: option.splits sum.splits)
  with failed assms(2) show ?thesis
    by (intro fault[of "Runtime_error message" "called [Prepare_failed sql] s"])
      (simp_all add: failed_by_fault_def)
next
  case (prepared k)
  obtain n c' where c': "sq_step lib sql (\<lambda>_. Null) (conn s) = Inr (rs, c')" "ok c'"
    using answers[OF assms] by blast
  with assms(2) show ?thesis
    by (intro ready[OF prepared(3), of "\<lparr>st_sql = sql, st_arity = k, st_params = (\<lambda>_. Null),
        st_rows = None\<rparr>" c']) (simp_all add: result_rows_def)
qed

text \<open>Its first step.\<close>

lemma next_select:
  fixes s :: "'c session"
  assumes "stmts s h = Some st" "result_rows lib st (conn s) = Inr (rs, c')" "ok (conn s)" "ok c'"
  obtains (fault) e s' where "read_next lib h s = (Inl e, s')" "ok (conn s')"
      "failed_by_fault lib (Inl e :: unit res)"
  | (row) s' where "read_next lib h s = (Inr (first_of rs), s')" "ok (conn s')"
proof -
  have dest: "failed_by_fault lib (fst (read_next lib h s)) \<Longrightarrow>
      \<exists>e. fst (read_next lib h s) = Inl e \<and> failed_by_fault lib (Inl e :: unit res)"
    by (auto simp: failed_by_fault_def)
  from assms(1) show ?thesis
  proof (cases rule: read_next_cases[where lib = lib])
    case f: (fault)
    with dest obtain e where "fst (read_next lib h s) = Inl e" "failed_by_fault lib (Inl e :: unit res)"
      by blast
    with f(3) assms(3) show ?thesis
      by (intro fault[of e "snd (read_next lib h s)"]) (simp_all add: prod_eq_iff)
  next
    case (error m)
    with assms(2) show ?thesis by simp
  next
    case (rows rs' d s2)
    with assms(2,4) row show ?thesis by (auto simp: first_of_def)
  qed
qed

lemma first_row_cases:
  fixes s :: "'c session"
  assumes "rows sql = Some rs" "ok (conn s)"
  obtains (fault) e s' where "first_row lib sql f s = (Inl e, s')" "ok (conn s')"
      "failed_by_fault lib (Inl e :: unit res)"
  | (row) s' where "first_row lib sql f s = (f (first_of rs), s')" "ok (conn s')"
  using assms
proof (cases rule: prepare_select)
  case (fault e s')
  then show ?thesis
    using that(1) by (simp add: first_row_def with_statement_def bind_sql_def)
next
  case (ready h st s1 c')
  from ready(2-5) show ?thesis
  proof (cases rule: next_select)
    case (fault e s')
    with ready(1) that(1) show ?thesis
      by (simp add: first_row_def with_statement_def bind_sql_def finalize_def)
  next
    case (row s')
    with ready(1) that(2) show ?thesis
      by (simp add: first_row_def with_statement_def bind_sql_def finalize_def)
  qed
qed

lemma reads_first:
  assumes "rows sql = Some rs" "\<And>x. reads lib ok le (k x) (g x)"
  shows "reads lib ok le (obtain_then (first_row lib sql f) k) (read_first f g rs)"
  unfolding reads_def
proof (intro conjI allI impI)
  have "le acc (snd (g x acc))" for x acc
    using assms(2) by (simp add: reads_def)
  then show up: "le acc (snd (read_first f g rs acc))" for acc
    by (simp add: read_first_def le_refl split: sum.split)
  fix acc and s :: "'c session"
  assume ok: "ok (conn s)"
  from assms(1) ok show "\<exists>r a s'. obtain_then (first_row lib sql f) k acc s = Some (r, a, s') \<and>
      ok (conn s') \<and> ((r, a) = read_first f g rs acc \<or>
        failed_by_fault lib r \<and> le acc a \<and> le a (snd (read_first f g rs acc)))"
  proof (cases rule: first_row_cases[where f = f])
    case (fault e s')
    with up[of acc] le_refl show ?thesis by (simp add: obtain_then_def)
  next
    case (row s')
    show ?thesis
    proof (cases "f (first_of rs)")
      case (Inl e)
      with row show ?thesis by (simp add: obtain_then_def read_first_def)
    next
      case (Inr x)
      with row readsE[OF assms(2) row(2), of x acc] show ?thesis
        by (simp add: obtain_then_def read_first_def) metis
    qed
  qed
qed

lemma le_fold: "(\<And>v a. le a (body v a)) \<Longrightarrow> le a (fold body vs a)"
proof (induction vs arbitrary: a)
  case Nil
  then show ?case by (simp add: le_refl)
next
  case (Cons v vs)
  then show ?case using le_trans by fastforce
qed

lemma reads_query:
  assumes "rows sql = Some rs" "\<And>v a. le a (body v a)" "reads lib ok le rest g"
  shows "reads lib ok le (query lib sql body rest) (\<lambda>acc. g (fold body rs acc))"
  unfolding reads_def
proof (intro conjI allI impI)
  have inc: "le a (snd (g a))" for a
    using assms(3) by (simp add: reads_def)
  note up_to = le_fold[of body, OF assms(2)]
  show up: "le acc (snd (g (fold body rs acc)))" for acc
    using up_to inc le_trans by blast
  fix acc and s :: "'c session"
  assume "ok (conn s)"
  with assms(1) show "\<exists>r a s'. query lib sql body rest acc s = Some (r, a, s') \<and> ok (conn s') \<and>
      ((r, a) = g (fold body rs acc) \<or>
       failed_by_fault lib r \<and> le acc a \<and> le a (snd (g (fold body rs acc))))"
  proof (cases rule: prepare_select)
    case (fault e s')
    with up[of acc] le_refl show ?thesis
      by (simp add: query_def scoped_def obtain_then_def)
  next
    case (ready h st s1 c')
    obtain r n s2 where loop:
        "read_loop lib h body acc s1 = Some (r, fold body (take n rs) acc, s2)"
        "conn s2 \<in> {conn s1, c'}" "r = Inr () \<and> length rs \<le> n \<or> failed_by_fault lib r"
      using read_loop_rows[OF ready(2,3), of body acc] by metis
    then have ok2: "ok (conn s2)"
      using ready(4,5) by auto
    have run: "query lib sql body rest acc s = map_option (\<lambda>(r, a, s'). (r, a, finalize h s'))
        (case r of Inl e \<Rightarrow> Some (Inl e, fold body (take n rs) acc, s2)
         | Inr u \<Rightarrow> rest (fold body (take n rs) acc) s2)"
      using loop(1) ready(1) by (simp add: query_def scoped_def obtain_then_def then_read_def)
    show ?thesis
    proof (cases r)
      case (Inl e)
      have "fold body rs acc = fold body (drop n rs) (fold body (take n rs) acc)"
        by (metis append_take_drop_id comp_apply fold_append)
      then have "le (fold body (take n rs) acc) (snd (g (fold body rs acc)))"
        using up_to inc le_trans by metis
      with Inl ok2 loop(3) run up_to show ?thesis
        by (simp add: finalize_def)
    next
      case (Inr u)
      with loop(3) have "take n rs = rs"
        by (simp add: failed_by_fault_def)
      obtain r3 a3 s3 where rest: "rest (fold body rs acc) s2 = Some (r3, a3, s3)" "ok (conn s3)"
          "(r3, a3) = g (fold body rs acc) \<or>
           failed_by_fault lib r3 \<and> le (fold body rs acc) a3 \<and> le a3 (snd (g (fold body rs acc)))"
        using readsE[OF assms(3) ok2] by metis
      have "le acc a3" if "le (fold body rs acc) a3"
        using that up_to le_trans by blast
      with Inr \<open>take n rs = rs\<close> rest run show ?thesis
        by (auto simp: finalize_def)
    qed
  qed
qed

lemma reads_with_row:
  assumes "rows sql = Some rs" "\<And>row. reads lib ok le (rest row) (g row)"
  shows "reads lib ok le (with_row lib sql rest) (g (first_of rs))"
  unfolding reads_def
proof (intro conjI allI impI)
  show up: "le acc (snd (g (first_of rs) acc))" for acc
    using assms(2) by (simp add: reads_def)
  fix acc and s :: "'c session"
  assume "ok (conn s)"
  with assms(1) show "\<exists>r a s'. with_row lib sql rest acc s = Some (r, a, s') \<and> ok (conn s') \<and>
      ((r, a) = g (first_of rs) acc \<or>
       failed_by_fault lib r \<and> le acc a \<and> le a (snd (g (first_of rs) acc)))"
  proof (cases rule: prepare_select)
    case (fault e s')
    with up[of acc] le_refl show ?thesis
      by (simp add: with_row_def scoped_def obtain_then_def)
  next
    case (ready h st s1 c')
    from ready(2-5) show ?thesis
    proof (cases rule: next_select)
      case (fault e s')
      with ready(1) up[of acc] le_refl show ?thesis
        by (simp add: with_row_def scoped_def obtain_then_def finalize_def)
    next
      case (row s2)
      obtain r a s3 where "rest (first_of rs) acc s2 = Some (r, a, s3)" "ok (conn s3)"
          "(r, a) = g (first_of rs) acc \<or>
           failed_by_fault lib r \<and> le acc a \<and> le a (snd (g (first_of rs) acc))"
        using readsE[OF assms(2) row(2)] by metis
      with ready(1) row(1) show ?thesis
        by (simp add: with_row_def scoped_def obtain_then_def finalize_def)
    qed
  qed
qed

end

end
