(* ===== verification/Sql_Queries.thy ===== *)
theory Sql_Queries
  imports Diff_Report Sqlite_Reading "HOL-Library.Sublist"
begin

text \<open>
  The queries of \<open>whyrun show\<close> and \<open>whyrun diff\<close> as texts (\<open>src/show.cpp\<close>, \<open>src/diff.cpp\<close>,
  \<open>validate_schema\<close> of \<open>src/capsule_reader.hpp\<close>), the rows that each asks for, as values of
  columns, and how the code reads columns.
\<close>

section \<open>Columns\<close>

text \<open>
  \<open>ReadStatement::text\<close>, \<open>integer\<close> and \<open>is_null\<close>: a NULL is an empty text and zero; a text
  ends at its first NUL. The code reads no text as an integer.
\<close>

definition value_at :: "sql_value list \<Rightarrow> nat \<Rightarrow> sql_value" where
  "value_at vals i = (if i < length vals then vals ! i else Null)"

definition text_at :: "sql_value list \<Rightarrow> nat \<Rightarrow> string" where
  "text_at vals i =
     (case value_at vals i of Text t \<Rightarrow> c_str t | Integer n \<Rightarrow> show_int n | Null \<Rightarrow> [])"

definition int_at :: "sql_value list \<Rightarrow> nat \<Rightarrow> int" where
  "int_at vals i = (case value_at vals i of Integer n \<Rightarrow> n | _ \<Rightarrow> 0)"

definition null_at :: "sql_value list \<Rightarrow> nat \<Rightarrow> bool" where
  "null_at vals i \<longleftrightarrow> value_at vals i = Null"

definition nullable :: "int option \<Rightarrow> sql_value" where
  "nullable v = (case v of None \<Rightarrow> Null | Some n \<Rightarrow> Integer n)"

lemma columns [simp]:
  "text_at (Text t # vals) 0 = c_str t" "int_at (Integer n # vals) 0 = n"
  "null_at (u # vals) 0 \<longleftrightarrow> u = Null" "int_at (nullable v # vals) 0 = column_int v"
  "nullable v = Null \<longleftrightarrow> v = None"
  "text_at (u # vals) (Suc i) = text_at vals i" "int_at (u # vals) (Suc i) = int_at vals i"
  "null_at (u # vals) (Suc i) = null_at vals i"
  by (simp_all add: text_at_def int_at_def null_at_def value_at_def nullable_def column_int_def
      split: option.split)

lemma columns_numeral [simp]:
  "text_at (v # vals) (numeral k) = text_at vals (pred_numeral k)"
  "int_at (v # vals) (numeral k) = int_at vals (pred_numeral k)"
  "null_at (v # vals) (numeral k) = null_at vals (pred_numeral k)"
  by (simp_all add: numeral_eq_Suc)

section \<open>The texts\<close>

definition schema_version_sql :: string where
  "schema_version_sql = ''SELECT value FROM metadata WHERE key='' @ single_quoted ''schema_version''"

definition command_clause :: "command_filter \<Rightarrow> string" where
  "command_clause f =
     (case f of None \<Rightarrow> [] | Some i \<Rightarrow> '' AND command_id='' @ show_int i)"

definition files_sql :: "command_filter \<Rightarrow> bool \<Rightarrow> string" where
  "files_sql f rd =
     (if f \<noteq> None then
        ''SELECT resource, COUNT(*), '' @
        ''COALESCE(SUM(CASE WHEN result>0 THEN result ELSE 0 END), 0) '' @
        ''FROM events WHERE type='' @
        single_quoted (if rd then ''file_read'' else ''file_write'') @ command_clause f @
        '' GROUP BY resource ORDER BY resource''
      else
        ''SELECT path, '' @ (if rd then ''read_calls, bytes_read'' else ''write_calls, bytes_written'') @
        '' FROM file_activity WHERE '' @ (if rd then ''read_calls'' else ''write_calls'') @
        ''>0 ORDER BY path'')"

definition network_sql :: "command_filter \<Rightarrow> string" where
  "network_sql f =
     (case f of
        Some i \<Rightarrow>
          ''SELECT e.resource, COUNT(*), '' @
          ''SUM(CASE WHEN e.errno_value=0 THEN 1 ELSE 0 END), '' @
          ''SUM(CASE WHEN e.errno_value>0 THEN 1 ELSE 0 END), '' @
          ''COALESCE((SELECT e2.errno_value FROM events e2 '' @
          ''WHERE e2.type='' @ single_quoted ''network_connect'' @ '' AND e2.command_id='' @
          show_int i @
          '' AND e2.resource=e.resource ORDER BY e2.timestamp_ns DESC, e2.id DESC '' @
          ''LIMIT 1), 0) FROM events e WHERE e.type='' @ single_quoted ''network_connect'' @ '' '' @
          ''AND e.command_id='' @
          show_int i @ '' GROUP BY e.resource ORDER BY e.resource''
      | None \<Rightarrow>
          ''SELECT endpoint, connect_count, success_count, failure_count, '' @
          ''last_errno FROM network_activity ORDER BY endpoint'')"

definition ipc_columns_sql :: string where
  "ipc_columns_sql =
     ''SELECT resource, COUNT(*), '' @
     ''SUM(CASE WHEN errno_value=0 THEN 1 ELSE 0 END), '' @
     ''SUM(CASE WHEN errno_value>0 THEN 1 ELSE 0 END) '' @
     ''FROM events WHERE type='' @ single_quoted ''local_ipc_connect''"

definition ipc_sql :: "command_filter \<Rightarrow> string" where
  "ipc_sql f = ipc_columns_sql @ command_clause f @ '' GROUP BY resource ORDER BY resource''"

definition errors_sql :: "command_filter \<Rightarrow> string" where
  "errors_sql f =
     ''SELECT resource, type, errno_value, COUNT(*) FROM events '' @
     ''WHERE errno_value>0'' @ command_clause f @
     '' GROUP BY resource, type, errno_value '' @
     ''ORDER BY resource, type, errno_value''"

definition commands_sql :: string where
  "commands_sql = ''SELECT sequence, command, exit_code FROM commands ORDER BY sequence''"

definition command_header_sql :: "int \<Rightarrow> string" where
  "command_header_sql i =
     ''SELECT sequence, command, cwd, start_ns, exit_code FROM commands WHERE id='' @ show_int i"

definition processes_sql :: "command_filter \<Rightarrow> string" where
  "processes_sql f =
     (if f \<noteq> None then
        ''SELECT COUNT(DISTINCT pid) FROM events WHERE type='' @ single_quoted ''process_exec'' @
        command_clause f
      else ''SELECT COUNT(*) FROM processes'')"

definition timeline_sql :: "command_filter \<Rightarrow> string" where
  "timeline_sql f =
     ''SELECT timestamp_ns, pid, tid, type, resource, result, errno_value '' @
     ''FROM events WHERE 1=1'' @ command_clause f @
     '' ORDER BY timestamp_ns, CASE type WHEN '' @ single_quoted ''command_start'' @
     '' THEN 0 ELSE 1 END, id''"

definition run_header_sql :: "nat \<Rightarrow> string" where
  "run_header_sql schema_version =
     (if 2 \<le> schema_version then
        ''SELECT mode, command, exit_code, term_signal, start_ns '' @ ''FROM runs LIMIT 1''
      else
        ''SELECT '' @ single_quoted ''command'' @ '', command, exit_code, term_signal, start_ns '' @
        ''FROM runs LIMIT 1'')"

definition exit_code_sql :: string where
  "exit_code_sql = ''SELECT exit_code FROM runs LIMIT 1''"

definition run_mode_sql :: string where
  "run_mode_sql = ''SELECT mode FROM runs LIMIT 1''"

definition command_set_sql :: string where
  "command_set_sql = ''SELECT DISTINCT command FROM commands ORDER BY command''"

definition file_activity_sql :: string where
  "file_activity_sql =
     ''SELECT path, read_calls, write_calls, bytes_read, bytes_written '' @ ''FROM file_activity''"

definition network_activity_sql :: string where
  "network_activity_sql =
     ''SELECT endpoint, connect_count, success_count, failure_count '' @ ''FROM network_activity''"

definition ipc_summary_sql :: string where
  "ipc_summary_sql = ipc_columns_sql @ '' GROUP BY resource''"

definition executables_sql :: string where
  "executables_sql =
     ''SELECT DISTINCT executable FROM processes WHERE executable IS NOT NULL '' @
     ''AND executable<>'' @ single_quoted [] @ '' ORDER BY executable''"

text \<open>\<open>validate_schema\<close>\<close>

definition schema_of :: "sql_value list option \<Rightarrow> nat res" where
  "schema_of row =
     (case row of
        None \<Rightarrow> Inl (Runtime_error ''not a WhyRun capsule: schema_version is missing'')
      | Some vals \<Rightarrow>
          let version = text_at vals 0 in
          if version \<noteq> ''1'' \<and> version \<noteq> ''2'' \<and> version \<noteq> ''3'' then
            Inl (Runtime_error (''unsupported WhyRun capsule schema version '' @ version))
          else Inr (if version = ''1'' then 1 else if version = ''2'' then 2 else 3))"

definition sql_validate_schema :: "'c sqlite \<Rightarrow> ('c, nat) program" where
  "sql_validate_schema lib = first_row lib schema_version_sql schema_of"

section \<open>The rows they ask for\<close>

definition files_values :: "string \<times> int \<times> int \<Rightarrow> sql_value list" where
  "files_values row = (case row of (k, n, b) \<Rightarrow> [Text k, Integer n, Integer b])"

definition network_values :: "network_line \<Rightarrow> sql_value list" where
  "network_values row = (case row of (k, n, ok, bad, err) \<Rightarrow>
     [Text k, Integer n, Integer ok, Integer bad, Integer err])"

definition ipc_values :: "string \<times> int \<times> int \<times> int \<Rightarrow> sql_value list" where
  "ipc_values row = (case row of (k, n, ok, bad) \<Rightarrow> [Text k, Integer n, Integer ok, Integer bad])"

definition errors_values :: "(string \<times> string \<times> int) \<times> int \<Rightarrow> sql_value list" where
  "errors_values row = (case row of ((k, t, err), n) \<Rightarrow> [Text k, Text t, Integer err, Integer n])"

definition command_values :: "command_row \<Rightarrow> sql_value list" where
  "command_values c = [Integer (c_sequence c), Text (c_command c), nullable (c_exit_code c)]"

definition command_header_values :: "command_row \<Rightarrow> sql_value list" where
  "command_header_values c =
     [Integer (c_sequence c), Text (c_command c), Text (c_cwd c), Integer (c_start_ns c),
      nullable (c_exit_code c)]"

definition timeline_values :: "event_row \<Rightarrow> sql_value list" where
  "timeline_values r =
     [Integer (er_timestamp_ns r), Integer (er_pid r), Integer (er_tid r), Text (er_type r),
      Text (er_resource r), Integer (er_result r), Integer (er_errno r)]"

definition run_values :: "string \<Rightarrow> run_row \<Rightarrow> sql_value list" where
  "run_values mode r =
     [Text mode, Text (run_command r), nullable (run_exit_code r), nullable (run_term_signal r),
      Integer (run_start_ns r)]"

definition file_activity_values :: "file_row \<Rightarrow> sql_value list" where
  "file_activity_values r =
     [Text (f_path r), Integer (read_calls r), Integer (write_calls r), Integer (bytes_read r),
      Integer (bytes_written r)]"

definition network_activity_values :: "network_row \<Rightarrow> sql_value list" where
  "network_activity_values r =
     [Text (n_endpoint r), Integer (connect_count r), Integer (success_count r),
      Integer (failure_count r)]"

text \<open>
  The queries of one invocation, whose commands are filtered by \<open>f\<close>. SQL leaves the order of
  rows open where the text has no ORDER BY; here it is that of the table or of the groups.
\<close>

definition select_table :: "command_filter \<Rightarrow> (string \<times> (capsule \<Rightarrow> sql_value list list)) list" where
  "select_table f =
     [(schema_version_sql, \<lambda>db.
         case map_of (t_metadata db) ''schema_version'' of None \<Rightarrow> [] | Some v \<Rightarrow> [[Text v]]),
      (run_header_sql 3, \<lambda>db. map (\<lambda>r. run_values (run_mode_text r) r) (take 1 (t_runs db))),
      (run_header_sql 1, \<lambda>db. map (run_values ''command'') (take 1 (t_runs db))),
      (commands_sql, \<lambda>db. map command_values (sort_key c_sequence (t_commands db))),
      (command_header_sql (case f of None \<Rightarrow> 0 | Some i \<Rightarrow> i), \<lambda>db.
         map command_header_values
           (filter (\<lambda>c. c_id c = (case f of None \<Rightarrow> 0 | Some i \<Rightarrow> i)) (t_commands db))),
      (processes_sql f, \<lambda>db. [[Integer (int (process_count db f))]]),
      (files_sql f True, \<lambda>db. map files_values (file_rows db f True)),
      (files_sql f False, \<lambda>db. map files_values (file_rows db f False)),
      (network_sql f, \<lambda>db. map network_values (network_rows db f)),
      (ipc_sql f, \<lambda>db. map ipc_values (ipc_rows db f)),
      (errors_sql f, \<lambda>db. map errors_values (error_rows db f)),
      (timeline_sql f, \<lambda>db. map timeline_values (timeline_rows db f)),
      (exit_code_sql, \<lambda>db. map (\<lambda>r. [nullable (run_exit_code r)]) (take 1 (t_runs db))),
      (run_mode_sql, \<lambda>db. map (\<lambda>r. [Text (run_mode_text r)]) (take 1 (t_runs db))),
      (command_set_sql, \<lambda>db. map (\<lambda>c. [Text c]) (sort (remdups (map c_command (t_commands db))))),
      (file_activity_sql, \<lambda>db. map file_activity_values (t_files db)),
      (network_activity_sql, \<lambda>db. map network_activity_values (t_network db)),
      (ipc_summary_sql, \<lambda>db. map ipc_values (ipc_rows db None)),
      (executables_sql, \<lambda>db. map (\<lambda>x. [Text x])
         (sort (remdups (filter (\<lambda>x. x \<noteq> []) (map pr_executable (t_processes db))))))]"

lemmas select_texts = schema_version_sql_def files_sql_def network_sql_def ipc_columns_sql_def
  ipc_sql_def errors_sql_def commands_sql_def command_header_sql_def processes_sql_def
  timeline_sql_def run_header_sql_def exit_code_sql_def run_mode_sql_def command_set_sql_def
  file_activity_sql_def network_activity_sql_def ipc_summary_sql_def executables_sql_def
  command_clause_def single_quoted_def

lemma distinct_selects: "distinct (map fst (select_table f))"
  by (cases f) (simp_all add: select_table_def select_texts)

section \<open>A library that answers them\<close>

text \<open>Reading leaves the connection to the capsule as it is.\<close>

definition reading_sqlite ::
  "command_filter \<Rightarrow> (bool \<times> string) option \<Rightarrow> (nat \<Rightarrow> string option) \<Rightarrow>
   (nat \<Rightarrow> string option) \<Rightarrow> capsule sqlite" where
  "reading_sqlite f cannot_open faults errors =
     \<lparr>sq_open = cannot_open, sq_fault = faults, sq_error = errors,
      sq_prepare = (\<lambda>sql.
        if sql \<in> fst ` set (select_table f) then Inr 0 else Inl ''SQL logic error''),
      sq_exec = (\<lambda>sql db. Inl ''attempt to write a readonly database''),
      sq_step = (\<lambda>sql p db.
        case map_of (select_table f) sql of
          None \<Rightarrow> Inl ''SQL logic error''
        | Some rows \<Rightarrow> Inr (rows db, db)),
      sq_close = (\<lambda>db. db)\<rparr>"

definition selected :: "command_filter \<Rightarrow> capsule \<Rightarrow> string \<Rightarrow> sql_value list list option" where
  "selected f db sql = map_option (\<lambda>rows. rows db) (map_of (select_table f) sql)"

locale capsule_reader =
  fixes lib :: "'c sqlite"
    and view :: "'c \<Rightarrow> capsule"
    and f :: command_filter
  assumes selects: "(sql, rows) \<in> set (select_table f) \<Longrightarrow>
      \<exists>n. sq_prepare lib sql = Inr n \<and>
        (\<exists>c'. sq_step lib sql (\<lambda>_. Null) c = Inr (rows (view c), c') \<and> view c' = view c)"
begin

lemma selects_answer:
  assumes "selected f db sql = Some rs" "view c = db"
  shows "\<exists>n c'. sq_prepare lib sql = Inr n \<and> sq_step lib sql (\<lambda>_. Null) c = Inr (rs, c') \<and>
    view c' = db"
proof -
  obtain rows where "(sql, rows) \<in> set (select_table f)" "rs = rows db"
    using assms(1) by (auto simp: selected_def dest: map_of_SomeD)
  with selects[of sql rows c] assms(2) show ?thesis by auto
qed

end

interpretation reading: capsule_reader "reading_sqlite f cannot_open faults errors" "\<lambda>db. db" f
proof
  fix sql rows and c :: capsule
  assume row: "(sql, rows) \<in> set (select_table f)"
  then have "map_of (select_table f) sql = Some rows"
    using distinct_selects by simp
  moreover have "sql \<in> fst ` set (select_table f)"
    using row by force
  ultimately show "\<exists>n. sq_prepare (reading_sqlite f cannot_open faults errors) sql = Inr n \<and>
      (\<exists>c'. sq_step (reading_sqlite f cannot_open faults errors) sql (\<lambda>_. Null) c = Inr (rows c, c') \<and>
        c' = c)"
    by (simp add: reading_sqlite_def)
qed

lemma selected_row: "(sql, rows) \<in> set (select_table f) \<Longrightarrow> selected f db sql = Some (rows db)"
  using distinct_selects[of f] by (simp add: selected_def)

lemma selected_simps:
  "selected f db schema_version_sql =
     Some (case map_of (t_metadata db) ''schema_version'' of None \<Rightarrow> [] | Some v \<Rightarrow> [[Text v]])"
  "selected f db (run_header_sql n) =
     Some (map (\<lambda>r. run_values (if 2 \<le> n then run_mode_text r else ''command'') r) (take 1 (t_runs db)))"
  "selected f db commands_sql = Some (map command_values (sort_key c_sequence (t_commands db)))"
  "selected (Some i) db (command_header_sql i) =
     Some (map command_header_values (filter (\<lambda>c. c_id c = i) (t_commands db)))"
  "selected f db (processes_sql f) = Some [[Integer (int (process_count db f))]]"
  "selected f db (files_sql f rd) = Some (map files_values (file_rows db f rd))"
  "selected f db (network_sql f) = Some (map network_values (network_rows db f))"
  "selected f db (ipc_sql f) = Some (map ipc_values (ipc_rows db f))"
  "selected f db (errors_sql f) = Some (map errors_values (error_rows db f))"
  "selected f db (timeline_sql f) = Some (map timeline_values (timeline_rows db f))"
  "selected f db exit_code_sql = Some (map (\<lambda>r. [nullable (run_exit_code r)]) (take 1 (t_runs db)))"
  "selected f db run_mode_sql = Some (map (\<lambda>r. [Text (run_mode_text r)]) (take 1 (t_runs db)))"
  "selected f db command_set_sql =
     Some (map (\<lambda>c. [Text c]) (sort (remdups (map c_command (t_commands db)))))"
  "selected f db file_activity_sql = Some (map file_activity_values (t_files db))"
  "selected f db network_activity_sql = Some (map network_activity_values (t_network db))"
  "selected f db ipc_summary_sql = Some (map ipc_values (ipc_rows db None))"
  "selected f db executables_sql = Some (map (\<lambda>x. [Text x])
     (sort (remdups (filter (\<lambda>x. x \<noteq> []) (map pr_executable (t_processes db))))))"
proof -
  have run: "run_header_sql n = run_header_sql (if 2 \<le> n then 3 else 1)"
    by (simp add: run_header_sql_def)
  show "selected f db (run_header_sql n) =
     Some (map (\<lambda>r. run_values (if 2 \<le> n then run_mode_text r else ''command'') r) (take 1 (t_runs db)))"
    unfolding run
    by (cases "2 \<le> n"; simp only: if_True if_False; rule selected_row) (simp_all add: select_table_def)
  show "selected f db (files_sql f rd) = Some (map files_values (file_rows db f rd))"
    by (cases rd; rule selected_row) (auto simp: select_table_def)
qed (rule selected_row, simp add: select_table_def)+

lemma schema_row:
  "schema_of (first_of (case map_of (t_metadata db) ''schema_version'' of
     None \<Rightarrow> [] | Some v \<Rightarrow> [[Text v]])) = validate_schema db"
  by (simp add: schema_of_def first_of_def validate_schema_def column_text_def Let_def split: option.split)

end
