(* ===== verification/Show_Reading.thy ===== *)
theory Show_Reading
  imports Sql_Queries
begin

text \<open>
  \<open>whyrun show\<close> (\<open>src/show.cpp\<close>) with its SQLite calls: what is printed before each query and
  for each row, so that the text that a failing call leaves on the standard output is part of
  the model. The accumulator of the readers is the text printed so far.
\<close>

section \<open>The program\<close>

definition say :: "string \<Rightarrow> ('c, string) reader" where
  "say t = work (\<lambda>out. out @ t)"

text \<open>A loop over the rows with the flag \<open>any\<close>; the text for no rows and an empty line follow.\<close>

definition listing ::
  "'c sqlite \<Rightarrow> string \<Rightarrow> (sql_value list \<Rightarrow> string) \<Rightarrow> string \<Rightarrow> ('c, string) reader" where
  "listing lib sql line none out s =
     map_option (\<lambda>(r, (any, out'), s'). (r, out', s'))
       (query lib sql (\<lambda>vals (any, out). (True, out @ line vals))
          (work (\<lambda>(any, out). (any, out @ (if any then [] else none) @ [newline])))
          (False, out) s)"

definition files_row :: "sql_value list \<Rightarrow> string" where
  "files_row vals =
     ''    '' @ text_at vals 0 @ '' ('' @ show_int (int_at vals 1) @ '' calls, '' @
     show_int (int_at vals 2) @ '' bytes)'' @ [newline]"

definition sql_show_files :: "'c sqlite \<Rightarrow> command_filter \<Rightarrow> ('c, string) reader" where
  "sql_show_files lib f =
     then_read (say (''Files'' @ [newline]))
    (then_read (say (''  READ'' @ [newline]))
    (then_read (listing lib (files_sql f True) files_row (''    none'' @ [newline]))
    (then_read (say (''  WRITE'' @ [newline]))
       (listing lib (files_sql f False) files_row (''    none'' @ [newline])))))"

definition connect_row :: "sql_value list \<Rightarrow> string" where
  "connect_row vals =
     ''  '' @ text_at vals 0 @ '' ('' @ show_int (int_at vals 1) @ '' attempts, '' @
     show_int (int_at vals 2) @ '' succeeded, '' @ show_int (int_at vals 3) @ '' failed''"

definition network_row_text :: "sql_value list \<Rightarrow> string" where
  "network_row_text vals =
     connect_row vals @
     (if int_at vals 4 \<noteq> 0 then '', last '' @ errno_name (to_int32 (int_at vals 4)) else []) @
     '')'' @ [newline]"

definition sql_show_network :: "'c sqlite \<Rightarrow> command_filter \<Rightarrow> ('c, string) reader" where
  "sql_show_network lib f =
     then_read (say (''Network'' @ [newline]))
       (listing lib (network_sql f) network_row_text (''  none'' @ [newline]))"

definition sql_show_local_ipc :: "'c sqlite \<Rightarrow> command_filter \<Rightarrow> ('c, string) reader" where
  "sql_show_local_ipc lib f =
     then_read (say (''Local IPC'' @ [newline]))
       (listing lib (ipc_sql f) (\<lambda>vals. connect_row vals @ '')'' @ [newline])
          (''  none'' @ [newline]))"

definition error_row :: "sql_value list \<Rightarrow> string" where
  "error_row vals =
     ''  '' @ text_at vals 0 @ [newline] @ ''    '' @ erase_prefix (text_at vals 1) @ '' -> '' @
     errno_name (to_int32 (int_at vals 2)) @
     (if 1 < int_at vals 3 then '' ('' @ show_int (int_at vals 3) @ '' times)'' else []) @ [newline]"

definition sql_show_errors :: "'c sqlite \<Rightarrow> command_filter \<Rightarrow> ('c, string) reader" where
  "sql_show_errors lib f =
     then_read (say (''Errors'' @ [newline]))
       (listing lib (errors_sql f) error_row (''  none'' @ [newline]))"

definition command_row_text :: "sql_value list \<Rightarrow> string" where
  "command_row_text vals =
     ''  '' @ show_int (int_at vals 0) @ ''  '' @ print_command_text (text_at vals 1) ''     '' @
     (if null_at vals 2 then '' (incomplete)''
      else '' (exit '' @ show_int (int_at vals 2) @ '')'') @ [newline]"

definition sql_show_commands :: "'c sqlite \<Rightarrow> ('c, string) reader" where
  "sql_show_commands lib =
     then_read (say (''Commands'' @ [newline]))
       (listing lib commands_sql command_row_text (''  none'' @ [newline]))"

definition command_header_of :: "int \<Rightarrow> sql_value list option \<Rightarrow> (string \<times> int) res" where
  "command_header_of cid row =
     (case row of
        None \<Rightarrow> Inl (Runtime_error (''capsule does not contain command '' @ show_int cid))
      | Some vals \<Rightarrow>
          Inr (''Command '' @ show_int (int_at vals 0) @ [newline] @ ''  '' @
               print_command_text (text_at vals 1) ''  '' @
               [newline, newline] @ ''Cwd'' @ [newline] @ ''  '' @ text_at vals 2 @
               [newline, newline] @ ''Exit'' @ [newline] @ ''  '' @
               (if null_at vals 4 then ''incomplete'' else ''code '' @ show_int (int_at vals 4)) @
               [newline, newline],
               int_at vals 3))"

definition run_header_of :: "sql_value list option \<Rightarrow> (string \<times> string \<times> int) res" where
  "run_header_of row =
     (case row of
        None \<Rightarrow> Inl (Runtime_error ''capsule does not contain a run'')
      | Some vals \<Rightarrow>
          let mode = text_at vals 0 in
          Inr ((if mode = ''session''
                then ''Session'' @ [newline] @ ''  shell '' @ text_at vals 1
                else ''Command'' @ [newline] @ ''  '' @ text_at vals 1) @
               [newline, newline] @ ''Exit'' @ [newline] @ ''  code '' @ show_int (int_at vals 2) @
               (if int_at vals 3 \<noteq> 0 then '' (signal '' @ show_int (int_at vals 3) @ '')'' else []) @
               [newline, newline],
               mode, int_at vals 4))"

definition sql_show_processes :: "'c sqlite \<Rightarrow> command_filter \<Rightarrow> ('c, string) reader" where
  "sql_show_processes lib f =
     obtain_then
       (first_row lib (processes_sql f) (\<lambda>row. Inr (case row of None \<Rightarrow> 0 | Some vals \<Rightarrow> int_at vals 0)))
       (\<lambda>n. say (''Processes'' @ [newline] @ ''  '' @ show_int n @ [newline, newline]))"

definition timeline_row_text :: "int \<Rightarrow> sql_value list \<Rightarrow> string" where
  "timeline_row_text start_ns vals =
     ''  +'' @ show_milliseconds (int_at vals 0 - start_ns) @ '' ms pid='' @
     show_int (int_at vals 1) @ '' tid='' @ show_int (int_at vals 2) @ '' '' @ text_at vals 3 @
     (if text_at vals 4 = [] then [] else '' '' @ text_at vals 4) @
     '' -> '' @ show_int (int_at vals 5) @
     (if int_at vals 6 \<noteq> 0 then '' ('' @ errno_name (to_int32 (int_at vals 6)) @ '')'' else []) @
     [newline]"

definition sql_show_timeline :: "'c sqlite \<Rightarrow> int \<Rightarrow> command_filter \<Rightarrow> ('c, string) reader" where
  "sql_show_timeline lib start_ns f =
     then_read (say (''Events'' @ [newline]))
       (query lib (timeline_sql f) (\<lambda>vals out. out @ timeline_row_text start_ns vals) (work (\<lambda>out. out)))"

definition sql_show_rest :: "'c sqlite \<Rightarrow> show_options \<Rightarrow> int \<Rightarrow> ('c, string) reader" where
  "sql_show_rest lib options start_ns =
     (let f = so_command_id options in
      then_read (sql_show_processes lib f)
     (then_read (sql_show_files lib f)
     (then_read (sql_show_network lib f)
     (then_read (sql_show_local_ipc lib f)
     (then_read (sql_show_errors lib f)
        (if so_events options then sql_show_timeline lib start_ns f else work (\<lambda>out. out)))))))"

definition sql_show_body :: "'c sqlite \<Rightarrow> show_options \<Rightarrow> ('c, string) reader" where
  "sql_show_body lib options =
     obtain_then (sql_validate_schema lib) (\<lambda>schema_version.
       case so_command_id options of
         Some cid \<Rightarrow>
           if schema_version < 3 then
             stop_with (Runtime_error ''capsule schema does not contain per-command attribution'')
           else
             obtain_then (first_row lib (command_header_sql cid) (command_header_of cid))
               (\<lambda>(header, start_ns). then_read (say header) (sql_show_rest lib options start_ns))
       | None \<Rightarrow>
           obtain_then (first_row lib (run_header_sql schema_version) run_header_of)
             (\<lambda>(header, mode, start_ns).
                then_read (say header)
               (then_read (if mode = ''session'' then sql_show_commands lib else work (\<lambda>out. out))
                  (sql_show_rest lib options start_ns))))"

definition show_result :: "string \<Rightarrow> unit res \<Rightarrow> report" where
  "show_result out r =
     (case r of
        Inl e \<Rightarrow> \<lparr>std_out = out, std_err = ''whyrun show: '' @ what e @ [newline], exit_status = 1\<rparr>
      | Inr u \<Rightarrow> \<lparr>std_out = out, std_err = [], exit_status = 0\<rparr>)"

definition sql_show ::
  "'c sqlite \<Rightarrow> string \<Rightarrow> show_options \<Rightarrow> 'c session \<Rightarrow> (report \<times> 'c session) option" where
  "sql_show lib path options s =
     (case read_database lib path s of
        (Inl e, s1) \<Rightarrow> Some (show_result [] (Inl e), s1)
      | (Inr u, s1) \<Rightarrow>
          map_option (\<lambda>(r, out, s2). (show_result out r, close_database lib s2))
            (sql_show_body lib options [] s1))"

section \<open>It returns and releases its handles\<close>

lemma tidy_listing [tidy_intros]: "tidy (listing lib sql line none)"
proof -
  have "tidy (query lib sql (\<lambda>vals (any, out). (True, out @ line vals))
      (work (\<lambda>(any, out). (any, out @ (if any then [] else none) @ [newline]))))"
    by (intro tidy_intros)
  then show ?thesis
    unfolding tidy_def listing_def by fastforce
qed

lemma tidy_say [tidy_intros]: "tidy (say t)"
  unfolding say_def by (rule tidy_work)

lemma tidy_show_body: "tidy (sql_show_body lib options)"
proof -
  have rest: "tidy (sql_show_rest lib options start_ns)" for start_ns
    unfolding sql_show_rest_def Let_def sql_show_processes_def sql_show_files_def
      sql_show_network_def sql_show_local_ipc_def sql_show_errors_def sql_show_timeline_def
    by (intro tidy_intros balanced_intros)
  have commands: "tidy (sql_show_commands lib)"
    unfolding sql_show_commands_def by (intro tidy_intros)
  show ?thesis
    unfolding sql_show_body_def sql_validate_schema_def
    by (cases "so_command_id options"; simp only: option.case)
      (intro tidy_intros balanced_intros rest commands)+
qed

lemma show_returns:
  fixes s :: "'c session"
  assumes "closed s"
  shows "\<exists>rep s'. sql_show lib path options s = Some (rep, s') \<and> closed s'"
proof -
  obtain r s1 where o: "read_database lib path s = (r, s1)"
    by (cases "read_database lib path s")
  note h = read_database_handles[OF assms o]
  show ?thesis
  proof (cases r)
    case (Inl e)
    with o h show ?thesis by (simp add: sql_show_def)
  next
    case (Inr u)
    with h have "live s1 []"
      by simp
    then obtain r2 out s2 where "sql_show_body lib options [] s1 = Some (r2, out, s2)" "live s2 []"
      using tidyE[OF tidy_show_body] by metis
    with o Inr show ?thesis by (simp add: sql_show_def close_database_handles)
  qed
qed

section \<open>What is printed\<close>

definition flagged_prefix :: "bool \<times> string \<Rightarrow> bool \<times> string \<Rightarrow> bool" where
  "flagged_prefix a b \<longleftrightarrow> prefix (snd a) (snd b)"

context capsule_reader
begin

sublocale printing: row_reader lib "\<lambda>c. view c = db" "selected f db" prefix for db
  by unfold_locales (auto dest: selects_answer)

sublocale listing_rows: row_reader lib "\<lambda>c. view c = db" "selected f db" flagged_prefix for db
  by unfold_locales (auto dest: selects_answer simp: flagged_prefix_def)

abbreviation prints :: "capsule \<Rightarrow> ('c, string) reader \<Rightarrow> string \<Rightarrow> bool" where
  "prints db m t \<equiv> reads lib (\<lambda>c. view c = db) prefix m (\<lambda>out. (Inr (), out @ t))"

lemma prints_say: "prints db (say t) t"
  unfolding say_def by (rule printing.reads_work) simp

lemma prints_nothing: "prints db (work (\<lambda>out. out)) []"
  using printing.reads_work[of "\<lambda>out. out"] by simp

lemma prints_then:
  assumes "prints db m t" "prints db n u"
  shows "prints db (then_read m n) (t @ u)"
  using printing.reads_then[OF assms] by (simp add: read_both_def[abs_def])

lemma fold_append: "fold (\<lambda>v out. out @ line v) vs out = out @ concat (map line vs)"
  by (induction vs arbitrary: out) simp_all

lemma prints_query:
  assumes "selected f db sql = Some rs"
  shows "prints db (query lib sql (\<lambda>vals out. out @ line vals) (work (\<lambda>out. out)))
    (concat (map line rs))"
  using printing.reads_query[OF assms, of "\<lambda>vals out. out @ line vals", OF _ prints_nothing]
  by (simp add: fold_append)

lemma prints_listing:
  assumes "selected f db sql = Some rs"
  shows "prints db (listing lib sql line none)
    ((if rs = [] then none else concat (map line rs)) @ [newline])"
proof -
  let ?body = "\<lambda>vals (any, out). (True, out @ line vals)"
  let ?finish = "\<lambda>(any, out). (any, out @ (if any then [] else none) @ [newline])"
  have "reads lib (\<lambda>c. view c = db) flagged_prefix (work ?finish) (\<lambda>acc. (Inr (), ?finish acc))"
    by (rule listing_rows.reads_work) (auto simp: flagged_prefix_def)
  from listing_rows.reads_query[OF assms, of ?body, OF _ this]
  have q: "reads lib (\<lambda>c. view c = db) flagged_prefix (query lib sql ?body (work ?finish))
      (\<lambda>acc. (Inr (), ?finish (fold ?body rs acc)))"
    by (auto simp: flagged_prefix_def)
  have rows: "fold ?body rs (any, out) = (any \<or> rs \<noteq> [], out @ concat (map line rs))" for any out
    by (induction rs arbitrary: any out) simp_all
  show ?thesis
    unfolding reads_def
  proof (intro conjI allI impI)
    fix out and s :: "'c session"
    assume ok: "view (conn s) = db"
    let ?all = "out @ concat (map line rs)"
    let ?out = "?all @ (if rs \<noteq> [] then [] else none) @ [newline]"
    obtain r any a s' where run: "query lib sql ?body (work ?finish) (False, out) s = Some (r, (any, a), s')"
        "view (conn s') = db"
        "(r, (any, a)) = (Inr (), (rs \<noteq> [], ?out)) \<or>
         failed_by_fault lib r \<and> prefix out a \<and> prefix a ?out"
    proof (rule readsE[OF q, of s "(False, out)"])
      fix r a s'
      assume "query lib sql ?body (work ?finish) (False, out) s = Some (r, a, s')" "view (conn s') = db"
        "(r, a) = (Inr (), ?finish (fold ?body rs (False, out))) \<or> failed_by_fault lib r \<and>
          flagged_prefix (False, out) a \<and>
          flagged_prefix a (snd (Inr (), ?finish (fold ?body rs (False, out))))"
      then show thesis
        unfolding rows using that by (cases a) (simp add: flagged_prefix_def)
    qed (rule ok)
    have "?out = out @ (if rs = [] then none else concat (map line rs)) @ [newline]"
      by simp
    with run show "\<exists>r a s'. listing lib sql line none out s = Some (r, a, s') \<and> view (conn s') = db \<and>
        ((r, a) = (Inr (), out @ (if rs = [] then none else concat (map line rs)) @ [newline]) \<or>
         failed_by_fault lib r \<and> prefix out a \<and>
         prefix a (snd (Inr (), out @ (if rs = [] then none else concat (map line rs)) @ [newline])))"
      unfolding listing_def by auto
  qed simp
qed

end

section \<open>The report\<close>

lemma row_texts:
  "files_row (files_values fr) = file_line fr"
  "network_row_text (network_values n) = network_text n"
  "connect_row (ipc_values i) = (case i of (k, n, ok, bad) \<Rightarrow> connect_text k n ok bad)"
  "error_row (errors_values e) = error_text e"
  "command_row_text (command_values c) = command_text c"
  "timeline_row_text start_ns (timeline_values r) = timeline_text start_ns r"
  by (simp_all add: files_row_def files_values_def file_line_def network_row_text_def
      connect_row_def network_values_def network_text_def connect_text_def ipc_values_def
      error_row_def errors_values_def error_text_def command_row_text_def command_values_def
      command_text_def timeline_row_text_def timeline_values_def timeline_text_def
      column_text_def column_int_def split: prod.split option.split)

lemma first_row_values:
  "command_header_of cid (first_of (map command_header_values
     (filter (\<lambda>c. c_id c = cid) (t_commands db)))) = show_command_header db cid"
  "run_header_of (first_of (map (\<lambda>r. run_values (if 2 \<le> n then run_mode_text r else ''command'') r)
     (take 1 (t_runs db)))) = show_run_header db n"
proof -
  have find: "find P xs = first_of (filter P xs)" for P :: "command_row \<Rightarrow> bool" and xs
    by (induction xs) (simp_all add: first_of_def)
  show "command_header_of cid (first_of (map command_header_values
      (filter (\<lambda>c. c_id c = cid) (t_commands db)))) = show_command_header db cid"
    unfolding show_command_header_def find
    by (cases "filter (\<lambda>c. c_id c = cid) (t_commands db)")
      (simp_all add: first_of_def command_header_of_def command_header_values_def column_text_def
        column_int_def split: option.split)
  have "c_str ''command'' = ''command''"
    by code_simp
  then show "run_header_of (first_of (map (\<lambda>r. run_values (if 2 \<le> n then run_mode_text r
      else ''command'') r) (take 1 (t_runs db)))) = show_run_header db n"
    by (cases "t_runs db")
      (simp_all add: first_of_def run_header_of_def run_values_def show_run_header_def
        column_text_def Let_def)
qed

context capsule_reader
begin

lemma prints_rows:
  assumes "selected f db sql = Some (map values xs)" "\<And>x. line (values x) = line' x"
  shows "prints db (listing lib sql line (indent @ ''none'' @ [newline]))
    (lines_or_none indent (map line' xs))"
proof -
  have "map line (map values xs) = map line' xs"
    using assms(2) by simp
  moreover have "map values xs = [] \<longleftrightarrow> map line' xs = []"
    by simp
  ultimately show ?thesis
    using prints_listing[OF assms(1), of line "indent @ ''none'' @ [newline]"]
    unfolding lines_or_none_def by presburger
qed

lemma prints_sections:
  "prints db (sql_show_files lib f) (show_files db f)"
  "prints db (sql_show_network lib f) (show_network db f)"
  "prints db (sql_show_local_ipc lib f) (show_local_ipc db f)"
  "prints db (sql_show_errors lib f) (show_errors db f)"
  "prints db (sql_show_commands lib) (show_commands db)"
  "prints db (sql_show_timeline lib start_ns f) (show_timeline db start_ns f)"
proof -
  note texts = prints_then[OF prints_say]
  have files: "prints db (listing lib (files_sql f rd) files_row (''    none'' @ [newline]))
      (lines_or_none ''    '' (map file_line (file_rows db f rd)))" for rd
    using prints_rows[where indent = "''    ''" and line = files_row and line' = file_line,
        OF selected_simps(6) row_texts(1)] by simp
  show "prints db (sql_show_files lib f) (show_files db f)"
    using texts[OF texts[OF prints_then[OF files[of True] texts[OF files[of False]]]],
        of "''Files'' @ [newline]" "''  READ'' @ [newline]" "''  WRITE'' @ [newline]"]
    by (simp add: sql_show_files_def show_files_def)
  have "prints db (listing lib (network_sql f) network_row_text (''  none'' @ [newline]))
      (lines_or_none ''  '' (map network_text (network_rows db f)))"
    using prints_rows[where indent = "''  ''" and line = network_row_text and line' = network_text,
        OF selected_simps(7) row_texts(2)] by simp
  from texts[OF this, of "''Network'' @ [newline]"] show "prints db (sql_show_network lib f) (show_network db f)"
    by (simp add: sql_show_network_def show_network_def)
  have "prints db (listing lib (errors_sql f) error_row (''  none'' @ [newline]))
      (lines_or_none ''  '' (map error_text (error_rows db f)))"
    using prints_rows[where indent = "''  ''" and line = error_row and line' = error_text,
        OF selected_simps(9) row_texts(4)] by simp
  from texts[OF this, of "''Errors'' @ [newline]"] show "prints db (sql_show_errors lib f) (show_errors db f)"
    by (simp add: sql_show_errors_def show_errors_def)
  have "prints db (listing lib commands_sql command_row_text (''  none'' @ [newline]))
      (lines_or_none ''  '' (map command_text (sort_key c_sequence (t_commands db))))"
    using prints_rows[where indent = "''  ''" and line = command_row_text and line' = command_text,
        OF selected_simps(3) row_texts(5)] by simp
  from texts[OF this, of "''Commands'' @ [newline]"] show "prints db (sql_show_commands lib) (show_commands db)"
    by (simp add: sql_show_commands_def show_commands_def)
  have "connect_row (ipc_values i) @ '')'' @ [newline] =
      (\<lambda>(k, n, ok, bad). connect_text k n ok bad @ '')'' @ [newline]) i" for i
    by (simp add: row_texts(3) split: prod.split)
  from prints_rows[where indent = "''  ''" and line = "\<lambda>vals. connect_row vals @ '')'' @ [newline]"
      and line' = "\<lambda>(k, n, ok, bad). connect_text k n ok bad @ '')'' @ [newline]",
      OF selected_simps(8) this]
  have "prints db (listing lib (ipc_sql f) (\<lambda>vals. connect_row vals @ '')'' @ [newline])
      (''  none'' @ [newline]))
      (lines_or_none ''  '' (map (\<lambda>(k, n, ok, bad). connect_text k n ok bad @ '')'' @ [newline])
         (ipc_rows db f)))"
    by simp
  from texts[OF this, of "''Local IPC'' @ [newline]"] show "prints db (sql_show_local_ipc lib f) (show_local_ipc db f)"
    by (simp add: sql_show_local_ipc_def show_local_ipc_def)
  show "prints db (sql_show_timeline lib start_ns f) (show_timeline db start_ns f)"
    using texts[OF prints_query[where line = "timeline_row_text start_ns", OF selected_simps(10)],
        where t = "''Events'' @ [newline]"]
    by (simp add: sql_show_timeline_def show_timeline_def comp_def row_texts(6))
qed

abbreviation prints_res :: "capsule \<Rightarrow> ('c, string) reader \<Rightarrow> string res \<Rightarrow> bool" where
  "prints_res db m r \<equiv> reads lib (\<lambda>c. view c = db) prefix m
     (\<lambda>out. case r of Inl e \<Rightarrow> (Inl e, out) | Inr t \<Rightarrow> (Inr (), out @ t))"

lemma prints_first:
  assumes "selected f db sql = Some rs" "\<And>x. prints_res db (k x) (g x)"
  shows "prints_res db (obtain_then (first_row lib sql fn) k) (bind_res (fn (first_of rs)) g)"
proof -
  have "read_first fn (\<lambda>x out. case g x of Inl e \<Rightarrow> (Inl e, out) | Inr t \<Rightarrow> (Inr (), out @ t)) rs =
      (\<lambda>out. case bind_res (fn (first_of rs)) g of Inl e \<Rightarrow> (Inl e, out) | Inr t \<Rightarrow> (Inr (), out @ t))"
    by (cases "fn (first_of rs)") (simp_all add: read_first_def fun_eq_iff)
  moreover have "reads lib (\<lambda>c. view c = db) prefix (obtain_then (first_row lib sql fn) k)
      (read_first fn (\<lambda>x out. case g x of Inl e \<Rightarrow> (Inl e, out) | Inr t \<Rightarrow> (Inr (), out @ t)) rs)"
    by (rule printing.reads_first[OF assms(1)]) (rule assms(2))
  ultimately show ?thesis by simp
qed

lemma prints_processes: "prints db (sql_show_processes lib f) (show_processes db f)"
proof -
  have n: "show_int (int n) = show_nat n" for n
    by (simp add: show_int_def)
  let ?text = "\<lambda>n. ''Processes'' @ [newline] @ ''  '' @ show_int n @ [newline, newline]"
  have "prints_res db (say (?text n)) (Inr (?text n))" for n
    using prints_say[of db "?text n"] by simp
  from prints_first[where k = "\<lambda>n. say (?text n)" and g = "\<lambda>n. Inr (?text n)", OF selected_simps(5) this,
      of "\<lambda>row. Inr (case row of None \<Rightarrow> 0 | Some vals \<Rightarrow> int_at vals 0)"]
  have "prints_res db (sql_show_processes lib f) (Inr (?text (int (process_count db f))))"
    unfolding sql_show_processes_def by (simp add: first_of_def)
  then show ?thesis by (simp add: show_processes_def n)
qed

lemma prints_rest:
  assumes "so_command_id options = f"
  shows "prints db (sql_show_rest lib options start_ns) (show_body db options ([], start_ns))"
proof -
  have "prints db (if so_events options then sql_show_timeline lib start_ns f else work (\<lambda>out. out))
      (if so_events options then show_timeline db start_ns f else [])"
    using prints_sections(6) prints_nothing by simp
  with prints_then[OF prints_processes prints_then[OF prints_sections(1)
      prints_then[OF prints_sections(2) prints_then[OF prints_sections(3)
      prints_then[OF prints_sections(4)]]]]]
  show ?thesis
    unfolding sql_show_rest_def show_body_def assms Let_def fst_conv snd_conv append_Nil by blast
qed

lemma show_body_header: "show_body db options h = fst h @ show_body db options ([], snd h)"
  by (simp add: show_body_def)

text \<open>The whole body is the report as a text, or its exception.\<close>

lemma prints_body:
  assumes "so_command_id options = f"
  shows "prints_res db (sql_show_body lib options) (show_text db options)"
proof -
  have body: "prints_res db (then_read (say (fst h)) (sql_show_rest lib options (snd h)))
      (Inr (show_body db options h))" for h
    using prints_then[OF prints_say prints_rest[OF assms], of db "fst h" "snd h"]
    by (simp only: show_body_header[of db options h] sum.case)
  have session: "prints_res db
      (then_read (say header) (then_read (if mode = ''session'' then sql_show_commands lib
         else work (\<lambda>out. out)) (sql_show_rest lib options start_ns)))
      (Inr (show_body db options
         (header @ (if mode = ''session'' then show_commands db else []), start_ns)))"
    for header mode start_ns
  proof -
    have "prints db (if mode = ''session'' then sql_show_commands lib else work (\<lambda>out. out))
        (if mode = ''session'' then show_commands db else [])"
      using prints_sections(5) prints_nothing by simp
    from prints_then[OF prints_say prints_then[OF this prints_rest[OF assms]], of header start_ns]
    show ?thesis
      by (simp only: show_body_header[of db options
            "(header @ (if mode = ''session'' then show_commands db else []), start_ns)"]
          sum.case fst_conv snd_conv append_assoc)
  qed
  show ?thesis
    unfolding sql_show_body_def sql_validate_schema_def show_text_def
      schema_row[symmetric]
  proof (rule prints_first[OF selected_simps(1)])
    fix version
    show "prints_res db
        (case so_command_id options of
           Some cid \<Rightarrow>
             if version < 3 then
               stop_with (Runtime_error ''capsule schema does not contain per-command attribution'')
             else
               obtain_then (first_row lib (command_header_sql cid) (command_header_of cid))
                 (\<lambda>(header, start_ns). then_read (say header) (sql_show_rest lib options start_ns))
         | None \<Rightarrow>
             obtain_then (first_row lib (run_header_sql version) run_header_of)
               (\<lambda>(header, mode, start_ns).
                  then_read (say header)
                 (then_read (if mode = ''session'' then sql_show_commands lib else work (\<lambda>out. out))
                    (sql_show_rest lib options start_ns))))
        (case so_command_id options of
           Some cid \<Rightarrow>
             if version < 3 then
               Inl (Runtime_error ''capsule schema does not contain per-command attribution'')
             else
               bind_res (show_command_header db cid) (\<lambda>header. Inr (show_body db options header))
         | None \<Rightarrow>
             bind_res (show_run_header db version) (\<lambda>(text, mode, start).
               Inr (show_body db options
                      (text @ (if mode = ''session'' then show_commands db else []), start))))"
    proof (cases "so_command_id options")
      case None
      show ?thesis
        unfolding None option.case first_row_values(2)[symmetric]
        by (rule prints_first[OF selected_simps(2)]) (use session in \<open>auto split: prod.split\<close>)
    next
      case (Some cid)
      have "prints_res db
          (obtain_then (first_row lib (command_header_sql cid) (command_header_of cid))
             (\<lambda>(header, start_ns). then_read (say header) (sql_show_rest lib options start_ns)))
          (bind_res (show_command_header db cid) (\<lambda>header. Inr (show_body db options header)))"
        unfolding first_row_values(1)[symmetric]
        by (rule prints_first) (use body Some assms selected_simps(4) in \<open>auto split: prod.split\<close>)
      moreover have "prints_res db (stop_with e) (Inl e)" for e
        unfolding sum.case by (rule printing.reads_stop)
      ultimately show ?thesis
        using Some by (simp only: option.case split: if_split) blast
    qed
  qed
qed

lemma show_reads:
  fixes s :: "'c session"
  assumes "so_command_id options = f" "view (conn s) = db"
  shows "\<exists>rep s'. sql_show lib path options s = Some (rep, s') \<and>
    (rep = show_capsule (Inr db) options \<or>
     ((\<exists>e. sq_open lib = Some e) \<or> \<not> no_faults lib) \<and> exit_status rep = 1 \<and> std_err rep \<noteq> [] \<and>
       prefix (std_out rep) (std_out (show_capsule (Inr db) options)))"
proof (cases "sq_open lib")
  case (Some he)
  then obtain e s1 where "read_database lib path s = (Inl e, s1)"
    by (cases he) (simp add: read_database_def open_database_def)
  with Some show ?thesis by (simp add: sql_show_def show_result_def)
next
  case None
  then obtain s1 where s1: "read_database lib path s = (Inr (), s1)" "conn s1 = conn s"
    by (simp add: read_database_def open_database_def)
  let ?whole = "case show_text db options of Inl e \<Rightarrow> (Inl e, []) | Inr t \<Rightarrow> (Inr (), [] @ t)"
  obtain r out s2 where body: "sql_show_body lib options [] s1 = Some (r, out, s2)"
      "(r, out) = ?whole \<or> failed_by_fault lib r \<and> prefix out (snd ?whole)"
  proof (rule readsE[OF prints_body[OF assms(1)], of s1 db "[]"])
    show "view (conn s1) = db"
      using s1(2) assms(2) by simp
  qed (use that in auto)
  have "show_capsule (Inr db) options = show_result (snd ?whole) (fst ?whole)"
    by (simp add: show_capsule_def show_result_def split: sum.split)
  with s1(1) body show ?thesis
    by (auto simp: sql_show_def show_result_def failed_by_fault_def split: sum.splits)
qed

end

section \<open>Properties\<close>


end
