(* ===== verification/Diff_Reading.thy ===== *)
theory Diff_Reading
  imports Sql_Queries
begin

text \<open>
  \<open>load_summary\<close> and \<open>diff_capsules\<close> (\<open>src/diff.cpp\<close>) with their SQLite calls. The accumulator
  of the readers is the summary; the statements of the code live to the end of the function,
  so that the scopes are nested. Nothing is printed before both summaries are loaded.
\<close>

section \<open>The program\<close>

definition empty_summary :: summary where
  "empty_summary =
     \<lparr>sm_exit_code = 0, sm_session = False, sm_reads = [], sm_writes = [], sm_network = [],
      sm_local_ipc = [], sm_executables = [], sm_commands = []\<rparr>"

definition put_file :: "sql_value list \<Rightarrow> summary \<Rightarrow> summary" where
  "put_file vals sm =
     (let sm1 = (if 0 < int_at vals 1
                 then sm\<lparr>sm_reads := map_put (text_at vals 0)
                        (mk_counts (int_at vals 1) 0 0 (int_at vals 3)) (sm_reads sm)\<rparr>
                 else sm) in
      if 0 < int_at vals 2
      then sm1\<lparr>sm_writes := map_put (text_at vals 0)
             (mk_counts (int_at vals 2) 0 0 (int_at vals 4)) (sm_writes sm1)\<rparr>
      else sm1)"

definition connect_counts_of :: "sql_value list \<Rightarrow> counts" where
  "connect_counts_of vals = mk_counts (int_at vals 1) (int_at vals 2) (int_at vals 3) 0"

definition put_network :: "sql_value list \<Rightarrow> summary \<Rightarrow> summary" where
  "put_network vals sm =
     sm\<lparr>sm_network := map_put (text_at vals 0) (connect_counts_of vals) (sm_network sm)\<rparr>"

definition put_ipc :: "sql_value list \<Rightarrow> summary \<Rightarrow> summary" where
  "put_ipc vals sm =
     sm\<lparr>sm_local_ipc := map_put (text_at vals 0) (connect_counts_of vals) (sm_local_ipc sm)\<rparr>"

definition put_executable :: "sql_value list \<Rightarrow> summary \<Rightarrow> summary" where
  "put_executable vals sm =
     sm\<lparr>sm_executables := insort_insert (text_at vals 0) (sm_executables sm)\<rparr>"

definition put_command :: "sql_value list \<Rightarrow> summary \<Rightarrow> summary" where
  "put_command vals sm = sm\<lparr>sm_commands := insort_insert (text_at vals 0) (sm_commands sm)\<rparr>"

definition nothing :: "('c, 'a) reader" where
  "nothing = work (\<lambda>acc. acc)"

definition sql_activity :: "'c sqlite \<Rightarrow> ('c, summary) reader" where
  "sql_activity lib =
     query lib file_activity_sql put_file
    (query lib network_activity_sql put_network
    (query lib ipc_summary_sql put_ipc
    (query lib executables_sql put_executable nothing)))"

definition sql_commands :: "'c sqlite \<Rightarrow> nat \<Rightarrow> ('c, summary) reader" where
  "sql_commands lib schema_version =
     (if 2 \<le> schema_version then
        with_row lib run_mode_sql (\<lambda>row.
          let session = (case row of None \<Rightarrow> False | Some vals \<Rightarrow> text_at vals 0 = ''session'') in
          then_read (work (\<lambda>sm. sm\<lparr>sm_session := session\<rparr>))
            (if session then query lib command_set_sql put_command nothing else nothing))
      else nothing)"

definition sql_summary :: "'c sqlite \<Rightarrow> string \<Rightarrow> ('c, summary) reader" where
  "sql_summary lib path =
     obtain_then (sql_validate_schema lib) (\<lambda>schema_version.
       with_row lib exit_code_sql (\<lambda>row.
         case row of
           None \<Rightarrow> stop_with (Runtime_error (''capsule does not contain a run: '' @ path))
         | Some vals \<Rightarrow>
             then_read (work (\<lambda>sm. sm\<lparr>sm_exit_code := int_at vals 0\<rparr>))
            (then_read (sql_commands lib schema_version) (sql_activity lib))))"

definition sql_load_summary ::
  "'c sqlite \<Rightarrow> string \<Rightarrow> 'c session \<Rightarrow> (summary res \<times> 'c session) option" where
  "sql_load_summary lib path s =
     (case read_database lib path s of
        (Inl e, s1) \<Rightarrow> Some (Inl e, s1)
      | (Inr u, s1) \<Rightarrow>
          map_option (\<lambda>(r, sm, s2). (bind_res r (\<lambda>_. Inr sm), close_database lib s2))
            (sql_summary lib path empty_summary s1))"

text \<open>The two capsules, one after the other, each on its own connection.\<close>

definition diff_result :: "(summary \<times> summary) res \<Rightarrow> report" where
  "diff_result r =
     (case r of
        Inl e \<Rightarrow> \<lparr>std_out = [], std_err = ''whyrun diff: '' @ what e @ [newline], exit_status = 1\<rparr>
      | Inr (a, b) \<Rightarrow> \<lparr>std_out = diff_text a b, std_err = [], exit_status = 0\<rparr>)"

definition sql_diff ::
  "'c sqlite \<Rightarrow> string \<Rightarrow> string \<Rightarrow> 'c session \<Rightarrow> 'c session \<Rightarrow>
   (report \<times> 'c session \<times> 'c session) option" where
  "sql_diff lib before after s t =
     (case sql_load_summary lib before s of
        None \<Rightarrow> None
      | Some (Inl e, s') \<Rightarrow> Some (diff_result (Inl e), s', t)
      | Some (Inr a, s') \<Rightarrow>
          map_option (\<lambda>(r, t'). (diff_result (bind_res r (\<lambda>b. Inr (a, b))), s', t'))
            (sql_load_summary lib after t))"

section \<open>It returns and releases its handles\<close>

lemma tidy_summary: "tidy (sql_summary lib path)"
proof -
  have activity: "tidy (sql_activity lib)"
    unfolding sql_activity_def nothing_def by (intro tidy_intros)
  have commands: "tidy (sql_commands lib schema_version)" for schema_version
    unfolding sql_commands_def nothing_def Let_def by (intro tidy_intros)
  have "tidy (case row of
      None \<Rightarrow> stop_with (Runtime_error (''capsule does not contain a run: '' @ path))
    | Some vals \<Rightarrow>
        then_read (work (\<lambda>sm. sm\<lparr>sm_exit_code := int_at vals 0\<rparr>))
       (then_read (sql_commands lib version) (sql_activity lib)))" for row version
    by (cases row) (simp_all add: tidy_intros activity commands)
  then show ?thesis
    unfolding sql_summary_def sql_validate_schema_def by (intro tidy_intros balanced_intros)
qed

lemma load_returns:
  fixes s :: "'c session"
  assumes "closed s"
  shows "\<exists>r s'. sql_load_summary lib path s = Some (r, s') \<and> closed s'"
proof -
  obtain r s1 where o: "read_database lib path s = (r, s1)"
    by (cases "read_database lib path s")
  note h = read_database_handles[OF assms o]
  show ?thesis
  proof (cases r)
    case (Inl e)
    with o h show ?thesis by (simp add: sql_load_summary_def)
  next
    case (Inr u)
    with h have "live s1 []"
      by simp
    then obtain r2 sm s2 where "sql_summary lib path empty_summary s1 = Some (r2, sm, s2)" "live s2 []"
      using tidyE[OF tidy_summary] by metis
    with o Inr show ?thesis by (simp add: sql_load_summary_def close_database_handles)
  qed
qed

lemma diff_returns:
  fixes s t :: "'c session"
  assumes "closed s" "closed t"
  shows "\<exists>rep s' t'. sql_diff lib before after s t = Some (rep, s', t') \<and> closed s' \<and> closed t'"
proof -
  obtain r s' where l: "sql_load_summary lib before s = Some (r, s')" "closed s'"
    using load_returns[OF assms(1)] by blast
  obtain r2 t' where "sql_load_summary lib after t = Some (r2, t')" "closed t'"
    using load_returns[OF assms(2)] by blast
  with l assms(2) show ?thesis
    by (cases r) (simp_all add: sql_diff_def)
qed

section \<open>What is loaded\<close>

text \<open>Each loop fills its own part of the summary.\<close>

lemma fold_put_file:
  "fold put_file (map file_activity_values rs) sm =
     sm\<lparr>sm_reads := fold (\<lambda>r m. if 0 < read_calls r then map_put (column_text (f_path r))
          (mk_counts (read_calls r) 0 0 (bytes_read r)) m else m) rs (sm_reads sm),
        sm_writes := fold (\<lambda>r m. if 0 < write_calls r then map_put (column_text (f_path r))
          (mk_counts (write_calls r) 0 0 (bytes_written r)) m else m) rs (sm_writes sm)\<rparr>"
proof (induction rs arbitrary: sm)
  case Nil
  then show ?case by simp
next
  case (Cons r rs)
  have "put_file (file_activity_values r) sm =
      sm\<lparr>sm_reads := (if 0 < read_calls r then map_put (column_text (f_path r))
           (mk_counts (read_calls r) 0 0 (bytes_read r)) (sm_reads sm) else sm_reads sm),
         sm_writes := (if 0 < write_calls r then map_put (column_text (f_path r))
           (mk_counts (write_calls r) 0 0 (bytes_written r)) (sm_writes sm) else sm_writes sm)\<rparr>"
    by (simp add: put_file_def file_activity_values_def column_text_def Let_def)
  then show ?case
    by (simp add: Cons.IH)
qed

lemma fold_put_network:
  "fold put_network (map network_activity_values rs) sm =
     sm\<lparr>sm_network := fold (\<lambda>r. map_put (column_text (n_endpoint r))
          (mk_counts (connect_count r) (success_count r) (failure_count r) 0)) rs (sm_network sm)\<rparr>"
  by (induction rs arbitrary: sm)
    (simp_all add: put_network_def network_activity_values_def connect_counts_of_def column_text_def)

lemma fold_put_ipc:
  "fold put_ipc (map ipc_values rs) sm =
     sm\<lparr>sm_local_ipc := fold (\<lambda>(k, n, ok, bad). map_put (column_text k) (mk_counts n ok bad 0)) rs
          (sm_local_ipc sm)\<rparr>"
  by (induction rs arbitrary: sm)
    (simp_all add: put_ipc_def ipc_values_def connect_counts_of_def column_text_def split: prod.split)

lemma fold_put_set:
  "fold put_executable (map (\<lambda>x. [Text x]) xs) sm =
     sm\<lparr>sm_executables := fold insort_insert (map column_text xs) (sm_executables sm)\<rparr>"
  "fold put_command (map (\<lambda>x. [Text x]) xs) sm' =
     sm'\<lparr>sm_commands := fold insort_insert (map column_text xs) (sm_commands sm')\<rparr>"
  by (induction xs arbitrary: sm sm')
    (simp_all add: put_executable_def put_command_def column_text_def)

text \<open>What the loops make of a summary.\<close>

definition with_activity :: "capsule \<Rightarrow> summary \<Rightarrow> summary" where
  "with_activity db sm =
     fold put_executable (map (\<lambda>x. [Text x])
         (sort (remdups (filter (\<lambda>x. x \<noteq> []) (map pr_executable (t_processes db))))))
       (fold put_ipc (map ipc_values (ipc_rows db None))
         (fold put_network (map network_activity_values (t_network db))
           (fold put_file (map file_activity_values (t_files db)) sm)))"

definition session_run :: "capsule \<Rightarrow> bool" where
  "session_run db \<longleftrightarrow>
     (case t_runs db of [] \<Rightarrow> False | run # _ \<Rightarrow> column_text (run_mode_text run) = ''session'')"

definition with_commands :: "capsule \<Rightarrow> summary \<Rightarrow> summary" where
  "with_commands db sm =
     (if session_run db
      then fold put_command (map (\<lambda>x. [Text x]) (sort (remdups (map c_command (t_commands db)))))
      else (\<lambda>sm. sm)) (sm\<lparr>sm_session := session_run db\<rparr>)"

lemma with_activity_empty:
  "with_activity db ((if P then with_commands db else (\<lambda>sm. sm)) (empty_summary\<lparr>sm_exit_code := n\<rparr>)) =
     \<lparr>sm_exit_code = n, sm_session = (P \<and> session_run db), sm_reads = load_reads db,
      sm_writes = load_writes db, sm_network = load_network db, sm_local_ipc = load_local_ipc db,
      sm_executables = load_executables db,
      sm_commands = (if P \<and> session_run db then load_commands db else [])\<rparr>"
proof -
  have ipc: "(\<lambda>r m. map_put (case r of (k, n, ok, bad) \<Rightarrow> column_text k)
      (case r of (k, n, ok, bad) \<Rightarrow> mk_counts n ok bad 0) m) =
      (\<lambda>(k, n, ok, bad). map_put (column_text k) (mk_counts n ok bad 0))"
    by (auto simp: fun_eq_iff)
  show ?thesis
    by (simp add: with_activity_def with_commands_def empty_summary_def fold_put_file
        fold_put_network fold_put_ipc fold_put_set load_reads_def load_writes_def load_network_def
        load_local_ipc_def load_executables_def load_commands_def map_fill_def set_fill_def ipc)
qed

context capsule_reader
begin

sublocale summing: row_reader lib "\<lambda>c. view c = db" "selected f db"
    "\<lambda>_ _. True" for db
  by unfold_locales (auto dest: selects_answer)

abbreviation sums :: "capsule \<Rightarrow> ('c, summary) reader \<Rightarrow> (summary \<Rightarrow> unit res \<times> summary) \<Rightarrow> bool"
  where "sums db m g \<equiv> reads lib (\<lambda>c. view c = db) (\<lambda>_ _. True) m g"

lemma sums_nothing: "sums db nothing (\<lambda>sm. (Inr (), sm))"
  unfolding nothing_def by (rule summing.reads_work) simp

lemma sums_activity: "sums db (sql_activity lib) (\<lambda>sm. (Inr (), with_activity db sm))"
  unfolding sql_activity_def with_activity_def
  by (rule summing.reads_query[OF selected_simps(14)], simp,
      rule summing.reads_query[OF selected_simps(15)], simp,
      rule summing.reads_query[OF selected_simps(16)], simp,
      rule summing.reads_query[OF selected_simps(17)], simp, rule sums_nothing)

lemma sums_commands:
  "sums db (sql_commands lib v) (\<lambda>sm. (Inr (), if 2 \<le> v then with_commands db sm else sm))"
proof -
  let ?all = "map (\<lambda>x. [Text x]) (sort (remdups (map c_command (t_commands db))))"
  let ?session = "\<lambda>row. case row of None \<Rightarrow> False | Some vals \<Rightarrow> text_at vals 0 = ''session''"
  have set: "sums db (work (\<lambda>sm. sm\<lparr>sm_session := b\<rparr>)) (\<lambda>sm. (Inr (), sm\<lparr>sm_session := b\<rparr>))" for b
    by (rule summing.reads_work) simp
  have commands: "sums db (query lib command_set_sql put_command nothing) (\<lambda>sm. (Inr (), fold put_command ?all sm))"
    using summing.reads_query[where body = put_command, OF selected_simps(13) _ sums_nothing]
    by (simp add: comp_def)
  have rest: "sums db (then_read (work (\<lambda>sm. sm\<lparr>sm_session := b\<rparr>))
        (if b then query lib command_set_sql put_command nothing else nothing))
      (\<lambda>sm. (Inr (), (if b then fold put_command ?all else (\<lambda>sm. sm)) (sm\<lparr>sm_session := b\<rparr>)))"
    for b
    using summing.reads_then[OF set commands, of b] summing.reads_then[OF set sums_nothing, of b]
    by (cases b) (simp_all add: read_both_def[abs_def])
  let ?h = "\<lambda>row sm.
      (if ?session row then fold put_command ?all else (\<lambda>sm. sm)) (sm\<lparr>sm_session := ?session row\<rparr>)"
  let ?g = "\<lambda>row sm. (Inr (), ?h row sm)"
  have row: "with_commands db sm = ?h (first_of (map (\<lambda>r. [Text (run_mode_text r)])
      (take 1 (t_runs db)))) sm" for sm
    unfolding with_commands_def session_run_def
    by (cases "t_runs db") (simp_all add: first_of_def column_text_def)
  have "sums db (with_row lib run_mode_sql (\<lambda>row.
        then_read (work (\<lambda>sm. sm\<lparr>sm_session := ?session row\<rparr>))
          (if ?session row then query lib command_set_sql put_command nothing else nothing)))
      (?g (first_of (map (\<lambda>r. [Text (run_mode_text r)]) (take 1 (t_runs db)))))"
    by (rule summing.reads_with_row[where g = ?g, OF selected_simps(12)]) (rule rest)
  then have "sums db (with_row lib run_mode_sql (\<lambda>row.
        then_read (work (\<lambda>sm. sm\<lparr>sm_session := ?session row\<rparr>))
          (if ?session row then query lib command_set_sql put_command nothing else nothing)))
      (\<lambda>sm. (Inr (), with_commands db sm))"
    unfolding row .
  then show ?thesis
    unfolding sql_commands_def Let_def using sums_nothing by simp
qed

text \<open>The summary of the tables, or the exception of \<open>load_summary\<close>.\<close>

lemma sums_summary:
  obtains g where "sums db (sql_summary lib path) g"
    "bind_res (fst (g empty_summary)) (\<lambda>_. Inr (snd (g empty_summary))) = load_summary (Inr db) path"
proof -
  let ?none = "Runtime_error (''capsule does not contain a run: '' @ path)"
  let ?g = "\<lambda>v row sm. case row of
      None \<Rightarrow> (Inl ?none, sm)
    | Some vals \<Rightarrow>
        (Inr (), with_activity db ((if 2 \<le> v then with_commands db else (\<lambda>sm. sm))
           (sm\<lparr>sm_exit_code := int_at vals 0\<rparr>)))"
  let ?rest = "\<lambda>v row. case row of
      None \<Rightarrow> stop_with ?none
    | Some vals \<Rightarrow>
        then_read (work (\<lambda>sm. sm\<lparr>sm_exit_code := int_at vals 0\<rparr>))
       (then_read (sql_commands lib v) (sql_activity lib))"
  have set: "sums db (work (\<lambda>sm. sm\<lparr>sm_exit_code := n\<rparr>)) (\<lambda>sm. (Inr (), sm\<lparr>sm_exit_code := n\<rparr>))" for n
    by (rule summing.reads_work) simp
  have rest: "sums db (?rest v row) (?g v row)" for v :: nat and row
  proof (cases row)
    case None
    then show ?thesis using summing.reads_stop by simp
  next
    case (Some vals)
    with summing.reads_then[OF set summing.reads_then[OF sums_commands sums_activity], of "int_at vals 0" v]
    show ?thesis by (cases "2 \<le> v") (simp_all add: read_both_def[abs_def])
  qed
  have row: "sums db (with_row lib exit_code_sql (?rest v))
      (?g v (first_of (map (\<lambda>r. [nullable (run_exit_code r)]) (take 1 (t_runs db)))))" for v
    by (rule summing.reads_with_row[OF selected_simps(11)]) (rule rest)
  show ?thesis
  proof (rule that)
    show "sums db (sql_summary lib path)
        (read_first schema_of (\<lambda>v. ?g v (first_of (map (\<lambda>r. [nullable (run_exit_code r)])
           (take 1 (t_runs db)))))
          (case map_of (t_metadata db) ''schema_version'' of None \<Rightarrow> [] | Some v \<Rightarrow> [[Text v]]))"
      unfolding sql_summary_def sql_validate_schema_def
      by (rule summing.reads_first[OF selected_simps(1)]) (rule row)
  qed (unfold read_first_def schema_row; cases "t_runs db"; cases "validate_schema db";
      simp add: load_summary_def first_of_def with_activity_empty session_run_def Let_def)
qed

lemma load_answers:
  fixes s :: "'c session"
  assumes "view (conn s) = db"
  shows "\<exists>r s'. sql_load_summary lib path s = Some (r, s') \<and>
    (r = load_summary (Inr db) path \<or>
     ((\<exists>e. sq_open lib = Some e) \<or> \<not> no_faults lib) \<and> (\<exists>m. r = Inl (Runtime_error m)))"
proof (cases "sq_open lib")
  case (Some he)
  then obtain m s1 where "read_database lib path s = (Inl (Runtime_error m), s1)"
    by (cases he) (simp add: read_database_def open_database_def)
  with Some show ?thesis by (simp add: sql_load_summary_def)
next
  case None
  then obtain s1 where s1: "read_database lib path s = (Inr (), s1)" "conn s1 = conn s"
    by (simp add: read_database_def open_database_def)
  obtain g where g: "sums db (sql_summary lib path) g"
      "bind_res (fst (g empty_summary)) (\<lambda>_. Inr (snd (g empty_summary))) = load_summary (Inr db) path"
    by (rule sums_summary)
  have "view (conn s1) = db"
    using s1(2) assms by simp
  then obtain r sm s2 where "sql_summary lib path empty_summary s1 = Some (r, sm, s2)"
      "(r, sm) = g empty_summary \<or> failed_by_fault lib r"
    using readsE[OF g(1), of s1 empty_summary] by metis
  moreover from this(2) g(2) have "bind_res r (\<lambda>_. Inr sm) = load_summary (Inr db) path \<or>
      \<not> no_faults lib \<and> (\<exists>m. bind_res r (\<lambda>_. Inr sm) = Inl (Runtime_error m))"
    by (metis bind_res_simps(1) failed_by_fault_def fst_conv snd_conv)
  ultimately show ?thesis
    using s1(1) by (auto simp: sql_load_summary_def)
qed

lemma diff_answers:
  fixes s t :: "'c session"
  assumes "view (conn s) = db" "view (conn t) = db'"
  shows "\<exists>rep s' t'. sql_diff lib before after s t = Some (rep, s', t') \<and>
    (rep = diff_capsules (Inr db) before (Inr db') after \<or>
     ((\<exists>e. sq_open lib = Some e) \<or> \<not> no_faults lib) \<and> (\<exists>m. rep = diff_result (Inl (Runtime_error m))))"
proof -
  obtain r s' where a: "sql_load_summary lib before s = Some (r, s')"
      "r = load_summary (Inr db) before \<or>
       ((\<exists>e. sq_open lib = Some e) \<or> \<not> no_faults lib) \<and> (\<exists>m. r = Inl (Runtime_error m))"
    using load_answers[OF assms(1)] by blast
  obtain r' t' where b: "sql_load_summary lib after t = Some (r', t')"
      "r' = load_summary (Inr db') after \<or>
       ((\<exists>e. sq_open lib = Some e) \<or> \<not> no_faults lib) \<and> (\<exists>m. r' = Inl (Runtime_error m))"
    using load_answers[OF assms(2)] by blast
  have diff: "diff_capsules (Inr db) before (Inr db') after =
      diff_result (bind_res (load_summary (Inr db) before) (\<lambda>a.
        bind_res (load_summary (Inr db') after) (\<lambda>b. Inr (a, b))))"
    by (simp add: diff_capsules_def diff_result_def bind_res_def split: sum.split)
  show ?thesis
  proof (cases r)
    case (Inl e)
    with a diff show ?thesis
      by (cases "load_summary (Inr db) before") (auto simp: sql_diff_def)
  next
    case (Inr sm)
    with a have "load_summary (Inr db) before = Inr sm"
      by auto
    with Inr a(1) b diff show ?thesis by (auto simp: sql_diff_def)
  qed
qed

end

section \<open>Properties\<close>


end
