(* ===== verification/Spec2Isabelle.thy ===== *)
theory Spec2Isabelle
  imports Exec_Files Bash_Hooks Process_Table Session_Record Cli Show_Reading Diff_Reading
begin

text \<open>
  WhyRun, a recorder of Linux executions, as a shallow embedding of its C++ source and the
  theorems that make it correct.

  \<^bold>\<open>The program.\<close> \<open>whyrun record\<close> starts a command (or an interactive Bash) under ptrace. The
  collector (\<open>src/ptrace_collector.cpp\<close>) waits for the stops of all traced threads, turns two
  syscall stops into one system call, and passes system calls and process events to the
  execution state (\<open>src/execution_state.cpp\<close>), which keeps the processes, their descriptors and
  working directories, decides which command an event belongs to, and emits semantic events. In a
  session the shell's own hooks (\<open>src/bash_session.cpp\<close>) write markers to a context descriptor;
  the collector reads them out of the traced write calls and decodes them. The events go to a
  sink, which is the capsule writer (\<open>src/sqlite_store.cpp\<close>): one SQLite transaction whose
  file is published when the recording has ended. \<open>whyrun show\<close> and \<open>whyrun diff\<close>
  (\<open>src/show.cpp\<close>, \<open>src/diff.cpp\<close>) read capsules back; \<open>src/main.cpp\<close> is the command line.

  \<^bold>\<open>The theories\<close>, in the order of the calls from below:

  \<^item> \<open>Prelude\<close>: fixed-width integers as words and wrapped ints, exceptions as a sum type
    (\<open>res\<close>), loops that may throw (\<open>fold_res\<close>), decimal printing, \<open>from_chars\<close>, \<open>stoll\<close>, C strings.
  \<^item> \<open>Event_Model\<close>: the event record (\<open>event.hpp\<close>), its type names, and the sink interface
    as the locale \<open>event_sink\<close>.
  \<^item> \<open>Path_Model\<close>, \<open>Sockets\<close>: \<open>normalize_path\<close> over \<open>lexically_normal\<close>; socket addresses and
    the rendering of Unix-domain names.
  \<^item> \<open>Exec_State\<close>: the state and the callbacks of \<open>ExecutionState\<close>, one definition per
    callback and per system call. \<open>Exec_Inv\<close>: the invariant (processes under their pids, threads
    of known processes, the root's command is the active one) and that every callback keeps it.
    \<open>Exec_Machine\<close>: runs of callbacks as a step relation, the abstract command machine idle /
    armed / running that they refine, attribution. \<open>Exec_Files\<close>: descriptors, paths, isolation.
  \<^item> \<open>Marker_Protocol\<close>, \<open>Bash_Hooks\<close>: the incremental decoder, and the shell functions that
    write the markers, with the environment that installs them.
  \<^item> \<open>Tracee_Memory\<close>: reads of strings and blocks through \<open>process_vm_readv\<close> and PEEKDATA.
  \<^item> \<open>Collector_Types\<close>, \<open>Collector\<close>: the wait loop of \<open>collect\<close>, the descriptors that name the
    context channel, the child before exec, the guard that reaps the tracees.
  \<^item> \<open>Text_Encoding\<close>, \<open>Capsule_Store\<close>: JSON and shell quoting; the tables as lists of rows,
    each SQL statement as a function, the writer and its transaction (locale \<open>keyed_table\<close> for
    the tables with a key, interpreted on all of them).
  \<^item> \<open>Sqlite_Client\<close>: the C interface of SQLite as the code uses it: a session holds
    the statements and the list of the calls so far, and the library is an argument; \<open>Database\<close>, \<open>Statement\<close> and
    \<open>ReadStatement\<close> with their destructors, and the automaton of the legal calls.
    \<open>Sql_Writer\<close>: \<open>CapsuleWriter\<close> call by call, with every SQL text and every bound parameter.
    \<open>Sql_Recording\<close>: it refines the writer of \<open>Capsule_Store\<close>, whatever call fails.
    \<open>Sqlite_Reading\<close>, \<open>Sql_Queries\<close>: loops over the rows of a SELECT, and the texts and columns
    of the queries (locale \<open>row_reader\<close> for what holds of every reader).
  \<^item> \<open>Process_Table\<close>: the processes table as a function of the log; \<open>Recording\<close>: execution
    state and writer together; \<open>Session_Record\<close>: an
    interactive session from the kernel's reports to the commands table.
  \<^item> \<open>Ordered_Map\<close>, \<open>Show_Report\<close>, \<open>Diff_Report\<close>: \<open>std::map\<close> and \<open>std::set\<close> as sorted lists;
    the two reports as the text that they print. \<open>Show_Reading\<close>, \<open>Diff_Reading\<close>: the same
    reports call by call.
  \<^item> \<open>Capsule_Paths\<close>, \<open>Cli\<close>: the names of capsules and their publication; \<open>main\<close> and its
    sub-commands over a file system of capsules. \<open>record\<close> runs the collector into the writer of
    SQLite calls; \<open>Sink_Relation\<close> carries the collector from that sink to the one of the tables.

  \<^bold>\<open>Correspondence.\<close> A class of the source is a record of its members; a method takes the
  record and returns it updated, with the events that it emits, in a \<open>res\<close> where it may throw.
  \<open>std::unordered_map\<close> is a partial map, an SQL table a list of rows in insertion order, a
  \<open>std::map\<close> that is printed a sorted association list. 64-bit addresses, arguments, ids and
  time stamps are words; \<open>int\<close> casts are \<open>to_int32\<close>. What the kernel, \<open>/proc\<close>,
  \<open>inet_ntop\<close>, the file system and the clock answer are arguments: the record \<open>host\<close> for
  one system call, \<open>wakeup\<close> for one pass of the wait loop, \<open>launch\<close> for the start, \<open>world\<close> for
  one invocation; the record \<open>sqlite\<close> answers the calls of the SQLite library: which of them
  fails, and what a statement does to the connection and returns. The theorems hold for all answers except where a hypothesis says what the
  kernel does: a new process does not have the pid of the recorded root (\<open>fresh_child\<close>,
  \<open>fresh_pid\<close>), the root is not reported again after its end (\<open>quiet_after\<close>), a name that the file system calls free is free.

  \<^bold>\<open>What is shown.\<close> The command events of a recording are well nested for every sequence of
  callbacks, since every callback refines a step of the command machine; a process keeps the
  command it was created under; descriptors, paths and working directories follow the calls
  that succeeded; processes do not interfere. The collector's effect on any sink is that of one
  run of the callbacks, and its result is the root's wait status. Every stop that it is told of is answered by
  one resume request with the right signal. The decoder is independent of
  the chunks of its input, bounded, and inverts what the hooks write. The events table is
  the log, the activity tables are its aggregates, the commands table is its
  brackets, the processes table its execs, forks and exits; in a session the rows of the
  commands table are the lines that were typed; the writer rejects no event of a run within the stated bounds. The
  grouped and the summarised queries of the report agree, the report of one command depends on
  its events only, the comparison reports exactly the differences and does not depend on the
  order of events. Whatever SQLite call fails, the file holds all the rows of the recording
  or none; a failed reader says so, and its report is a prefix of the right one (\<open>show\<close>) or
  empty (\<open>diff\<close>); every statement is finalized and every connection closed on all paths. A record command adds one finished capsule under a free name or nothing at
  all, and what it adds can be shown.

  \<^bold>\<open>Loops.\<close> The wait loop recurses on the list of wake-ups; a list that ends while a tracee is
  alive is the outcome \<open>Waiting\<close> (the program still blocks), so no fuel is needed. The searches for
  a free capsule name are partial functions; they return if one of the first \<open>2^32\<close> names is
  free. The loops over the rows of a SELECT (\<open>read_loop\<close>) are partial functions too; a
  SELECT answers with a list of rows, so that they are shown to return. All other functions are total by structural recursion or a measure.

  \<^bold>\<open>Not modelled.\<close> What SQLite does inside a call: the tables follow the documentation of the
  statements (\<open>documented_sqlite\<close>, \<open>reading_sqlite\<close>), and a call that fails is one without an
  effect of its own, so that a schema script that fails half way counts as one that created
  no table. \<open>show\<close> and \<open>diff\<close> on the command line use the reports over tables, where the
  opening may fail; their calls are in \<open>Show_Reading\<close> and \<open>Diff_Reading\<close>. 64-bit overflow of the activity counters; how Bash runs its
  hooks beyond the order of calls in \<open>Bash_Hooks\<close>; terminal job control of the session;
  the build files and tests.
\<close>

section \<open>Readers\<close>

text \<open>
  C16. With any SQLite, whatever its calls answer, show and diff return (their loops over rows
  end), and their calls are a legal use of the handles that releases every statement and the
  connection.
\<close>

theorem readers_return_and_release:
  "(\<exists>rep s. sql_show lib path options (fresh_session c) = Some (rep, s) \<and>
      handles_run (calls s) None = Some None) \<and>
   (\<exists>rep s t. sql_diff lib path path' (fresh_session c) (fresh_session c') = Some (rep, s, t) \<and>
      handles_run (calls s) None = Some None \<and> handles_run (calls t) None = Some None)"
  using show_returns[OF closed_fresh[of c], of lib path options]
    diff_returns[OF closed_fresh[of c] closed_fresh[of c'], of lib path path']
  unfolding closed_def by simp

end
